(* ===== verification/Prelude.thy ===== *)
theory Prelude
  imports Main "HOL-Library.Word"
begin

text \<open>
  Shared vocabulary of the development: the C integer types, the outcome of a kernel
  routine (a result, a panic, or going to sleep), the combinators that compose routines in
  the order the C code runs them, the weakest-precondition calculus the component proofs use,
  and a few facts on lists and words that several components share.
\<close>

unbundle bit_operations_syntax

section \<open>C types\<close>

type_synonym u8 = "8 word"
type_synonym u16 = "16 word"
type_synonym u32 = "32 word"
type_synonym u64 = "64 word"

text \<open>
  \<open>c_int\<close> is the conversion of a \<^verbatim>\<open>uint64\<close> to the 32-bit \<^verbatim>\<open>int\<close> (the low half, read
  as two's complement); \<open>u64_of_int\<close> is the conversion back, which sign-extends.
\<close>

definition c_int :: "u64 \<Rightarrow> int" where
  "c_int x = sint (ucast x :: u32)"

definition u64_of_int :: "int \<Rightarrow> u64" where
  "u64_of_int i = word_of_int i"

definition minus_one :: u64 where
  "minus_one = -1"

text \<open>Bytes as they occur in C strings.\<close>

definition b2c :: "u8 \<Rightarrow> char" where
  "b2c w = char_of (unat w)"

definition c2b :: "char \<Rightarrow> u8" where
  "c2b c = of_nat (of_char c)"

section \<open>Outcomes of kernel routines\<close>

text \<open>
  A routine that runs in state \<open>s\<close> returns a value and a new state (\<open>Inr\<close>), or stops
  (\<open>Inl\<close>): it calls \<^verbatim>\<open>panic\<close> with a message, it gives up the CPU in \<^verbatim>\<open>sleep\<close>
  with the channel and the state it leaves, or it never returns to its caller although the
  kernel goes on (\<^verbatim>\<open>exit\<close>, the final \<^verbatim>\<open>sched\<close>). A sleep channel is the address
  of the object slept on; the objects the kernel sleeps on are the constructors of \<open>chan\<close>.
  \<open>OutOfFuel\<close> marks the two recursions of the model that carry a bound on their depth.
\<close>

datatype chan =
    ChProc nat \<comment> \<open>a \<^verbatim>\<open>struct proc\<close>, for \<^verbatim>\<open>wait\<close>\<close>
  | ChTicks
  | ChLog
  | ChBuf nat \<comment> \<open>the sleep lock of a buffer\<close>
  | ChInode nat \<comment> \<open>the sleep lock of an inode\<close>
  | ChPipeR u64 \<comment> \<open>\<^verbatim>\<open>&pi->nread\<close>\<close>
  | ChPipeW u64 \<comment> \<open>\<^verbatim>\<open>&pi->nwrite\<close>\<close>
  | ChCons
  | ChUartTx

datatype 's stop = Panic string | Sleep chan 's | Exited 's | OutOfFuel

type_synonym ('s, 'a) routine = "'s \<Rightarrow> 's stop + 'a \<times> 's"

definition ret :: "'a \<Rightarrow> ('s, 'a) routine" where
  "ret a s = Inr (a, s)"

definition bnd :: "('s, 'a) routine \<Rightarrow> ('a \<Rightarrow> ('s, 'b) routine) \<Rightarrow> ('s, 'b) routine" where
  "bnd m f s = (case m s of Inl e \<Rightarrow> Inl e | Inr (a, t) \<Rightarrow> f a t)"

definition andthen :: "('s, 'a) routine \<Rightarrow> ('s, 'b) routine \<Rightarrow> ('s, 'b) routine" where
  "andthen m k = bnd m (\<lambda>_. k)"

definition panic :: "string \<Rightarrow> ('s, 'a) routine" where
  "panic msg s = Inl (Panic msg)"

definition gets :: "('s \<Rightarrow> 'a) \<Rightarrow> ('s, 'a) routine" where
  "gets f s = Inr (f s, s)"

definition modify :: "('s \<Rightarrow> 's) \<Rightarrow> ('s, unit) routine" where
  "modify f s = Inr ((), f s)"

definition skip :: "('s, unit) routine" where
  "skip = ret ()"

definition panic_if :: "bool \<Rightarrow> string \<Rightarrow> ('s, unit) routine" where
  "panic_if b msg = (if b then panic msg else skip)"

definition whenM :: "bool \<Rightarrow> ('s, unit) routine \<Rightarrow> ('s, unit) routine" where
  "whenM b m = (if b then m else skip)"

text \<open>The loop \<^verbatim>\<open>for(x in xs) body(x)\<close>, without early exit.\<close>

fun forM :: "'x list \<Rightarrow> ('x \<Rightarrow> ('s, unit) routine) \<Rightarrow> ('s, unit) routine" where
  "forM [] f = skip"
| "forM (x # xs) f = andthen (f x) (forM xs f)"

text \<open>The loop over \<open>xs\<close> whose body may leave it early with a result (\<^verbatim>\<open>return\<close>, \<^verbatim>\<open>break\<close>).\<close>

fun findM :: "'x list \<Rightarrow> ('x \<Rightarrow> ('s, 'r option) routine) \<Rightarrow> ('s, 'r option) routine" where
  "findM [] f = ret None"
| "findM (x # xs) f = bnd (f x) (\<lambda>r. case r of None \<Rightarrow> findM xs f | Some y \<Rightarrow> ret (Some y))"

section \<open>Weakest preconditions\<close>

text \<open>
  \<open>wp m Q s\<close>: run from \<open>s\<close>, the routine returns, and value and final state satisfy \<open>Q\<close>
  (total: neither a panic nor a sleep). \<open>wlp m Q s\<close>: if it returns, they satisfy \<open>Q\<close>.
\<close>

named_theorems wp_rules "rewrite rules that push wp and wlp through the combinators"

definition wp :: "('s, 'a) routine \<Rightarrow> ('a \<Rightarrow> 's \<Rightarrow> bool) \<Rightarrow> 's \<Rightarrow> bool" where
  "wp m Q s = (case m s of Inl e \<Rightarrow> False | Inr (a, t) \<Rightarrow> Q a t)"

definition wlp :: "('s, 'a) routine \<Rightarrow> ('a \<Rightarrow> 's \<Rightarrow> bool) \<Rightarrow> 's \<Rightarrow> bool" where
  "wlp m Q s = (case m s of Inl e \<Rightarrow> True | Inr (a, t) \<Rightarrow> Q a t)"

lemma wp_ret [wp_rules]: "wp (ret a) Q s = Q a s"
  by (simp add: wp_def ret_def)

lemma wp_bnd [wp_rules]: "wp (bnd m f) Q s = wp m (\<lambda>a t. wp (f a) Q t) s"
  by (simp add: wp_def bnd_def split: sum.splits prod.splits)

lemma wp_andthen [wp_rules]: "wp (andthen m k) Q s = wp m (\<lambda>_ t. wp k Q t) s"
  by (simp add: andthen_def wp_bnd)

lemma wp_panic [wp_rules]: "wp (panic msg) Q s = False"
  by (simp add: wp_def panic_def)

lemma wp_gets [wp_rules]: "wp (gets f) Q s = Q (f s) s"
  by (simp add: wp_def gets_def)

lemma wp_modify [wp_rules]: "wp (modify f) Q s = Q () (f s)"
  by (simp add: wp_def modify_def)

lemma wp_skip [wp_rules]: "wp skip Q s = Q () s"
  by (simp add: skip_def wp_ret)

lemma wp_panic_if [wp_rules]: "wp (panic_if b msg) Q s = (\<not> b \<and> Q () s)"
  by (simp add: panic_if_def wp_rules)

lemma wp_whenM [wp_rules]: "wp (whenM b m) Q s = (if b then wp m Q s else Q () s)"
  by (simp add: whenM_def wp_rules)

lemma wp_if [wp_rules]: "wp (if b then m else k) Q s = (if b then wp m Q s else wp k Q s)"
  by simp

lemma wp_forM_Nil [wp_rules]: "wp (forM [] f) Q s = Q () s"
  by (simp add: wp_rules)

lemma wp_forM_Cons [wp_rules]: "wp (forM (x # xs) f) Q s = wp (f x) (\<lambda>_ t. wp (forM xs f) Q t) s"
  by (simp add: wp_rules)

lemma wp_mono: "wp m P s \<Longrightarrow> (\<And>a t. m s = Inr (a, t) \<Longrightarrow> P a t \<Longrightarrow> Q a t) \<Longrightarrow> wp m Q s"
  by (auto simp: wp_def split: sum.splits prod.splits)

lemma wp_iff: "wp m Q s \<longleftrightarrow> (\<exists>a t. m s = Inr (a, t) \<and> Q a t)"
  by (auto simp: wp_def split: sum.splits prod.splits)

lemma wp_resultI: "m s = Inr (a, t) \<Longrightarrow> Q a t \<Longrightarrow> wp m Q s"
  by (simp add: wp_def)

lemma wlp_ret [wp_rules]: "wlp (ret a) Q s = Q a s"
  by (simp add: wlp_def ret_def)

lemma wlp_bnd [wp_rules]: "wlp (bnd m f) Q s = wlp m (\<lambda>a t. wlp (f a) Q t) s"
  by (simp add: wlp_def bnd_def split: sum.splits prod.splits)

lemma wlp_andthen [wp_rules]: "wlp (andthen m k) Q s = wlp m (\<lambda>_ t. wlp k Q t) s"
  by (simp add: andthen_def wlp_bnd)

lemma wlp_panic [wp_rules]: "wlp (panic msg) Q s = True"
  by (simp add: wlp_def panic_def)

lemma wlp_gets [wp_rules]: "wlp (gets f) Q s = Q (f s) s"
  by (simp add: wlp_def gets_def)

lemma wlp_modify [wp_rules]: "wlp (modify f) Q s = Q () (f s)"
  by (simp add: wlp_def modify_def)

lemma wlp_skip [wp_rules]: "wlp skip Q s = Q () s"
  by (simp add: skip_def wlp_ret)

lemma wlp_panic_if [wp_rules]: "wlp (panic_if b msg) Q s = (b \<or> Q () s)"
  by (simp add: panic_if_def wp_rules)

lemma wlp_whenM [wp_rules]: "wlp (whenM b m) Q s = (if b then wlp m Q s else Q () s)"
  by (simp add: whenM_def wp_rules)

lemma wlp_if [wp_rules]: "wlp (if b then m else k) Q s = (if b then wlp m Q s else wlp k Q s)"
  by simp

lemma wlp_mono: "wlp m P s \<Longrightarrow> (\<And>a t. m s = Inr (a, t) \<Longrightarrow> P a t \<Longrightarrow> Q a t) \<Longrightarrow> wlp m Q s"
  by (auto simp: wlp_def split: sum.splits prod.splits)

lemma wlp_iff: "wlp m Q s \<longleftrightarrow> (\<forall>a t. m s = Inr (a, t) \<longrightarrow> Q a t)"
  by (auto simp: wlp_def split: sum.splits prod.splits)

lemma wlp_resultD: "wlp m Q s \<Longrightarrow> m s = Inr (a, t) \<Longrightarrow> Q a t"
  by (simp add: wlp_def)

lemma wlp_forM:
  assumes "\<And>x t. x \<in> set xs \<Longrightarrow> I t \<Longrightarrow> wlp (f x) (\<lambda>_. I) t" and "I s"
  shows "wlp (forM xs f) (\<lambda>_. I) s"
  using assms
proof (induction xs arbitrary: s)
  case Nil
  then show ?case by (simp add: wp_rules)
next
  case (Cons x xs)
  then show ?case
    by (auto simp: wp_rules intro!: wlp_mono [OF Cons.prems(1)])
qed

text \<open>
  \<open>frame g m\<close>: the routine leaves the part \<open>g\<close> of the state as it was, however it
  returns. Frame facts compose along the combinators.
\<close>

named_theorems frame_intros "introduction rules for frame"

definition frame :: "('s \<Rightarrow> 'v) \<Rightarrow> ('s, 'a) routine \<Rightarrow> bool" where
  "frame g m \<longleftrightarrow> (\<forall>s a t. m s = Inr (a, t) \<longrightarrow> g t = g s)"

lemma frameD: "frame g m \<Longrightarrow> m s = Inr (a, t) \<Longrightarrow> g t = g s"
  by (auto simp: frame_def)

lemma frame_ret [frame_intros]: "frame g (ret a)"
  by (simp add: frame_def ret_def)

lemma frame_bnd [frame_intros]: "frame g m \<Longrightarrow> (\<And>a. frame g (f a)) \<Longrightarrow> frame g (bnd m f)"
  by (fastforce simp: frame_def bnd_def split: sum.splits prod.splits)

lemma frame_andthen [frame_intros]: "frame g m \<Longrightarrow> frame g k \<Longrightarrow> frame g (andthen m k)"
  by (simp add: andthen_def frame_bnd)

lemma frame_panic [frame_intros]: "frame g (panic msg)"
  by (simp add: frame_def panic_def)

lemma frame_gets [frame_intros]: "frame g (gets f)"
  by (simp add: frame_def gets_def)

lemma frame_modify [frame_intros]: "(\<And>s. g (f s) = g s) \<Longrightarrow> frame g (modify f)"
  by (simp add: frame_def modify_def)

lemma frame_skip [frame_intros]: "frame g skip"
  by (simp add: skip_def frame_ret)

lemma frame_panic_if [frame_intros]: "frame g (panic_if b msg)"
  by (simp add: panic_if_def frame_panic frame_skip)

lemma frame_whenM [frame_intros]: "frame g m \<Longrightarrow> frame g (whenM b m)"
  by (simp add: whenM_def frame_skip)

lemma frame_if [frame_intros]: "frame g m \<Longrightarrow> frame g k \<Longrightarrow> frame g (if b then m else k)"
  by simp

lemma frame_forM [frame_intros]: "(\<And>x. frame g (f x)) \<Longrightarrow> frame g (forM xs f)"
  by (induction xs) (auto intro: frame_intros)

lemma frame_findM [frame_intros]: "(\<And>x. frame g (f x)) \<Longrightarrow> frame g (findM xs f)"
proof (induction xs)
  case Nil
  then show ?case by (simp add: frame_ret)
next
  case (Cons x xs)
  then show ?case by (auto intro!: frame_bnd frame_ret split: option.split)
qed

lemma frame_case_option [frame_intros]:
  "frame g m \<Longrightarrow> (\<And>x. frame g (f x)) \<Longrightarrow> frame g (case o' of None \<Rightarrow> m | Some x \<Rightarrow> f x)"
  by (cases o') auto

lemma frame_case_prod [frame_intros]:
  "(\<And>x y. frame g (f x y)) \<Longrightarrow> frame g (case p of (x, y) \<Rightarrow> f x y)"
  by (cases p) auto

text \<open>
  \<open>keeps I m\<close>: whenever the routine returns from a state that satisfies \<open>I\<close>, the final state
  satisfies \<open>I\<close>. These facts, too, compose along the combinators.
\<close>

named_theorems keeps_intros "introduction rules for keeps"

definition keeps :: "('s \<Rightarrow> bool) \<Rightarrow> ('s, 'a) routine \<Rightarrow> bool" where
  "keeps I m \<longleftrightarrow> (\<forall>s a t. I s \<longrightarrow> m s = Inr (a, t) \<longrightarrow> I t)"

lemma keepsI: "(\<And>s a t. I s \<Longrightarrow> m s = Inr (a, t) \<Longrightarrow> I t) \<Longrightarrow> keeps I m"
  by (simp add: keeps_def)

lemma keepsD: "keeps I m \<Longrightarrow> I s \<Longrightarrow> m s = Inr (a, t) \<Longrightarrow> I t"
  by (simp add: keeps_def)

lemma keeps_ret [keeps_intros]: "keeps I (ret a)"
  by (simp add: keeps_def ret_def)

lemma bnd_Inr: "bnd m f s = Inr x \<longleftrightarrow> (\<exists>a t. m s = Inr (a, t) \<and> f a t = Inr x)"
  by (auto simp: bnd_def split: sum.splits prod.splits)

lemma keeps_bnd [keeps_intros]: "keeps I m \<Longrightarrow> (\<And>a. keeps I (f a)) \<Longrightarrow> keeps I (bnd m f)"
  unfolding keeps_def bnd_Inr by blast

lemma keeps_andthen [keeps_intros]: "keeps I m \<Longrightarrow> keeps I k \<Longrightarrow> keeps I (andthen m k)"
  by (simp add: andthen_def keeps_bnd)

lemma keeps_panic [keeps_intros]: "keeps I (panic msg)"
  by (simp add: keeps_def panic_def)

lemma keeps_gets [keeps_intros]: "keeps I (gets f)"
  by (simp add: keeps_def gets_def)

lemma keeps_modify: "(\<And>s. I s \<Longrightarrow> I (f s)) \<Longrightarrow> keeps I (modify f)"
  by (simp add: keeps_def modify_def)

lemma keeps_skip [keeps_intros]: "keeps I skip"
  by (simp add: skip_def keeps_ret)

lemma keeps_panic_if [keeps_intros]: "keeps I (panic_if b msg)"
  by (simp add: panic_if_def keeps_panic keeps_skip)

lemma keeps_whenM [keeps_intros]: "(b \<Longrightarrow> keeps I m) \<Longrightarrow> keeps I (whenM b m)"
  by (simp add: whenM_def keeps_skip)

lemma keeps_if [keeps_intros]:
  "(b \<Longrightarrow> keeps I m) \<Longrightarrow> (\<not> b \<Longrightarrow> keeps I k) \<Longrightarrow> keeps I (if b then m else k)"
  by simp

lemma keeps_forM [keeps_intros]: "(\<And>x. keeps I (f x)) \<Longrightarrow> keeps I (forM xs f)"
  by (induction xs) (auto intro: keeps_intros)

lemma keeps_findM [keeps_intros]: "(\<And>x. keeps I (f x)) \<Longrightarrow> keeps I (findM xs f)"
proof (induction xs)
  case Nil
  then show ?case by (simp add: keeps_ret)
next
  case (Cons x xs)
  then show ?case by (auto intro!: keeps_bnd keeps_ret split: option.split)
qed

lemma keeps_case_option [keeps_intros]:
  "(v = None \<Longrightarrow> keeps I m) \<Longrightarrow> (\<And>x. v = Some x \<Longrightarrow> keeps I (f x))
   \<Longrightarrow> keeps I (case v of None \<Rightarrow> m | Some x \<Rightarrow> f x)"
  by (cases v) auto

lemma keeps_case_prod [keeps_intros]:
  "(\<And>x y. p = (x, y) \<Longrightarrow> keeps I (f x y)) \<Longrightarrow> keeps I (case p of (x, y) \<Rightarrow> f x y)"
  by (cases p) auto

lemma keeps_case_sum [keeps_intros]:
  "(\<And>x. keeps I (f x)) \<Longrightarrow> (\<And>y. keeps I (g y)) \<Longrightarrow> keeps I (case v of Inl x \<Rightarrow> f x | Inr y \<Rightarrow> g y)"
  by (cases v) auto

lemma keeps_Let [keeps_intros]: "keeps I (f v) \<Longrightarrow> keeps I (let x = v in f x)"
  by simp

text \<open>A continuation may rely on what the read of the state has established.\<close>

lemma keeps_gets_bnd:
  "(\<And>s a t. I s \<Longrightarrow> f (g s) s = Inr (a, t) \<Longrightarrow> I t) \<Longrightarrow> keeps I (bnd (gets g) f)"
  by (auto simp: keeps_def bnd_def gets_def)

section \<open>Facts on words and lists\<close>

lemma c_int_bounds: "- (2 ^ 31) \<le> c_int x \<and> c_int x < 2 ^ 31"
  using sint_greater_eq [of "ucast x :: u32"] sint_less [of "ucast x :: u32"]
  by (simp add: c_int_def)

lemma word_superset_iff: "x AND y = y \<longleftrightarrow> (\<forall>n. bit y n \<longrightarrow> bit x n)"
  for x y :: "'a::len word"
  by (metis bit_and_iff bit_eqI)

lemma word_single_bit_test: "x AND push_bit n 1 \<noteq> 0 \<longleftrightarrow> bit x n" if "n < LENGTH('a)"
  for x :: "'a::len word"
proof
  assume "x AND push_bit n 1 \<noteq> 0"
  then obtain m where "bit (x AND push_bit n 1) m"
    by (metis bit_eqI bit_0_eq bot_apply bot_bool_def)
  then show "bit x n" by (auto simp: bit_simps)
next
  assume "bit x n"
  then have "bit (x AND push_bit n 1) n" using that by (simp add: bit_simps)
  then show "x AND push_bit n 1 \<noteq> 0" by auto
qed

lemma unat_two_power: "k < LENGTH('a) \<Longrightarrow> unat (2 ^ k :: 'a::len word) = 2 ^ k"
proof -
  assume k: "k < LENGTH('a)"
  have "(2 ^ k :: 'a word) = of_nat (2 ^ k)" by simp
  then show ?thesis using k by (simp only: unat_of_nat) simp
qed

lemma word_bit_bound:
  fixes x :: "'a::len word"
  assumes "x < 2 ^ k" and "bit x n" and "k < LENGTH('a)"
  shows "n < k"
proof (rule ccontr)
  assume "\<not> n < k"
  then have "bit (drop_bit k x) (n - k)" using assms(2) by (simp add: bit_simps)
  moreover have "unat x < 2 ^ k"
    using assms(1,3) by (simp add: word_less_nat_alt unat_two_power)
  then have "drop_bit k (unat x) = 0" by (simp add: drop_bit_eq_div)
  then have "drop_bit k x = 0" by (metis unat_drop_bit_eq unat_0_iff)
  ultimately show False by simp
qed

lemma unat_and_mask: "unat (x AND mask k) = unat x mod 2 ^ k"
  for x :: "'a::len word"
  by (simp flip: take_bit_eq_mask take_bit_eq_mod add: unsigned_take_bit_eq)

lemma unat_m1_u64 [simp]: "unat (- 1 :: u64) = 18446744073709551615"
  by (simp add: unsigned_minus_1_eq_mask mask_eq_exp_minus_1)

lemma unat_u64_lt: "unat (x :: u64) < 2 ^ 64"
  using unsigned_less [where ?'a = nat and w = x] by simp

lemma unat_add_of_nat: "unat x + k < 2 ^ 64 \<Longrightarrow> unat (x + of_nat k) = unat x + k" for x :: u64
  by (simp add: unat_plus_if' unat_of_nat)

lemma nth_list_update_map:
  "i < length xs \<Longrightarrow> map f (xs[j := y]) ! i = (if i = j then f y else f (xs ! i))"
  by (simp add: nth_list_update)

end
