(* ===== verification/Layout.thy ===== *)
theory Layout
  imports Prelude
begin

text \<open>
  The constants of \<^verbatim>\<open>kernel/param.h\<close>, the physical and virtual memory layout of
  \<^verbatim>\<open>kernel/memlayout.h\<close>, and the page and page-table-entry macros of
  \<^verbatim>\<open>kernel/riscv.h\<close>, with the arithmetic facts the memory components rest on:
  rounding to page boundaries, the fields of an Sv39 address, and the round trip between a
  physical page and its page-table entry.
\<close>

named_theorems layout_defs "the definitions of the layout constants and macros"

section \<open>param.h\<close>

definition NPROC :: nat where [layout_defs]: "NPROC = 64"
definition NCPU :: nat where [layout_defs]: "NCPU = 8"
definition NOFILE :: nat where [layout_defs]: "NOFILE = 16"
definition NFILE :: nat where [layout_defs]: "NFILE = 100"
definition NINODE :: nat where [layout_defs]: "NINODE = 50"
definition NDEV :: nat where [layout_defs]: "NDEV = 10"
definition ROOTDEV :: u32 where [layout_defs]: "ROOTDEV = 1"
definition MAXARG :: nat where [layout_defs]: "MAXARG = 32"
definition MAXOPBLOCKS :: nat where [layout_defs]: "MAXOPBLOCKS = 10"
definition LOGBLOCKS :: nat where [layout_defs]: "LOGBLOCKS = MAXOPBLOCKS * 3"
definition NBUF :: nat where [layout_defs]: "NBUF = MAXOPBLOCKS * 3"
definition MAXPATH :: nat where [layout_defs]: "MAXPATH = 128"
definition USERSTACK :: u64 where [layout_defs]: "USERSTACK = 1"

section \<open>riscv.h: pages and page-table entries\<close>

definition PGSIZE :: u64 where [layout_defs]: "PGSIZE = 4096"

definition PGROUNDUP :: "u64 \<Rightarrow> u64" where
  "PGROUNDUP sz = (sz + PGSIZE - 1) AND NOT (PGSIZE - 1)"

definition PGROUNDDOWN :: "u64 \<Rightarrow> u64" where
  "PGROUNDDOWN a = a AND NOT (PGSIZE - 1)"

definition PTE_V :: u64 where [layout_defs]: "PTE_V = 1"
definition PTE_R :: u64 where [layout_defs]: "PTE_R = 2"
definition PTE_W :: u64 where [layout_defs]: "PTE_W = 4"
definition PTE_X :: u64 where [layout_defs]: "PTE_X = 8"
definition PTE_U :: u64 where [layout_defs]: "PTE_U = 16"

definition PA2PTE :: "u64 \<Rightarrow> u64" where
  "PA2PTE pa = push_bit 10 (drop_bit 12 pa)"

definition PTE2PA :: "u64 \<Rightarrow> u64" where
  "PTE2PA pte = push_bit 12 (drop_bit 10 pte)"

definition PTE_FLAGS :: "u64 \<Rightarrow> u64" where
  "PTE_FLAGS pte = pte AND 1023"

definition PX :: "nat \<Rightarrow> u64 \<Rightarrow> u64" where
  "PX level va = drop_bit (12 + 9 * level) va AND 511"

definition MAXVA :: u64 where [layout_defs]: "MAXVA = 0x4000000000"

section \<open>memlayout.h\<close>

definition UART0 :: u64 where [layout_defs]: "UART0 = 0x10000000"
definition VIRTIO0 :: u64 where [layout_defs]: "VIRTIO0 = 0x10001000"
definition PLIC :: u64 where [layout_defs]: "PLIC = 0x0c000000"
definition KERNBASE :: u64 where [layout_defs]: "KERNBASE = 0x80000000"
definition PHYSTOP :: u64 where [layout_defs]: "PHYSTOP = KERNBASE + 128 * 1024 * 1024"
definition TRAMPOLINE :: u64 where [layout_defs]: "TRAMPOLINE = MAXVA - PGSIZE"
definition TRAPFRAME :: u64 where [layout_defs]: "TRAPFRAME = TRAMPOLINE - PGSIZE"

definition KSTACK :: "nat \<Rightarrow> u64" where
  "KSTACK p = TRAMPOLINE - (of_nat p + 1) * 2 * PGSIZE"

section \<open>Facts\<close>

definition page_aligned :: "u64 \<Rightarrow> bool" where
  "page_aligned a \<longleftrightarrow> a AND 4095 = 0"

lemma mask12: "(4095 :: u64) = mask 12" by (simp add: mask_eq_exp_minus_1)
lemma mask9: "(511 :: u64) = mask 9" by (simp add: mask_eq_exp_minus_1)
lemma mask10: "(1023 :: u64) = mask 10" by (simp add: mask_eq_exp_minus_1)

lemma page_aligned_bits: "page_aligned a \<longleftrightarrow> (\<forall>n<12. \<not> bit a n)"
proof -
  have "bit (a AND mask 12) n \<longleftrightarrow> bit a n \<and> n < 12" for n
    using bit_imp_le_length [of a n] by (auto simp: bit_simps)
  moreover have "a AND mask 12 = 0 \<longleftrightarrow> (\<forall>n. \<not> bit (a AND mask 12) n)"
    by (metis bit_0_eq bit_eqI bot_apply bot_bool_def)
  ultimately show ?thesis by (auto simp: page_aligned_def mask12)
qed

lemma page_aligned_unat: "page_aligned a \<longleftrightarrow> unat a mod 4096 = 0"
proof -
  have "unat (a AND mask 12) = unat a mod 4096"
    by (simp add: unat_and_mask)
  then show ?thesis
    by (simp add: page_aligned_def mask12 unat_eq_zero [symmetric] del: unat_eq_zero)
qed

lemma PGROUNDDOWN_bits: "bit (PGROUNDDOWN a) n \<longleftrightarrow> bit a n \<and> 12 \<le> n"
proof -
  have "PGROUNDDOWN a = a AND NOT (mask 12)"
    by (simp add: PGROUNDDOWN_def PGSIZE_def mask12)
  then show ?thesis by (auto simp: bit_simps dest: bit_imp_le_length)
qed

lemma PGROUNDDOWN_aligned [simp]: "page_aligned (PGROUNDDOWN a)"
  by (simp add: page_aligned_bits PGROUNDDOWN_bits)

lemma PGROUNDDOWN_id: "page_aligned a \<Longrightarrow> PGROUNDDOWN a = a"
  by (rule bit_eqI) (auto simp: page_aligned_bits PGROUNDDOWN_bits not_less)

lemma PGROUNDDOWN_idem [simp]: "PGROUNDDOWN (PGROUNDDOWN a) = PGROUNDDOWN a"
  by (simp add: PGROUNDDOWN_id)

lemma PGROUNDDOWN_split: "a = PGROUNDDOWN a + (a AND 4095)"
proof -
  have "PGROUNDDOWN a = a AND NOT (mask 12)"
    by (simp add: PGROUNDDOWN_def PGSIZE_def mask12)
  moreover have "(a AND NOT (mask 12)) + (a AND mask 12) = a"
    by (subst disjunctive_add) (auto simp: bit_simps bit_eq_iff)
  ultimately show ?thesis by (simp add: mask12)
qed

lemma unat_PGROUNDDOWN: "unat (PGROUNDDOWN a) = unat a - unat a mod 4096"
proof -
  have le: "unat (a AND 4095) = unat a mod 4096"
    by (simp add: mask12 unat_and_mask)
  have "PGROUNDDOWN a = a - (a AND 4095)" using PGROUNDDOWN_split [of a] by (metis add_diff_cancel_right')
  moreover have "a AND 4095 \<le> a" by (simp add: word_le_nat_alt le)
  ultimately show ?thesis by (simp add: unat_sub le)
qed

lemma unat_PGROUNDUP:
  "unat sz \<le> 2 ^ 64 - 4096 \<Longrightarrow> unat (PGROUNDUP sz) = (unat sz + 4095) div 4096 * 4096"
proof -
  assume a: "unat sz \<le> 2 ^ 64 - 4096"
  then have "unat (sz + 4095) = unat sz + 4095" by (simp add: unat_plus_if')
  moreover have "PGROUNDUP sz = PGROUNDDOWN (sz + 4095)"
    by (simp add: PGROUNDUP_def PGROUNDDOWN_def PGSIZE_def algebra_simps)
  ultimately show ?thesis by (simp add: unat_PGROUNDDOWN minus_mod_eq_div_mult)
qed

lemma PGROUNDUP_aligned [simp]: "page_aligned (PGROUNDUP sz)"
proof -
  have "PGROUNDUP sz = PGROUNDDOWN (sz + PGSIZE - 1)"
    by (simp add: PGROUNDUP_def PGROUNDDOWN_def)
  then show ?thesis by simp
qed

text \<open>
  A page-aligned physical address below \<open>2 ^ 56\<close> survives the trip through a page-table
  entry, whatever the ten flag bits are, and so do the flags.
\<close>

lemma PTE2PA_PA2PTE:
  assumes "page_aligned pa" and "pa < 2 ^ 56" and "f < 1024"
  shows "PTE2PA (PA2PTE pa OR f) = pa"
proof (rule bit_eqI)
  fix n
  have pa: "bit pa n \<Longrightarrow> n < 56" for n using word_bit_bound [OF assms(2)] by simp
  have f: "\<not> bit f (10 + n)" for n using word_bit_bound [of f 10 "10 + n"] assms(3) by auto
  show "bit (PTE2PA (PA2PTE pa OR f)) n = bit pa n"
  proof (cases "12 \<le> n \<and> n < 56")
    case True
    then show ?thesis using f [of "n - 12"] by (auto simp: PTE2PA_def PA2PTE_def bit_simps)
  next
    case False
    then have "\<not> bit pa n" using assms(1) pa [of n] by (auto simp: page_aligned_bits not_less)
    moreover have "\<not> bit (PTE2PA (PA2PTE pa OR f)) n"
      using False f [of "n - 12"] pa [of n]
      by (auto simp: PTE2PA_def PA2PTE_def bit_simps not_less)
    ultimately show ?thesis by simp
  qed
qed

lemma PTE_FLAGS_PA2PTE:
  assumes "f < 1024"
  shows "PTE_FLAGS (PA2PTE pa OR f) = f"
proof (rule bit_eqI)
  fix n
  have f: "bit f n \<Longrightarrow> n < 10" for n using word_bit_bound [of f 10] assms by simp
  then show "bit (PTE_FLAGS (PA2PTE pa OR f)) n = bit f n"
    by (auto simp: PTE_FLAGS_def PA2PTE_def mask10 bit_simps dest: bit_imp_le_length)
qed

lemma PX_less [simp]: "unat (PX level va) < 512"
proof -
  have "PX level va \<le> 511" unfolding PX_def by (rule word_and_le1)
  then show ?thesis by (simp add: word_le_nat_alt)
qed

text \<open>The three indices of a page-aligned address below \<^const>\<open>MAXVA\<close> determine it.\<close>

lemma MAXVA_bits: "va < MAXVA \<Longrightarrow> bit va n \<Longrightarrow> n < 38"
  using word_bit_bound [of va 38 n] by (simp add: MAXVA_def)

lemma PX_bit: "bit (PX level va) n \<longleftrightarrow> n < 9 \<and> bit va (12 + 9 * level + n)"
  by (auto simp: PX_def mask9 bit_simps)

lemma PX_inj:
  assumes "va < MAXVA" "vb < MAXVA" "page_aligned va" "page_aligned vb"
    and px: "PX 2 va = PX 2 vb" "PX 1 va = PX 1 vb" "PX 0 va = PX 0 vb"
  shows "va = vb"
proof (rule bit_eqI)
  fix n :: nat
  have b: "bit va (12 + 9 * l + k) = bit vb (12 + 9 * l + k)" if "k < 9" "l < 3" for k l
  proof -
    have "PX l va = PX l vb" using px that(2) by (auto simp: less_Suc_eq numeral_3_eq_3 numeral_2_eq_2)
    then have "bit (PX l va) k = bit (PX l vb) k" by simp
    then show ?thesis using that(1) by (simp add: PX_bit)
  qed
  consider "n < 12" | "12 \<le> n" "n < 39" | "39 \<le> n" by linarith
  then show "bit va n = bit vb n"
  proof cases
    case 1
    then show ?thesis using assms by (simp add: page_aligned_bits)
  next
    case 2
    have "n = 12 + 9 * ((n - 12) div 9) + (n - 12) mod 9" using 2 by simp
    moreover have "(n - 12) div 9 < 3" using 2 by (simp add: div_less_iff_less_mult)
    ultimately show ?thesis using b [of "(n - 12) mod 9" "(n - 12) div 9"] by simp
  next
    case 3
    then show ?thesis using assms MAXVA_bits [of _ n] by fastforce
  qed
qed

end
