(* ===== verification/Kstring.thy ===== *)
theory Kstring
  imports Layout
begin

text \<open>
  \<^verbatim>\<open>kernel/string.c\<close>. The memory routines work on byte-addressed memory, a function from
  64-bit addresses to bytes. The string routines work on C strings seen from a pointer: the
  characters of the array from the pointed-to one on, where reading past the last one stands
  for the terminating NUL (a string of the model does not store it).
\<close>

type_synonym mem = "u64 \<Rightarrow> u8"

section \<open>Memory routines\<close>

fun memset :: "mem \<Rightarrow> u64 \<Rightarrow> u8 \<Rightarrow> nat \<Rightarrow> mem" where
  "memset m dst c 0 = m"
| "memset m dst c (Suc n) = memset (m(dst := c)) (dst + 1) c n"

fun memcmp :: "mem \<Rightarrow> u64 \<Rightarrow> u64 \<Rightarrow> nat \<Rightarrow> int" where
  "memcmp m s1 s2 0 = 0"
| "memcmp m s1 s2 (Suc n) =
     (if m s1 \<noteq> m s2 then uint (m s1) - uint (m s2) else memcmp m (s1 + 1) (s2 + 1) n)"

text \<open>The two loops of \<^verbatim>\<open>memmove\<close>: \<^verbatim>\<open>*--d = *--s\<close> and \<^verbatim>\<open>*d++ = *s++\<close>.\<close>

fun copy_down :: "mem \<Rightarrow> u64 \<Rightarrow> u64 \<Rightarrow> nat \<Rightarrow> mem" where
  "copy_down m d s 0 = m"
| "copy_down m d s (Suc n) = copy_down (m(d - 1 := m (s - 1))) (d - 1) (s - 1) n"

fun copy_up :: "mem \<Rightarrow> u64 \<Rightarrow> u64 \<Rightarrow> nat \<Rightarrow> mem" where
  "copy_up m d s 0 = m"
| "copy_up m d s (Suc n) = copy_up (m(d := m s)) (d + 1) (s + 1) n"

definition memmove :: "mem \<Rightarrow> u64 \<Rightarrow> u64 \<Rightarrow> nat \<Rightarrow> mem" where
  "memmove m dst src n =
     (if n = 0 then m
      else if src < dst \<and> src + of_nat n > dst
      then copy_down m (dst + of_nat n) (src + of_nat n) n
      else copy_up m dst src n)"

section \<open>String routines\<close>

definition NUL :: char where "NUL = CHR 0x00"

definition cs_hd :: "string \<Rightarrow> char" where
  "cs_hd p = (case p of [] \<Rightarrow> NUL | c # _ \<Rightarrow> c)"

fun strncmp :: "string \<Rightarrow> string \<Rightarrow> nat \<Rightarrow> int" where
  "strncmp p q 0 = 0"
| "strncmp p q (Suc n) =
     (if cs_hd p \<noteq> NUL \<and> cs_hd p = cs_hd q then strncmp (tl p) (tl q) n
      else of_char (cs_hd p) - of_char (cs_hd q))"

text \<open>\<^verbatim>\<open>strncpy\<close> and \<^verbatim>\<open>safestrcpy\<close> return the contents of the array \<open>s\<close> afterwards.\<close>

fun strncpy_pad :: "string \<Rightarrow> nat \<Rightarrow> string" where
  "strncpy_pad s 0 = s"
| "strncpy_pad s (Suc n) = NUL # strncpy_pad (tl s) n"

fun strncpy :: "string \<Rightarrow> string \<Rightarrow> nat \<Rightarrow> string" where
  "strncpy s t 0 = s"
| "strncpy s t (Suc n) =
     cs_hd t # (if cs_hd t \<noteq> NUL then strncpy (tl s) (tl t) n else strncpy_pad (tl s) n)"

fun safestrcpy :: "string \<Rightarrow> string \<Rightarrow> nat \<Rightarrow> string" where
  "safestrcpy s t 0 = s"
| "safestrcpy s t (Suc 0) = NUL # tl s"
| "safestrcpy s t (Suc (Suc n)) =
     (if cs_hd t \<noteq> NUL then cs_hd t # safestrcpy (tl s) (tl t) (Suc n)
      else NUL # NUL # tl (tl s))"

fun strlen :: "string \<Rightarrow> nat" where
  "strlen [] = 0"
| "strlen (c # s) = (if c = NUL then 0 else Suc (strlen s))"

text \<open>The string an array holds: its characters up to the first NUL.\<close>

definition cstr :: "string \<Rightarrow> string" where
  "cstr s = takeWhile (\<lambda>c. c \<noteq> NUL) s"

section \<open>The memory routines against their specification\<close>

lemma offset_step:
  "(a :: u64) \<noteq> d \<Longrightarrow> unat (a - (d + 1)) = unat (a - d) - 1 \<and> 0 < unat (a - d)"
  using unat_minus_one [of "a - d"] by (auto simp: unat_gt_0 algebra_simps)

lemma memset_eq:
  "n \<le> 2 ^ 64 \<Longrightarrow> memset m dst c n = (\<lambda>a. if unat (a - dst) < n then c else m a)"
proof (induction n arbitrary: m dst)
  case 0
  then show ?case by simp
next
  case (Suc n)
  show ?case
  proof
    fix a
    show "memset m dst c (Suc n) a = (if unat (a - dst) < Suc n then c else m a)"
      using Suc offset_step [of a dst] by (cases "a = dst") auto
  qed
qed

text \<open>What a block copy means: every byte of the destination is the source byte of before.\<close>

definition block_copy :: "mem \<Rightarrow> u64 \<Rightarrow> u64 \<Rightarrow> nat \<Rightarrow> mem" where
  "block_copy m d s n = (\<lambda>a. if unat (a - d) < n then m (s + (a - d)) else m a)"

lemma offset_last:
  "unat (a - d) < Suc n \<longleftrightarrow> unat (a - d) < n \<or> a = d + of_nat n" if "n < 2 ^ 64"
  for a d :: u64
proof
  assume "unat (a - d) < Suc n"
  then have "unat (a - d) < n \<or> unat (a - d) = n" by auto
  then show "unat (a - d) < n \<or> a = d + of_nat n"
    by (auto simp: algebra_simps)
next
  assume "unat (a - d) < n \<or> a = d + of_nat n"
  then show "unat (a - d) < Suc n" using that by (auto simp: unat_of_nat)
qed

lemma copy_up_eq:
  assumes "unat s + n \<le> 2 ^ 64" and "unat d + n \<le> 2 ^ 64"
    and "d \<le> s \<or> unat s + n \<le> unat d"
  shows "copy_up m d s n = block_copy m d s n"
  using assms
proof (induction n arbitrary: m d s)
  case 0
  then show ?case by (simp add: block_copy_def)
next
  case (Suc n)
  show ?case
  proof (cases "n = 0")
    case True
    then show ?thesis by (auto simp: block_copy_def unat_eq_0)
  next
    case False
    then have s1: "unat (s + 1) = unat s + 1" and d1: "unat (d + 1) = unat d + 1"
      using Suc.prems by (auto simp: unat_plus_if')
    have "copy_up m d s (Suc n) = block_copy (m(d := m s)) (d + 1) (s + 1) n"
      using Suc.prems s1 d1 by (auto intro!: Suc.IH simp: word_le_nat_alt)
    also have "\<dots> = block_copy m d s (Suc n)"
    proof
      fix a
      show "block_copy (m(d := m s)) (d + 1) (s + 1) n a = block_copy m d s (Suc n) a"
      proof (cases "a = d")
        case True
        then show ?thesis using Suc.prems by (auto simp: block_copy_def)
      next
        case ne: False
        have "s + (a - d) \<noteq> d" if k: "unat (a - d) < Suc n"
        proof
          assume eq: "s + (a - d) = d"
          have "unat (s + (a - d)) = unat s + unat (a - d)"
            using Suc.prems k by (simp add: unat_plus_if')
          then show False
            using eq k Suc.prems offset_step [OF ne] by (auto simp: word_le_nat_alt)
        qed
        then show ?thesis
          using ne offset_step [OF ne] by (auto simp: block_copy_def algebra_simps)
      qed
    qed
    finally show ?thesis .
  qed
qed

lemma copy_down_eq:
  assumes "unat s + n \<le> 2 ^ 64" and "unat d + n \<le> 2 ^ 64" and "s < d"
  shows "copy_down m (d + of_nat n) (s + of_nat n) n = block_copy m d s n"
  using assms
proof (induction n arbitrary: m)
  case 0
  then show ?case by (simp add: block_copy_def)
next
  case (Suc n)
  let ?m = "m(d + of_nat n := m (s + of_nat n))"
  have "copy_down m (d + of_nat (Suc n)) (s + of_nat (Suc n)) (Suc n)
      = copy_down ?m (d + of_nat n) (s + of_nat n) n"
    by (simp add: algebra_simps)
  also have "\<dots> = block_copy ?m d s n" using Suc by simp
  also have "\<dots> = block_copy m d s (Suc n)"
  proof
    fix a
    have n: "n < 2 ^ 64" using Suc.prems by simp
    have "s + (a - d) \<noteq> d + of_nat n" if k: "unat (a - d) < n"
    proof
      assume eq: "s + (a - d) = d + of_nat n"
      have "unat (s + (a - d)) = unat s + unat (a - d)"
        using Suc.prems k by (simp add: unat_plus_if')
      moreover have "unat (d + of_nat n) = unat d + n"
        using Suc.prems n by (simp add: unat_plus_if' unat_of_nat)
      ultimately show False using eq k Suc.prems(3) by (simp add: word_less_nat_alt)
    qed
    moreover have "d + of_nat n \<noteq> a \<Longrightarrow> unat (a - d) < Suc n \<longleftrightarrow> unat (a - d) < n"
      using offset_last [OF n] by auto
    ultimately show "block_copy ?m d s n a = block_copy m d s (Suc n) a"
      using offset_last [OF n, of a d] by (auto simp: block_copy_def unat_of_nat n)
  qed
  finally show ?case .
qed

theorem memmove_block_copy:
  assumes "unat src + n \<le> 2 ^ 64" and "unat dst + n \<le> 2 ^ 64"
  shows "memmove m dst src n = block_copy m dst src n"
proof (cases "n = 0")
  case True
  then show ?thesis by (simp add: memmove_def block_copy_def)
next
  case n: False
  show ?thesis
  proof (cases "src < dst \<and> unat src + n > unat dst")
    case True
    then have "copy_down m (dst + of_nat n) (src + of_nat n) n = block_copy m dst src n"
      using assms by (intro copy_down_eq) auto
    moreover have "src + of_nat n > dst"
    proof -
      have "unat src + n < 2 ^ 64" using True assms by (simp add: word_less_nat_alt)
      then have "unat (src + of_nat n) = unat src + n"
        by (simp add: unat_plus_if' unat_of_nat)
      then show ?thesis using True by (simp add: word_less_nat_alt)
    qed
    ultimately show ?thesis using True n by (simp add: memmove_def)
  next
    case False
    then have up: "copy_up m dst src n = block_copy m dst src n"
      using assms by (intro copy_up_eq) (auto simp: not_less)
    have "\<not> (src < dst \<and> src + of_nat n > dst)"
    proof
      assume c: "src < dst \<and> src + of_nat n > dst"
      then have "unat src + n \<le> unat dst" using False by simp
      moreover have "unat dst < 2 ^ 64" by (rule unat_u64_lt)
      ultimately have "unat src + n < 2 ^ 64" by simp
      then have "unat (src + of_nat n) = unat src + n"
        by (simp add: unat_plus_if' unat_of_nat)
      with \<open>unat src + n \<le> unat dst\<close> have "unat (src + of_nat n) \<le> unat dst" by simp
      then show False using c by (simp add: word_less_nat_alt)
    qed
    then show ?thesis using up n by (auto simp: memmove_def)
  qed
qed

section \<open>The string routines\<close>

lemma strlen_cstr: "strlen s = length (cstr s)"
  by (induction s) (auto simp: cstr_def)

lemma cs_hd_simps [simp]: "cs_hd [] = NUL" "cs_hd (c # s) = c"
  by (simp_all add: cs_hd_def)

lemma cs_hd_NUL_iff: "cs_hd p = NUL \<longleftrightarrow> cstr p = []"
  by (cases p) (auto simp: cstr_def)

lemma cstr_step: "cs_hd p \<noteq> NUL \<Longrightarrow> cstr p = cs_hd p # cstr (tl p)"
  by (cases p) (auto simp: cstr_def)

text \<open>
  \<^verbatim>\<open>strncmp(p, q, n) == 0\<close> exactly when the strings agree in their first \<open>n\<close> characters,
  the terminating NUL counted: they are equal, or both reach \<open>n\<close> and agree so far.
\<close>

lemma strncmp_0_iff:
  "strncmp p q n = 0 \<longleftrightarrow> take n (cstr p @ [NUL]) = take n (cstr q @ [NUL])"
proof (induction n arbitrary: p q)
  case 0
  then show ?case by simp
next
  case (Suc n)
  show ?case
  proof (cases "cs_hd p = NUL \<or> cs_hd q = NUL")
    case True
    have "take (Suc n) (cstr r @ [NUL]) = cs_hd r # take n (tl (cstr r @ [NUL]))" for r
      using cs_hd_NUL_iff [of r] by (cases "cs_hd r = NUL") (simp_all add: cstr_step)
    moreover have "cs_hd p = cs_hd q \<Longrightarrow> cstr p = [] \<and> cstr q = []"
      using True by (metis cs_hd_NUL_iff)
    moreover have "strncmp p q (Suc n) = 0 \<longleftrightarrow> cs_hd p = cs_hd q"
      using True by auto
    ultimately show ?thesis by auto
  next
    case False
    then show ?thesis using Suc.IH [of "tl p" "tl q"] by (simp add: cstr_step)
  qed
qed

declare strncmp.simps(2) [simp del]

lemma strncmp_prefix:
  assumes "NUL \<notin> set lit"
  shows "strncmp p lit (length lit) = 0 \<longleftrightarrow> take (length lit) (cstr p) = lit"
proof -
  have c: "cstr lit = lit" using assms by (auto simp: cstr_def)
  show ?thesis
  proof (cases "length lit \<le> length (cstr p)")
    case True
    then show ?thesis by (simp add: strncmp_0_iff c)
  next
    case False
    then have "NUL \<in> set (take (length lit) (cstr p @ [NUL]))" by simp
    moreover have "take (length lit) (cstr p) \<noteq> lit" using False by (auto dest: arg_cong [where f = length])
    moreover have "take (length lit) (lit @ [NUL]) = lit" by simp
    ultimately show ?thesis using assms by (metis strncmp_0_iff c)
  qed
qed

lemma strncmp_equal:
  assumes "NUL \<notin> set lit"
  shows "strncmp p lit (Suc (length lit)) = 0 \<longleftrightarrow> cstr p = lit"
proof -
  have c: "cstr lit = lit" using assms by (auto simp: cstr_def)
  have nul: "NUL \<notin> set (cstr p)" by (auto simp: cstr_def dest: set_takeWhileD)
  have "cstr p = lit" if t: "take (Suc (length lit)) (cstr p @ [NUL]) = lit @ [NUL]"
  proof (cases "length (cstr p) \<le> length lit")
    case True
    then show ?thesis using t by simp
  next
    case False
    then have "take (Suc (length lit)) (cstr p) = lit @ [NUL]" using t by simp
    then have "NUL \<in> set (take (Suc (length lit)) (cstr p))" by simp
    then show ?thesis using nul in_set_takeD by fastforce
  qed
  then show ?thesis by (auto simp: strncmp_0_iff c)
qed

lemma safestrcpy_cstr: "0 < n \<Longrightarrow> cstr (safestrcpy s t n) = take (n - 1) (cstr t)"
proof (induction s t n rule: safestrcpy.induct)
  case (3 s t n)
  show ?case
  proof (cases "cs_hd t = NUL")
    case True
    then have "cstr t = []" by (simp add: cs_hd_NUL_iff)
    then show ?thesis using True by (simp add: cstr_def)
  next
    case False
    then have "cstr (cs_hd t # safestrcpy (tl s) (tl t) (Suc n)) = cs_hd t # take n (cstr (tl t))"
      using 3 by (simp add: cstr_def)
    then show ?thesis using False by (simp add: cstr_step)
  qed
qed (auto simp: cstr_def)

lemma cstr_id: "NUL \<notin> set p \<Longrightarrow> cstr p = p"
  by (auto simp: cstr_def)

lemma b2c_c2b [simp]: "b2c (c2b c) = c"
  by (simp add: b2c_def c2b_def unat_of_nat)

lemma b2c_NUL_iff: "b2c w = NUL \<longleftrightarrow> w = 0"
proof
  assume "b2c w = NUL"
  then have "(of_char (char_of (unat w) :: char) :: nat) = of_char (CHR 0x00)"
    by (simp add: b2c_def NUL_def)
  then have "unat w mod 256 = 0" by simp
  moreover have "unat w < 256" using unsigned_less [where ?'a = nat and w = w] by simp
  ultimately show "w = 0" by (simp add: unat_eq_0)
next
  assume "w = 0"
  then show "b2c w = NUL" by (simp add: b2c_def NUL_def char_of_def)
qed

lemma c2b_eq_0_iff: "c2b c = 0 \<longleftrightarrow> c = NUL"
  using b2c_NUL_iff [of "c2b c"] by simp

lemma length_strncpy_pad: "length (strncpy_pad s n) = max n (length s)"
  by (induction s n rule: strncpy_pad.induct) (auto simp: max_def)

lemma length_strncpy: "length (strncpy s t n) = max n (length s)"
  by (induction s t n rule: strncpy.induct) (auto simp: max_def length_strncpy_pad)

end
