(* ===== verification/Bytes.thy ===== *)
theory Bytes
  imports Kstring
begin

text \<open>
  How C objects lie in memory and on disk: little-endian words as byte lists, byte blocks and
  64-bit words in byte-addressed memory, and the facts that writes to different words, blocks
  or pages do not interfere.
\<close>

section \<open>Little-endian words\<close>

fun le_dec :: "u8 list \<Rightarrow> 'a::len word" where
  "le_dec [] = 0"
| "le_dec (b # bs) = ucast b OR push_bit 8 (le_dec bs)"

fun le_enc :: "nat \<Rightarrow> 'a::len word \<Rightarrow> u8 list" where
  "le_enc 0 v = []"
| "le_enc (Suc n) v = ucast v # le_enc n (drop_bit 8 v)"

lemma length_le_enc [simp]: "length (le_enc n v) = n"
  by (induction n arbitrary: v) auto

lemma bit_le_dec:
  "bit (le_dec bs :: 'a::len word) k \<longleftrightarrow>
     k < LENGTH('a) \<and> k < 8 * length bs \<and> bit (bs ! (k div 8)) (k mod 8)"
proof (induction bs arbitrary: k)
  case Nil
  then show ?case by simp
next
  case (Cons b bs)
  show ?case
  proof (cases "k < 8")
    case True
    then show ?thesis by (auto simp: bit_simps)
  next
    case False
    then have "k div 8 = Suc ((k - 8) div 8)" and "k mod 8 = (k - 8) mod 8"
      by (simp_all add: le_div_geq le_mod_geq)
    moreover have "\<not> bit b k" using False bit_imp_le_length [of b k] by auto
    ultimately show ?thesis using False Cons.IH [of "k - 8"]
      by (auto simp: bit_simps)
  qed
qed

lemma nth_le_enc: "i < n \<Longrightarrow> le_enc n v ! i = ucast (drop_bit (8 * i) v)"
proof (induction n arbitrary: v i)
  case (Suc n)
  then show ?case by (cases i) (auto simp: algebra_simps)
qed simp

lemma le_dec_enc:
  assumes "8 * n \<le> LENGTH('a)"
  shows "le_dec (le_enc n (v :: 'a::len word)) = take_bit (8 * n) v"
proof (rule bit_eqI)
  fix k
  show "bit (le_dec (le_enc n v) :: 'a word) k = bit (take_bit (8 * n) v) k"
  proof (cases "k < 8 * n")
    case True
    then have "k div 8 < n" by (simp add: div_less_iff_less_mult mult.commute)
    moreover have "8 * (k div 8) + k mod 8 = k" by simp
    ultimately show ?thesis using True assms
      by (auto simp: bit_le_dec nth_le_enc bit_simps)
  next
    case False
    then show ?thesis by (simp add: bit_le_dec bit_simps)
  qed
qed

lemma le_enc_dec:
  assumes "8 * length bs \<le> LENGTH('a)"
  shows "le_enc (length bs) (le_dec bs :: 'a::len word) = bs"
proof (rule nth_equalityI)
  fix i assume "i < length (le_enc (length bs) (le_dec bs :: 'a word))"
  then have i: "i < length bs" by simp
  show "le_enc (length bs) (le_dec bs :: 'a word) ! i = bs ! i"
  proof (rule bit_eqI)
    fix k assume "possible_bit TYPE(8 word) k"
    then have k: "k < 8" by simp
    have "8 * i + k < 8 * length bs" using i k by simp
    moreover have "(8 * i + k) div 8 = i" "(8 * i + k) mod 8 = k" using k by simp_all
    ultimately show "bit (le_enc (length bs) (le_dec bs :: 'a word) ! i) k = bit (bs ! i) k"
      using i k assms by (simp add: nth_le_enc bit_simps bit_le_dec)
  qed
qed simp

section \<open>Blocks of bytes in memory\<close>

definition rd_bytes :: "mem \<Rightarrow> u64 \<Rightarrow> nat \<Rightarrow> u8 list" where
  "rd_bytes m a n = map (\<lambda>i. m (a + of_nat i)) [0..<n]"

fun wr_bytes :: "mem \<Rightarrow> u64 \<Rightarrow> u8 list \<Rightarrow> mem" where
  "wr_bytes m a [] = m"
| "wr_bytes m a (b # bs) = wr_bytes (m(a := b)) (a + 1) bs"

lemma length_rd_bytes [simp]: "length (rd_bytes m a n) = n"
  by (simp add: rd_bytes_def)

lemma nth_rd_bytes [simp]: "i < n \<Longrightarrow> rd_bytes m a n ! i = m (a + of_nat i)"
  by (simp add: rd_bytes_def)

lemma wr_bytes_eq:
  "length bs \<le> 2 ^ 64 \<Longrightarrow>
     wr_bytes m a bs = (\<lambda>x. if unat (x - a) < length bs then bs ! unat (x - a) else m x)"
proof (induction bs arbitrary: m a)
  case Nil
  then show ?case by simp
next
  case (Cons b bs)
  show ?case
  proof
    fix x
    show "wr_bytes m a (b # bs) x =
        (if unat (x - a) < length (b # bs) then (b # bs) ! unat (x - a) else m x)"
      using Cons offset_step [of x a] by (cases "x = a") (auto simp: nth_Cons')
  qed
qed

lemma rd_wr_bytes_same: "length bs \<le> 2 ^ 64 \<Longrightarrow> rd_bytes (wr_bytes m a bs) a (length bs) = bs"
  by (rule nth_equalityI) (auto simp: wr_bytes_eq unat_of_nat)

lemma rd_bytes_cong: "(\<And>i. i < n \<Longrightarrow> m' (a + of_nat i) = m (a + of_nat i)) \<Longrightarrow> rd_bytes m' a n = rd_bytes m a n"
  by (simp add: rd_bytes_def)

section \<open>64-bit words in memory\<close>

definition ld64 :: "mem \<Rightarrow> u64 \<Rightarrow> u64" where
  "ld64 m a = le_dec (rd_bytes m a 8)"

definition st64 :: "mem \<Rightarrow> u64 \<Rightarrow> u64 \<Rightarrow> mem" where
  "st64 m a v = wr_bytes m a (le_enc 8 v)"

definition aligned8 :: "u64 \<Rightarrow> bool" where
  "aligned8 a \<longleftrightarrow> unat a mod 8 = 0"

lemma aligned8E: "aligned8 a \<Longrightarrow> (\<And>q. unat a = 8 * q \<Longrightarrow> P) \<Longrightarrow> P"
  by (auto simp: aligned8_def mod_eq_0_iff_dvd dvd_def)

lemma page_alignedE: "page_aligned a \<Longrightarrow> (\<And>q. unat a = 4096 * q \<Longrightarrow> P) \<Longrightarrow> P"
  by (auto simp: page_aligned_unat mod_eq_0_iff_dvd dvd_def)

lemma ld64_st64_same [simp]: "ld64 (st64 m a v) a = v"
  using rd_wr_bytes_same [of "le_enc 8 v" m a] le_dec_enc [where n = 8 and v = v]
  by (simp add: ld64_def st64_def take_bit_word_eq_self)

lemma ld64_cong: "(\<And>i. i < 8 \<Longrightarrow> m' (a + of_nat i) = m (a + of_nat i)) \<Longrightarrow> ld64 m' a = ld64 m a"
  unfolding ld64_def by (metis rd_bytes_cong)

lemma st64_other: "8 \<le> unat (x - a) \<Longrightarrow> st64 m a v x = m x"
  by (simp add: st64_def wr_bytes_eq)

lemma aligned8_disjoint:
  assumes "aligned8 a" "aligned8 b" "a \<noteq> b" "i < 8"
  shows "8 \<le> unat (b + of_nat i - a)"
proof (rule ccontr)
  assume "\<not> 8 \<le> unat (b + of_nat i - a)"
  then obtain j where j: "j < 8" "b + of_nat i = a + of_nat j"
    by (metis add.commute diff_add_cancel not_le of_nat_unat ucast_id)
  have wrap: "unat c + k < 2 ^ 64" if c: "aligned8 c" and k: "k < 8" for c :: u64 and k
  proof -
    obtain q where q: "unat c = 8 * q" using c by (rule aligned8E)
    have "unat c < 2 ^ 64" by (rule unat_u64_lt)
    then show ?thesis using q k by simp
  qed
  have "unat (b + of_nat i) = unat b + i" and "unat (a + of_nat j) = unat a + j"
    using wrap [OF assms(2,4)] wrap [OF assms(1) j(1)] by (simp_all only: unat_add_of_nat)
  then have "unat b + i = unat a + j" using j by simp
  moreover obtain q r where "unat a = 8 * q" "unat b = 8 * r"
    using assms(1,2) by (auto elim!: aligned8E)
  ultimately have "unat b = unat a" using assms(4) j(1) by presburger
  then show False using assms(3) by (simp add: word_unat_eq_iff)
qed

lemma ld64_st64_other:
  assumes "aligned8 a" "aligned8 b" "a \<noteq> b"
  shows "ld64 (st64 m a v) b = ld64 m b"
  using assms by (intro ld64_cong st64_other aligned8_disjoint)

section \<open>Pages\<close>

lemma page_aligned_max: "page_aligned p \<Longrightarrow> unat p + 4096 \<le> 2 ^ 64"
proof -
  assume "page_aligned p"
  then obtain q where "unat p = 4096 * q" by (rule page_alignedE)
  moreover have "unat p < 2 ^ 64" by (rule unat_u64_lt)
  ultimately show ?thesis by simp
qed

lemma unat_page_offset:
  "page_aligned p \<Longrightarrow> unat off < 4096 \<Longrightarrow> unat (p + off) = unat p + unat off"
  using page_aligned_max [of p] by (simp add: unat_plus_if')

lemma PGROUNDDOWN_offset:
  "page_aligned p \<Longrightarrow> unat off < 4096 \<Longrightarrow> PGROUNDDOWN (p + off) = p"
  by (rule word_unat_eq_iff [THEN iffD2])
    (auto simp: unat_PGROUNDDOWN unat_page_offset page_aligned_unat mod_add_eq [symmetric])

lemma PGROUNDDOWN_dist: "unat (a - PGROUNDDOWN a) < 4096"
proof -
  have "a - PGROUNDDOWN a = a AND 4095" using PGROUNDDOWN_split [of a] by (metis add_diff_cancel_left')
  then show ?thesis using word_and_le1 [of a 4095] by (simp add: word_le_nat_alt)
qed

lemma PGROUNDDOWN_iff: "page_aligned p \<Longrightarrow> PGROUNDDOWN a = p \<longleftrightarrow> unat (a - p) < 4096"
  using PGROUNDDOWN_offset [of p "a - p"] PGROUNDDOWN_dist [of a] by auto

text \<open>Two memories agree on the page \<open>p\<close>.\<close>

definition same_page :: "mem \<Rightarrow> mem \<Rightarrow> u64 \<Rightarrow> bool" where
  "same_page m m' p \<longleftrightarrow> (\<forall>a. PGROUNDDOWN a = p \<longrightarrow> m' a = m a)"

lemma same_page_refl [simp]: "same_page m m p"
  by (simp add: same_page_def)

lemma same_page_trans: "same_page m m' p \<Longrightarrow> same_page m' m'' p \<Longrightarrow> same_page m m'' p"
  by (simp add: same_page_def)

lemma aligned8_page:
  assumes "aligned8 a" "i < 8"
  shows "PGROUNDDOWN (a + of_nat i) = PGROUNDDOWN a"
proof -
  have "unat (a AND 4095) = unat a mod 4096" by (simp add: mask12 unat_and_mask)
  then have m8: "unat (a AND 4095) mod 8 = 0" using assms by (simp add: aligned8_def mod_mod_cancel)
  moreover have "unat (a AND 4095) < 4096" by (simp add: mask12 unat_and_mask)
  moreover obtain q where "unat (a AND 4095) = 8 * q" using m8 by (auto simp: mod_eq_0_iff_dvd dvd_def)
  ultimately have lt: "unat (a AND 4095) + i < 4096" using assms(2) by simp
  then have "unat ((a AND 4095) + of_nat i) < 4096" by (simp add: unat_plus_if' unat_of_nat)
  then have "PGROUNDDOWN (PGROUNDDOWN a + ((a AND 4095) + of_nat i)) = PGROUNDDOWN a"
    by (rule PGROUNDDOWN_offset [OF PGROUNDDOWN_aligned])
  then show ?thesis using PGROUNDDOWN_split [of a] by (metis add.assoc)
qed

lemma ld64_same_page: "aligned8 a \<Longrightarrow> same_page m m' (PGROUNDDOWN a) \<Longrightarrow> ld64 m' a = ld64 m a"
  by (rule ld64_cong) (simp add: same_page_def aligned8_page)

lemma st64_same_page:
  assumes "aligned8 a" "PGROUNDDOWN a \<noteq> p"
  shows "same_page m (st64 m a v) p"
  unfolding same_page_def
proof (intro allI impI st64_other)
  fix x assume x: "PGROUNDDOWN x = p"
  show "8 \<le> unat (x - a)"
  proof (rule ccontr)
    assume "\<not> 8 \<le> unat (x - a)"
    then have "PGROUNDDOWN (a + of_nat (unat (x - a))) = PGROUNDDOWN a"
      using aligned8_page [OF assms(1), of "unat (x - a)"] by simp
    then show False using x assms(2) by simp
  qed
qed

lemma memset_page: "page_aligned p \<Longrightarrow> memset m p c 4096 = (\<lambda>a. if PGROUNDDOWN a = p then c else m a)"
  by (simp add: memset_eq PGROUNDDOWN_iff)

lemma memset_same_page: "page_aligned p \<Longrightarrow> p \<noteq> q \<Longrightarrow> same_page m (memset m p c 4096) q"
  by (auto simp: memset_page same_page_def)

lemma page_aligned_aligned8: "page_aligned p \<Longrightarrow> aligned8 p"
  by (erule page_alignedE) (simp add: aligned8_def mod_eq_0_iff_dvd)

lemma ld64_memset0: "page_aligned p \<Longrightarrow> aligned8 a \<Longrightarrow> PGROUNDDOWN a = p \<Longrightarrow> ld64 (memset m p 0 4096) a = 0"
proof -
  assume p: "page_aligned p" and a: "aligned8 a" "PGROUNDDOWN a = p"
  have "rd_bytes (memset m p 0 4096) a 8 = replicate 8 0"
    by (rule nth_equalityI) (auto simp: memset_page [OF p] aligned8_page a)
  moreover have "(le_dec (replicate k 0) :: u64) = 0" for k by (induction k) auto
  ultimately show ?thesis by (simp add: ld64_def)
qed

end
