(* ===== verification/Kalloc.thy ===== *)
theory Kalloc
  imports Bytes
begin

text \<open>
  \<^verbatim>\<open>kernel/kalloc.c\<close>: the physical page allocator. Its state is physical memory and the head
  of the free list; as in the code, the list runs through the free pages themselves, each
  holding the address of the next in its first eight bytes. \<^verbatim>\<open>end\<close>, the first address after
  the kernel image, is set by the linker script and is a field of the state. The critical
  sections under \<^verbatim>\<open>kmem.lock\<close> are atomic here.
\<close>

record kmem =
  k_end :: u64
  k_mem :: mem
  k_free :: u64

section \<open>Operations\<close>

definition kfree :: "u64 \<Rightarrow> ('a kmem_scheme, unit) routine" where
  "kfree pa =
     bnd (gets k_end) (\<lambda>kend.
     andthen (panic_if (pa mod PGSIZE \<noteq> 0 \<or> pa < kend \<or> pa \<ge> PHYSTOP) ''kfree'')
    (andthen (modify (\<lambda>s. s\<lparr>k_mem := memset (k_mem s) pa 1 4096\<rparr>))
    (andthen (modify (\<lambda>s. s\<lparr>k_mem := st64 (k_mem s) pa (k_free s)\<rparr>))
             (modify (\<lambda>s. s\<lparr>k_free := pa\<rparr>)))))"

definition kalloc :: "('a kmem_scheme, u64) routine" where
  "kalloc =
     bnd (gets k_free) (\<lambda>r.
     andthen (whenM (r \<noteq> 0) (modify (\<lambda>s. s\<lparr>k_free := ld64 (k_mem s) r\<rparr>)))
    (andthen (whenM (r \<noteq> 0) (modify (\<lambda>s. s\<lparr>k_mem := memset (k_mem s) r 5 4096\<rparr>)))
             (ret r)))"

text \<open>
  The loop of \<^verbatim>\<open>freerange\<close>. It ends because a page that \<^verbatim>\<open>kfree\<close> accepts lies below
  \<^const>\<open>PHYSTOP\<close>, so the cursor never wraps around.
\<close>

lemma kfree_result:
  "kfree pa s = (if pa mod PGSIZE \<noteq> 0 \<or> pa < k_end s \<or> pa \<ge> PHYSTOP then Inl (Panic ''kfree'')
     else Inr ((), s\<lparr>k_mem := st64 (memset (k_mem s) pa 1 4096) pa (k_free s), k_free := pa\<rparr>))"
  by (simp add: kfree_def bnd_def andthen_def gets_def panic_if_def panic_def skip_def ret_def modify_def)

lemma kalloc_result:
  "kalloc s = (if k_free s = 0 then Inr (0, s)
     else Inr (k_free s, s\<lparr>k_free := ld64 (k_mem s) (k_free s),
                           k_mem := memset (k_mem s) (k_free s) 5 4096\<rparr>))"
  by (simp add: kalloc_def bnd_def andthen_def gets_def whenM_def skip_def ret_def modify_def)

lemma kfree_below: "kfree p s = Inr (u, t) \<Longrightarrow> p < PHYSTOP"
  by (simp add: kfree_result not_le split: if_splits)

lemma below_PHYSTOP_step: "p < PHYSTOP \<Longrightarrow> unat (p + PGSIZE) = unat p + 4096"
  by (simp add: layout_defs word_less_nat_alt unat_plus_if')

function freerange_loop :: "u64 \<Rightarrow> u64 \<Rightarrow> ('a kmem_scheme, unit) routine" where
  "freerange_loop p pa_end s =
     (if p + PGSIZE \<le> pa_end then
        (case kfree p s of
           Inl e \<Rightarrow> Inl e
         | Inr (u, t) \<Rightarrow> freerange_loop (p + PGSIZE) pa_end t)
      else Inr ((), s))"
  by pat_completeness auto
termination
proof (relation "measure (\<lambda>(p, pa_end, s). 2 ^ 64 - unat p)", goal_cases)
  case (2 p pa_end s b x y)
  then have "p < PHYSTOP" by (auto dest: kfree_below)
  then show ?case using below_PHYSTOP_step [of p] unat_u64_lt [of "p + PGSIZE"] by simp
qed simp

declare freerange_loop.simps [simp del]

definition freerange :: "u64 \<Rightarrow> u64 \<Rightarrow> ('a kmem_scheme, unit) routine" where
  "freerange pa_start pa_end = freerange_loop (PGROUNDUP pa_start) pa_end"

definition kinit :: "('a kmem_scheme, unit) routine" where
  "kinit = bnd (gets k_end) (\<lambda>kend. freerange kend PHYSTOP)"

section \<open>The free list as a set of pages\<close>

fun free_chain :: "mem \<Rightarrow> u64 \<Rightarrow> u64 list \<Rightarrow> bool" where
  "free_chain m h [] \<longleftrightarrow> h = 0"
| "free_chain m h (x # xs) \<longleftrightarrow> h = x \<and> x \<noteq> 0 \<and> free_chain m (ld64 m x) xs"

definition phys_page :: "'a kmem_scheme \<Rightarrow> u64 \<Rightarrow> bool" where
  "phys_page s p \<longleftrightarrow> page_aligned p \<and> p \<noteq> 0 \<and> k_end s \<le> p \<and> p < PHYSTOP"

text \<open>
  \<open>kmem_inv s F\<close>: the free list is a well-formed list without repetition, and \<open>F\<close> is the
  set of pages on it.
\<close>

definition kmem_inv :: "'a kmem_scheme \<Rightarrow> u64 set \<Rightarrow> bool" where
  "kmem_inv s F \<longleftrightarrow> (\<exists>xs. free_chain (k_mem s) (k_free s) xs \<and> distinct xs \<and> set xs = F
     \<and> (\<forall>p\<in>F. phys_page s p)) \<and> k_end s \<noteq> 0"

lemma PGSIZE_mod: "p mod PGSIZE = 0 \<longleftrightarrow> page_aligned p"
proof -
  have "unat (p mod PGSIZE) = unat p mod 4096" by (simp add: PGSIZE_def unat_mod)
  then show ?thesis by (simp add: page_aligned_unat word_unat_eq_iff)
qed

lemma free_chain_frame:
  assumes "\<And>x. x \<in> set xs \<Longrightarrow> same_page m m' x" and "\<And>x. x \<in> set xs \<Longrightarrow> page_aligned x"
  shows "free_chain m' h xs = free_chain m h xs"
  using assms
proof (induction xs arbitrary: h)
  case (Cons x xs)
  have "ld64 m' x = ld64 m x"
    using Cons.prems by (intro ld64_same_page) (auto simp: page_aligned_aligned8 PGROUNDDOWN_id)
  then show ?case using Cons by simp
qed simp

text \<open>Writes that stay off the free pages keep the allocator's state.\<close>

lemma kmem_inv_frame:
  assumes "kmem_inv s F" and "k_end t = k_end s" and "k_free t = k_free s"
    and "\<And>p. p \<in> F \<Longrightarrow> same_page (k_mem s) (k_mem t) p"
  shows "kmem_inv t F"
proof -
  obtain xs where xs: "free_chain (k_mem s) (k_free s) xs" "distinct xs" "set xs = F"
      and pg: "\<forall>p\<in>F. phys_page s p" and e: "k_end s \<noteq> 0"
    using assms(1) by (auto simp: kmem_inv_def)
  have "free_chain (k_mem t) (k_free s) xs = free_chain (k_mem s) (k_free s) xs"
    using assms(4) pg xs(3) by (intro free_chain_frame) (auto simp: phys_page_def)
  then show ?thesis using xs pg e assms(2,3) by (auto simp: kmem_inv_def phys_page_def)
qed

lemma kmem_inv_pages: "kmem_inv s F \<Longrightarrow> p \<in> F \<Longrightarrow> phys_page s p"
  by (auto simp: kmem_inv_def)

lemma kmem_inv_finite: "kmem_inv s F \<Longrightarrow> finite F"
  by (auto simp: kmem_inv_def)

section \<open>Allocation and freeing\<close>

lemma kalloc_empty: "kmem_inv s {} \<Longrightarrow> kalloc s = Inr (0, s)"
  by (auto simp: kmem_inv_def kalloc_result)

lemma kalloc_some:
  assumes inv: "kmem_inv s F" and "F \<noteq> {}"
  obtains p t where "kalloc s = Inr (p, t)" "p \<in> F" "kmem_inv t (F - {p})"
    "t = s\<lparr>k_free := ld64 (k_mem s) p, k_mem := memset (k_mem s) p 5 4096\<rparr>"
proof -
  obtain xs where xs: "free_chain (k_mem s) (k_free s) xs" "distinct xs" "set xs = F"
      and pg: "\<forall>p\<in>F. phys_page s p" and e: "k_end s \<noteq> 0"
    using inv by (auto simp: kmem_inv_def)
  then obtain p ys where ys: "xs = p # ys" using assms(2) by (cases xs) auto
  then have p: "k_free s = p" "p \<noteq> 0" "page_aligned p" using xs pg by (auto simp: phys_page_def)
  let ?t = "s\<lparr>k_free := ld64 (k_mem s) p, k_mem := memset (k_mem s) p 5 4096\<rparr>"
  have "free_chain (k_mem ?t) (ld64 (k_mem s) p) ys = free_chain (k_mem s) (ld64 (k_mem s) p) ys"
    using xs ys pg p by (intro free_chain_frame) (auto simp: phys_page_def intro!: memset_same_page)
  then have "kmem_inv ?t (F - {p})"
    using xs ys pg e by (auto simp: kmem_inv_def phys_page_def intro!: exI [of _ ys])
  moreover have "kalloc s = Inr (p, ?t)" using p by (simp add: kalloc_result)
  ultimately show thesis using that [of p ?t] xs(3) ys by auto
qed

lemma kfree_ok:
  assumes inv: "kmem_inv s F" and p: "phys_page s p" "p \<notin> F"
  obtains t where "kfree p s = Inr ((), t)" "kmem_inv t (insert p F)"
    "t = s\<lparr>k_mem := st64 (memset (k_mem s) p 1 4096) p (k_free s), k_free := p\<rparr>"
proof -
  obtain xs where xs: "free_chain (k_mem s) (k_free s) xs" "distinct xs" "set xs = F"
      and pg: "\<forall>p\<in>F. phys_page s p" and e: "k_end s \<noteq> 0"
    using inv by (auto simp: kmem_inv_def)
  let ?m = "st64 (memset (k_mem s) p 1 4096) p (k_free s)"
  have al: "page_aligned p" "aligned8 p" "PGROUNDDOWN p = p"
    using p by (auto simp: phys_page_def page_aligned_aligned8 PGROUNDDOWN_id)
  have "same_page (k_mem s) ?m q" if "q \<in> F" for q
    using that p(2) al
    by (intro same_page_trans [OF memset_same_page st64_same_page]) auto
  then have "free_chain ?m (k_free s) xs = free_chain (k_mem s) (k_free s) xs"
    using xs pg by (intro free_chain_frame) (auto simp: phys_page_def)
  then have "free_chain ?m p (p # xs)" using xs p by (simp add: phys_page_def)
  then have "kmem_inv (s\<lparr>k_mem := ?m, k_free := p\<rparr>) (insert p F)"
    using xs pg e p by (auto simp: kmem_inv_def phys_page_def intro!: exI [of _ "p # xs"])
  moreover have "kfree p s = Inr ((), s\<lparr>k_mem := ?m, k_free := p\<rparr>)"
    using p by (auto simp: kfree_result PGSIZE_mod phys_page_def)
  ultimately show thesis using that by blast
qed

section \<open>The allocator's contract\<close>

text \<open>
  What the rest of the kernel relies on: allocation takes a page out of the free set, fails
  with 0 exactly when the set is empty, and freeing a page that is not free puts it back.
\<close>

locale page_allocator =
  fixes alloc :: "'s \<Rightarrow> 'e + u64 \<times> 's"
    and dealloc :: "u64 \<Rightarrow> 's \<Rightarrow> 'e + unit \<times> 's"
    and avail :: "'s \<Rightarrow> u64 set \<Rightarrow> bool"
    and usable :: "'s \<Rightarrow> u64 \<Rightarrow> bool"
  assumes avail_finite: "avail s F \<Longrightarrow> finite F"
    and avail_usable: "avail s F \<Longrightarrow> p \<in> F \<Longrightarrow> usable s p \<and> p \<noteq> 0"
    and alloc_none: "avail s {} \<Longrightarrow> alloc s = Inr (0, s)"
    and alloc_some: "avail s F \<Longrightarrow> F \<noteq> {} \<Longrightarrow>
      \<exists>p t. alloc s = Inr (p, t) \<and> p \<in> F \<and> avail t (F - {p}) \<and> usable t = usable s"
    and dealloc_ok: "avail s F \<Longrightarrow> usable s p \<Longrightarrow> p \<notin> F \<Longrightarrow>
      \<exists>t. dealloc p s = Inr ((), t) \<and> avail t (insert p F) \<and> usable t = usable s"
begin

text \<open>Allocating \<open>n\<close> pages, one after the other.\<close>

fun alloc_n :: "nat \<Rightarrow> 's \<Rightarrow> 'e + u64 list \<times> 's" where
  "alloc_n 0 s = Inr ([], s)"
| "alloc_n (Suc n) s = (case alloc s of Inl e \<Rightarrow> Inl e
     | Inr (p, t) \<Rightarrow> (case alloc_n n t of Inl e \<Rightarrow> Inl e | Inr (ps, u) \<Rightarrow> Inr (p # ps, u)))"

lemma alloc_n_fresh:
  "avail s F \<Longrightarrow> n \<le> card F \<Longrightarrow>
     \<exists>ps t. alloc_n n s = Inr (ps, t) \<and> length ps = n \<and> distinct ps \<and> set ps \<subseteq> F
       \<and> avail t (F - set ps)"
proof (induction n arbitrary: s F)
  case (Suc n)
  then have "F \<noteq> {}" by auto
  then obtain p t where p: "alloc s = Inr (p, t)" "p \<in> F" "avail t (F - {p})"
    using alloc_some Suc.prems(1) by blast
  have "n \<le> card (F - {p})" using Suc.prems p(2) avail_finite by simp
  then obtain ps u where ps: "alloc_n n t = Inr (ps, u)" "length ps = n" "distinct ps"
      "set ps \<subseteq> F - {p}" "avail u (F - {p} - set ps)"
    using Suc.IH p(3) by blast
  moreover have "F - {p} - set ps = F - set (p # ps)" by auto
  ultimately show ?case using p by auto
qed simp

lemma alloc_n_exhausts:
  assumes "avail s F"
  shows "\<exists>ps t. alloc_n (card F) s = Inr (ps, t) \<and> set ps = F \<and> alloc t = Inr (0, t)"
proof -
  obtain ps t where ps: "alloc_n (card F) s = Inr (ps, t)" "length ps = card F" "distinct ps"
      "set ps \<subseteq> F" "avail t (F - set ps)"
    using alloc_n_fresh [OF assms] by blast
  then have "set ps = F"
    using avail_finite [OF assms] by (intro card_subset_eq) (auto simp: distinct_card)
  then show ?thesis using ps alloc_none by auto
qed

lemma alloc_dealloc:
  assumes "avail s F" "F \<noteq> {}"
  shows "\<exists>p t u. alloc s = Inr (p, t) \<and> dealloc p t = Inr ((), u) \<and> avail u F"
proof -
  obtain p t where p: "alloc s = Inr (p, t)" "p \<in> F" "avail t (F - {p})" "usable t = usable s"
    using alloc_some [OF assms] by blast
  then have "usable t p" using avail_usable assms(1) by metis
  then obtain u where "dealloc p t = Inr ((), u)" "avail u (insert p (F - {p}))"
    using dealloc_ok [OF p(3), of p] by auto
  then show ?thesis using p insert_Diff by metis
qed

end

interpretation km: page_allocator
  "kalloc :: 'a kmem_scheme \<Rightarrow> 'a kmem_scheme stop + u64 \<times> 'a kmem_scheme"
  kfree kmem_inv phys_page
proof unfold_locales
  fix s :: "'a kmem_scheme" and F
  assume inv: "kmem_inv s F" and "F \<noteq> {}"
  obtain p t where "kalloc s = Inr (p, t)" "p \<in> F" "kmem_inv t (F - {p})"
    "t = s\<lparr>k_free := ld64 (k_mem s) p, k_mem := memset (k_mem s) p 5 4096\<rparr>"
    using kalloc_some [OF inv \<open>F \<noteq> {}\<close>] .
  then show "\<exists>p t. kalloc s = Inr (p, t) \<and> p \<in> F \<and> kmem_inv t (F - {p}) \<and> phys_page t = phys_page s"
    by (intro exI [of _ p] exI [of _ t]) (simp add: phys_page_def fun_eq_iff)
next
  fix s :: "'a kmem_scheme" and F p
  assume a: "kmem_inv s F" "phys_page s p" "p \<notin> F"
  obtain t where "kfree p s = Inr ((), t)" "kmem_inv t (insert p F)"
    "t = s\<lparr>k_mem := st64 (memset (k_mem s) p 1 4096) p (k_free s), k_free := p\<rparr>"
    using kfree_ok [OF a] .
  then show "\<exists>t. kfree p s = Inr ((), t) \<and> kmem_inv t (insert p F) \<and> phys_page t = phys_page s"
    by (auto simp: phys_page_def fun_eq_iff)
qed (auto simp: kmem_inv_finite kalloc_empty dest: kmem_inv_pages simp: phys_page_def)

section \<open>Initialisation\<close>

lemma freerange_loop_inv:
  assumes "kmem_inv s F" "page_aligned p" "p \<noteq> 0" "k_end s \<le> p" "e \<le> PHYSTOP" "p \<le> e"
    and "\<forall>q\<in>F. q < p"
  shows "\<exists>t. freerange_loop p e s = Inr ((), t) \<and>
     kmem_inv t (F \<union> {q. page_aligned q \<and> p \<le> q \<and> unat q + 4096 \<le> unat e})"
  using assms
proof (induction p e s arbitrary: F rule: freerange_loop.induct)
  case (1 p e s)
  show ?case
  proof (cases "p + PGSIZE \<le> e")
    case True
    have "p < PHYSTOP"
    proof (rule ccontr)
      assume "\<not> p < PHYSTOP"
      then have "p = PHYSTOP" "e = PHYSTOP" using 1(6,7) by auto
      then show False using True by (simp add: layout_defs)
    qed
    then have step: "unat (p + PGSIZE) = unat p + 4096" by (rule below_PHYSTOP_step)
    have pg: "phys_page s p" using 1 \<open>p < PHYSTOP\<close> by (simp add: phys_page_def)
    have "p \<notin> F" using 1(8) by auto
    obtain t where t: "kfree p s = Inr ((), t)" "kmem_inv t (insert p F)" "k_end t = k_end s"
      using kfree_ok [OF 1(2) pg \<open>p \<notin> F\<close>] by (metis kmem.select_convs(1) kmem.surjective kmem.update_convs(2,3))
    have "page_aligned (p + PGSIZE)" using 1(3) step by (simp add: page_aligned_unat)
    moreover have "p + PGSIZE \<noteq> 0" using step by (auto simp: word_unat_eq_iff)
    moreover have "k_end t \<le> p + PGSIZE" using 1(5) t(3) step by (simp add: word_le_nat_alt)
    moreover have "\<forall>q\<in>insert p F. q < p + PGSIZE" using 1(8) step by (auto simp: word_less_nat_alt)
    ultimately obtain u where u: "freerange_loop (p + PGSIZE) e t = Inr ((), u)"
      "kmem_inv u (insert p F \<union> {q. page_aligned q \<and> p + PGSIZE \<le> q \<and> unat q + 4096 \<le> unat e})"
      using 1(1) [OF True t(1) refl t(2)] 1(6) True by auto
    have "insert p F \<union> {q. page_aligned q \<and> p + PGSIZE \<le> q \<and> unat q + 4096 \<le> unat e}
        = F \<union> {q. page_aligned q \<and> p \<le> q \<and> unat q + 4096 \<le> unat e}"
    proof -
      have "unat p + 4096 \<le> unat e" using True step by (simp add: word_le_nat_alt)
      moreover have "p + PGSIZE \<le> q \<longleftrightarrow> p \<le> q \<and> p \<noteq> q" if q: "page_aligned q" for q
      proof -
        obtain i j where "unat p = 4096 * i" "unat q = 4096 * j"
          using 1(3) q by (auto elim!: page_alignedE)
        then show ?thesis using step by (auto simp: word_le_nat_alt word_unat_eq_iff)
      qed
      ultimately show ?thesis using 1(3) by auto
    qed
    then show ?thesis using u t(1) True by (simp add: freerange_loop.simps [of p])
  next
    case False
    have "unat e < unat q + 4096" if "page_aligned q" "p \<le> q" for q
    proof -
      have "unat e < unat (p + PGSIZE)" using False by (simp add: word_le_nat_alt)
      moreover have "unat (p + PGSIZE) \<le> unat p + 4096"
        by (auto simp: PGSIZE_def unat_plus_if')
      ultimately show ?thesis using that(2) by (simp add: word_le_nat_alt)
    qed
    then have "F \<union> {q. page_aligned q \<and> p \<le> q \<and> unat q + 4096 \<le> unat e} = F"
      by (auto simp: not_le [symmetric])
    then show ?thesis using False 1(2) by (simp only: freerange_loop.simps [of p]) simp
  qed
qed

lemma kinit_free_set:
  assumes "k_free s = 0" and "k_end s \<noteq> 0" and "k_end s \<le> PHYSTOP"
  shows "\<exists>t. kinit s = Inr ((), t) \<and>
     kmem_inv t {p. page_aligned p \<and> k_end s \<le> p \<and> unat p + 4096 \<le> unat PHYSTOP}"
proof -
  let ?p = "PGROUNDUP (k_end s)"
  have e: "unat (k_end s) \<le> 0x88000000" using assms(3) by (simp add: layout_defs word_le_nat_alt)
  then have up: "unat ?p = (unat (k_end s) + 4095) div 4096 * 4096" by (simp add: unat_PGROUNDUP)
  have ge: "k_end s \<le> ?p" using up by (simp add: word_le_nat_alt)
  moreover have "?p \<le> PHYSTOP" using e up by (simp add: word_le_nat_alt layout_defs)
  moreover have "?p \<noteq> 0" using ge assms(2) by auto
  moreover have "kmem_inv s {}" using assms by (auto simp: kmem_inv_def intro!: exI [of _ "[]"])
  ultimately obtain t where t: "freerange_loop ?p PHYSTOP s = Inr ((), t)"
      "kmem_inv t {q. page_aligned q \<and> ?p \<le> q \<and> unat q + 4096 \<le> unat PHYSTOP}"
    using freerange_loop_inv [of s "{}" ?p PHYSTOP] by auto
  have "k_end s \<le> q \<longleftrightarrow> ?p \<le> q" if "page_aligned q" for q
  proof -
    obtain j where j: "unat q = 4096 * j" using \<open>page_aligned q\<close> by (rule page_alignedE)
    have "?p \<le> q \<longleftrightarrow> (unat (k_end s) + 4095) div 4096 < Suc j"
      unfolding word_le_nat_alt up j by (simp add: mult.commute [of 4096] less_Suc_eq_le del: times_div_less_eq_dividend)
    also have "\<dots> \<longleftrightarrow> unat (k_end s) + 4095 < Suc j * 4096"
      by (rule div_less_iff_less_mult) simp
    also have "\<dots> \<longleftrightarrow> k_end s \<le> q" unfolding word_le_nat_alt j by auto
    finally show ?thesis by simp
  qed
  then have "{q. page_aligned q \<and> ?p \<le> q \<and> unat q + 4096 \<le> unat PHYSTOP}
      = {p. page_aligned p \<and> k_end s \<le> p \<and> unat p + 4096 \<le> unat PHYSTOP}" by auto
  then show ?thesis
    using t by (simp add: kinit_def freerange_def bnd_def gets_def)
qed

section \<open>What the allocator promises\<close>

text \<open>
  C26. After \<^verbatim>\<open>kinit\<close> the allocator owns exactly the whole pages between the end of the kernel
  and \<^verbatim>\<open>PHYSTOP\<close>: it does not panic, its free list is well formed, and the list holds each of
  these pages once.
\<close>

theorem kinit_owns_all_pages:
  assumes "k_free s = 0" and "k_end s \<noteq> 0" and "k_end s \<le> PHYSTOP"
  shows "\<exists>t. kinit s = Inr ((), t) \<and>
     kmem_inv t {p. page_aligned p \<and> k_end s \<le> p \<and> unat p + 4096 \<le> unat PHYSTOP}"
  by (rule kinit_free_set [OF assms])

theorem kinit_owns_all_pages_witness:
  "\<exists>t. kinit \<lparr>k_end = 0x80021abc, k_mem = (\<lambda>a. 7), k_free = 0\<rparr> = Inr ((), t) \<and>
     kmem_inv t {p. page_aligned p \<and> 0x80021abc \<le> p \<and> unat p + 4096 \<le> unat PHYSTOP}"
  using kinit_owns_all_pages [of "\<lparr>k_end = 0x80021abc, k_mem = (\<lambda>a. 7), k_free = 0\<rparr>"]
  by (simp add: layout_defs)

text \<open>The abstract allocator: a set of free pages.\<close>

inductive pool_step :: "u64 set \<Rightarrow> u64 option \<Rightarrow> u64 set \<Rightarrow> bool" where
  exhausted: "pool_step {} None {}"
| taken: "p \<in> F \<Longrightarrow> pool_step F (Some p) (F - {p})"

inductive_simps pool_step_None: "pool_step F None G"
inductive_simps pool_step_Some: "pool_step F (Some p) G"

text \<open>
  C25. The allocator implements a pool of pages. \<^verbatim>\<open>kalloc\<close> always returns; it takes a page out
  of the pool, or returns 0 when the pool is empty, and touches no memory but that page, which it
  fills with 5. \<^verbatim>\<open>kfree\<close> of a page of physical memory that is not in the pool puts it into the
  pool and touches no other page, and of an address that is no such page panics.
\<close>

theorem allocator_refines_pool:
  assumes "kmem_inv s F"
  shows "(\<exists>p t G. kalloc s = Inr (p, t) \<and> kmem_inv t G \<and> k_end t = k_end s \<and>
       pool_step F (if p = 0 then None else Some p) G \<and>
       (\<forall>a. k_mem t a = (if p \<noteq> 0 \<and> PGROUNDDOWN a = p then 5 else k_mem s a))) \<and>
    (\<forall>p. p \<notin> F \<longrightarrow>
       (if phys_page s p
        then \<exists>t. kfree p s = Inr ((), t) \<and> kmem_inv t (insert p F) \<and> k_end t = k_end s \<and>
               (\<forall>a. PGROUNDDOWN a \<noteq> p \<longrightarrow> k_mem t a = k_mem s a)
        else kfree p s = Inl (Panic ''kfree'')))"
proof (intro conjI allI impI)
  show "\<exists>p t G. kalloc s = Inr (p, t) \<and> kmem_inv t G \<and> k_end t = k_end s \<and>
       pool_step F (if p = 0 then None else Some p) G \<and>
       (\<forall>a. k_mem t a = (if p \<noteq> 0 \<and> PGROUNDDOWN a = p then 5 else k_mem s a))"
  proof (cases "F = {}")
    case True
    then show ?thesis using assms kalloc_empty [of s] by (auto intro: pool_step.intros)
  next
    case False
    then obtain p t where t: "kalloc s = Inr (p, t)" "p \<in> F" "kmem_inv t (F - {p})"
        "t = s\<lparr>k_free := ld64 (k_mem s) p, k_mem := memset (k_mem s) p 5 4096\<rparr>"
      using kalloc_some [OF assms] by blast
    have "page_aligned p" "p \<noteq> 0" using kmem_inv_pages [OF assms t(2)] by (auto simp: phys_page_def)
    then show ?thesis
      using t taken [OF t(2)] by (intro exI [of _ p] exI [of _ t] exI [of _ "F - {p}"]) (simp add: memset_page)
  qed
next
  fix p assume p: "p \<notin> F"
  show "if phys_page s p
        then \<exists>t. kfree p s = Inr ((), t) \<and> kmem_inv t (insert p F) \<and> k_end t = k_end s \<and>
               (\<forall>a. PGROUNDDOWN a \<noteq> p \<longrightarrow> k_mem t a = k_mem s a)
        else kfree p s = Inl (Panic ''kfree'')"
  proof (cases "phys_page s p")
    case True
    then obtain t where t: "kfree p s = Inr ((), t)" "kmem_inv t (insert p F)"
        "t = s\<lparr>k_mem := st64 (memset (k_mem s) p 1 4096) p (k_free s), k_free := p\<rparr>"
      using kfree_ok [OF assms True p] by blast
    have pa: "page_aligned p" "aligned8 p" "PGROUNDDOWN p = p"
      using True by (auto simp: phys_page_def page_aligned_aligned8 PGROUNDDOWN_id)
    have "same_page (k_mem s) (k_mem t) q" if "q \<noteq> p" for q
      unfolding t(3) using pa that
      by (simp, intro same_page_trans [OF memset_same_page st64_same_page]) auto
    then show ?thesis using True t by (auto simp: same_page_def)
  next
    case False
    have "k_end s \<noteq> 0" using assms by (auto simp: kmem_inv_def)
    then have "\<not> (page_aligned p \<and> k_end s \<le> p \<and> p < PHYSTOP)"
      using False by (auto simp: phys_page_def)
    then show ?thesis using False by (auto simp: kfree_result PGSIZE_mod)
  qed
qed

lemma one_page_pool:
  "kmem_inv \<lparr>k_end = 0x80021abc, k_mem = (\<lambda>a. 0), k_free = 0x80022000\<rparr> {0x80022000}"
proof -
  have "ld64 (\<lambda>a. 0) 0x80022000 = 0" by code_simp
  then have "free_chain (\<lambda>a. 0) 0x80022000 [0x80022000]" by simp
  then show ?thesis
    by (auto simp: kmem_inv_def phys_page_def page_aligned_unat layout_defs intro!: exI [of _ "[0x80022000]"])
qed

theorem allocator_refines_pool_witness:
  "\<exists>t. kalloc \<lparr>k_end = 0x80021abc, k_mem = (\<lambda>a. 0), k_free = 0x80022000\<rparr> = Inr (0x80022000, t) \<and>
     kmem_inv t {} \<and>
   kfree 0x80022001 \<lparr>k_end = 0x80021abc, k_mem = (\<lambda>a. 0), k_free = 0x80022000\<rparr> = Inl (Panic ''kfree'')"
proof -
  have "\<not> phys_page \<lparr>k_end = 0x80021abc, k_mem = (\<lambda>a. 0), k_free = 0x80022000\<rparr> 0x80022001"
    by (simp add: phys_page_def page_aligned_unat)
  then show ?thesis
    using allocator_refines_pool [OF one_page_pool] by (auto simp: pool_step_None pool_step_Some split: if_splits)
qed

end
