(* ===== verification/Vm.thy ===== *)
theory Vm
  imports Kalloc
begin

text \<open>
  \<^verbatim>\<open>kernel/vm.c\<close>: Sv39 page tables in physical memory. A page table is named by the physical
  address of its root page; its entries are the 64-bit words stored there. A pointer to an
  entry is the physical address of the entry, 0 for none. The routines that consult
  \<^verbatim>\<open>myproc()\<close> take the size and the page table of the current process as arguments
  \<open>psz\<close> and \<open>ppt\<close>. A C \<^verbatim>\<open>int\<close> result is an \<open>int\<close>.
\<close>

section \<open>Walking and mapping\<close>

fun walk_loop :: "nat \<Rightarrow> u64 \<Rightarrow> u64 \<Rightarrow> bool \<Rightarrow> ('a kmem_scheme, u64) routine" where
  "walk_loop 0 pt va alloc = ret (pt + 8 * PX 0 va)"
| "walk_loop (Suc l) pt va alloc =
     bnd (gets (\<lambda>s. ld64 (k_mem s) (pt + 8 * PX (Suc l) va))) (\<lambda>pte.
     if pte AND PTE_V \<noteq> 0 then walk_loop l (PTE2PA pte) va alloc
     else if \<not> alloc then ret 0
     else bnd kalloc (\<lambda>p.
       if p = 0 then ret 0
       else andthen (modify (\<lambda>s. s\<lparr>k_mem := memset (k_mem s) p 0 4096\<rparr>))
           (andthen (modify (\<lambda>s. s\<lparr>k_mem := st64 (k_mem s) (pt + 8 * PX (Suc l) va) (PA2PTE p OR PTE_V)\<rparr>))
                    (walk_loop l p va alloc))))"

definition walk :: "u64 \<Rightarrow> u64 \<Rightarrow> bool \<Rightarrow> ('a kmem_scheme, u64) routine" where
  "walk pt va alloc = andthen (panic_if (va \<ge> MAXVA) ''walk'') (walk_loop 2 pt va alloc)"

definition walkaddr :: "u64 \<Rightarrow> u64 \<Rightarrow> ('a kmem_scheme, u64) routine" where
  "walkaddr pt va =
     (if va \<ge> MAXVA then ret 0
      else bnd (walk pt va False) (\<lambda>pte.
        if pte = 0 then ret 0
        else bnd (gets (\<lambda>s. ld64 (k_mem s) pte)) (\<lambda>e.
          if e AND PTE_V = 0 then ret 0
          else if e AND PTE_U = 0 then ret 0
          else ret (PTE2PA e))))"

text \<open>
  The loop of \<^verbatim>\<open>mappages\<close>. A walk that returns has checked \<open>a < MAXVA\<close>, so the cursor
  cannot wrap around and the loop ends.
\<close>

lemma walk_below: "walk pt a alloc s = Inr x \<Longrightarrow> a < MAXVA"
  by (auto simp: walk_def andthen_def bnd_def panic_if_def panic_def not_le split: if_splits)

lemma below_MAXVA_step: "a < MAXVA \<Longrightarrow> unat (a + PGSIZE) = unat a + 4096"
  by (simp add: layout_defs word_less_nat_alt unat_plus_if')

definition va_left :: "u64 \<Rightarrow> nat" where
  "va_left a = 2 ^ 64 - unat a"

lemma below_MAXVA_measure: "a < MAXVA \<Longrightarrow> va_left (a + PGSIZE) < va_left a"
  using below_MAXVA_step [of a] unat_u64_lt [of "a + PGSIZE"] by (simp add: va_left_def)

function mappages_loop ::
  "u64 \<Rightarrow> u64 \<Rightarrow> u64 \<Rightarrow> u64 \<Rightarrow> u64 \<Rightarrow> ('a kmem_scheme, int) routine" where
  "mappages_loop pt a lst pa perm s =
     (case walk pt a True s of
        Inl e \<Rightarrow> Inl e
      | Inr (pte, t) \<Rightarrow>
          if pte = 0 then Inr (-1, t)
          else if ld64 (k_mem t) pte AND PTE_V \<noteq> 0 then Inl (Panic ''mappages: remap'')
          else (let u = t\<lparr>k_mem := st64 (k_mem t) pte (PA2PTE pa OR perm OR PTE_V)\<rparr>
                in if a = lst then Inr (0, u)
                   else mappages_loop pt (a + PGSIZE) lst (pa + PGSIZE) perm u))"
  by pat_completeness auto
termination
  by (relation "measure (\<lambda>(pt, a, lst, pa, perm, s). va_left a)")
    (auto dest!: walk_below intro: below_MAXVA_measure)

declare mappages_loop.simps [simp del]

definition mappages :: "u64 \<Rightarrow> u64 \<Rightarrow> u64 \<Rightarrow> u64 \<Rightarrow> u64 \<Rightarrow> ('a kmem_scheme, int) routine" where
  "mappages pt va sz pa perm =
     andthen (panic_if (va mod PGSIZE \<noteq> 0) ''mappages: va not aligned'')
    (andthen (panic_if (sz mod PGSIZE \<noteq> 0) ''mappages: size not aligned'')
    (andthen (panic_if (sz = 0) ''mappages: size'')
             (mappages_loop pt va (va + sz - PGSIZE) pa perm)))"

definition uvmcreate :: "('a kmem_scheme, u64) routine" where
  "uvmcreate =
     bnd kalloc (\<lambda>pt.
     if pt = 0 then ret 0
     else andthen (modify (\<lambda>s. s\<lparr>k_mem := memset (k_mem s) pt 0 4096\<rparr>)) (ret pt))"

section \<open>Unmapping, growing and shrinking\<close>

definition unmap_page :: "u64 \<Rightarrow> bool \<Rightarrow> ('a kmem_scheme, unit) routine" where
  "unmap_page pte do_free =
     (if pte = 0 then skip
      else bnd (gets (\<lambda>s. ld64 (k_mem s) pte)) (\<lambda>e.
        if e AND PTE_V = 0 then skip
        else andthen (whenM do_free (kfree (PTE2PA e)))
                     (modify (\<lambda>s. s\<lparr>k_mem := st64 (k_mem s) pte 0\<rparr>))))"

function uvmunmap_loop :: "u64 \<Rightarrow> u64 \<Rightarrow> u64 \<Rightarrow> bool \<Rightarrow> ('a kmem_scheme, unit) routine" where
  "uvmunmap_loop pt a end_va do_free s =
     (if a < end_va then
        (case walk pt a False s of
           Inl e \<Rightarrow> Inl e
         | Inr (pte, t) \<Rightarrow>
             (case unmap_page pte do_free t of
                Inl e \<Rightarrow> Inl e
              | Inr (x, u) \<Rightarrow> uvmunmap_loop pt (a + PGSIZE) end_va do_free u))
      else Inr ((), s))"
  by pat_completeness auto
termination
  by (relation "measure (\<lambda>(pt, a, end_va, do_free, s). va_left a)")
    (auto dest!: walk_below intro: below_MAXVA_measure)

declare uvmunmap_loop.simps [simp del]

definition uvmunmap :: "u64 \<Rightarrow> u64 \<Rightarrow> u64 \<Rightarrow> bool \<Rightarrow> ('a kmem_scheme, unit) routine" where
  "uvmunmap pt va npages do_free =
     andthen (panic_if (va mod PGSIZE \<noteq> 0) ''uvmunmap: not aligned'')
             (uvmunmap_loop pt va (va + npages * PGSIZE) do_free)"

definition uvmdealloc :: "u64 \<Rightarrow> u64 \<Rightarrow> u64 \<Rightarrow> ('a kmem_scheme, u64) routine" where
  "uvmdealloc pt oldsz newsz =
     (if newsz \<ge> oldsz then ret oldsz
      else andthen
        (whenM (PGROUNDUP newsz < PGROUNDUP oldsz)
          (uvmunmap pt (PGROUNDUP newsz)
            (u64_of_int (c_int ((PGROUNDUP oldsz - PGROUNDUP newsz) div PGSIZE))) True))
        (ret newsz))"

text \<open>The loop of \<^verbatim>\<open>uvmalloc\<close>; \<open>oldsz\<close> is already rounded up.\<close>

lemma mappages_below: "mappages pt a sz pa perm s = Inr x \<Longrightarrow> a < MAXVA"
  by (auto simp: mappages_def andthen_def bnd_def panic_if_def panic_def skip_def ret_def
      mappages_loop.simps [of pt a] split: if_splits sum.splits prod.splits dest: walk_below)

function uvmalloc_loop ::
  "u64 \<Rightarrow> u64 \<Rightarrow> u64 \<Rightarrow> u64 \<Rightarrow> u64 \<Rightarrow> ('a kmem_scheme, u64) routine" where
  "uvmalloc_loop pt a oldsz newsz xperm s =
     (if a < newsz then
        (case kalloc s of
           Inl e \<Rightarrow> Inl e
         | Inr (m, t) \<Rightarrow>
             if m = 0 then andthen (uvmdealloc pt a oldsz) (ret 0) t
             else
               (case mappages pt a PGSIZE m (PTE_R OR PTE_U OR xperm)
                       (t\<lparr>k_mem := memset (k_mem t) m 0 4096\<rparr>) of
                  Inl e \<Rightarrow> Inl e
                | Inr (r, u) \<Rightarrow>
                    if r \<noteq> 0 then andthen (kfree m) (andthen (uvmdealloc pt a oldsz) (ret 0)) u
                    else uvmalloc_loop pt (a + PGSIZE) oldsz newsz xperm u))
      else Inr (newsz, s))"
  by pat_completeness auto
termination
  by (relation "measure (\<lambda>(pt, a, oldsz, newsz, xperm, s). va_left a)")
    (auto dest!: mappages_below intro: below_MAXVA_measure)

declare uvmalloc_loop.simps [simp del]

definition uvmalloc :: "u64 \<Rightarrow> u64 \<Rightarrow> u64 \<Rightarrow> u64 \<Rightarrow> ('a kmem_scheme, u64) routine" where
  "uvmalloc pt oldsz newsz xperm =
     (if newsz < oldsz then ret oldsz
      else uvmalloc_loop pt (PGROUNDUP oldsz) (PGROUNDUP oldsz) newsz xperm)"

section \<open>Freeing a page table\<close>

text \<open>
  \<^verbatim>\<open>freewalk\<close> recurses through the entries that point to lower-level tables. The depth
  bound stands for the recursion depth; three levels are enough for a page table.
\<close>

fun freewalk :: "nat \<Rightarrow> u64 \<Rightarrow> ('a kmem_scheme, unit) routine" where
  "freewalk 0 pt = (\<lambda>s. Inl OutOfFuel)"
| "freewalk (Suc d) pt =
     andthen (forM [0..<512] (\<lambda>i.
       bnd (gets (\<lambda>s. ld64 (k_mem s) (pt + 8 * of_nat i))) (\<lambda>pte.
       if pte AND PTE_V \<noteq> 0 \<and> pte AND (PTE_R OR PTE_W OR PTE_X) = 0 then
         andthen (freewalk d (PTE2PA pte))
                 (modify (\<lambda>s. s\<lparr>k_mem := st64 (k_mem s) (pt + 8 * of_nat i) 0\<rparr>))
       else if pte AND PTE_V \<noteq> 0 then panic ''freewalk: leaf''
       else skip)))
     (kfree pt)"

definition uvmfree :: "u64 \<Rightarrow> u64 \<Rightarrow> ('a kmem_scheme, unit) routine" where
  "uvmfree pt sz =
     andthen (whenM (sz > 0) (uvmunmap pt 0 (PGROUNDUP sz div PGSIZE) True)) (freewalk 3 pt)"

section \<open>Copying an address space\<close>

text \<open>One iteration of \<^verbatim>\<open>uvmcopy\<close>: the result is false when it must take the error exit.\<close>

definition uvmcopy_page :: "u64 \<Rightarrow> u64 \<Rightarrow> u64 \<Rightarrow> ('a kmem_scheme, bool) routine" where
  "uvmcopy_page new i pte =
     (if pte = 0 then ret True
      else bnd (gets (\<lambda>s. ld64 (k_mem s) pte)) (\<lambda>e.
        if e AND PTE_V = 0 then ret True
        else bnd kalloc (\<lambda>m.
          if m = 0 then ret False
          else andthen (modify (\<lambda>s. s\<lparr>k_mem := memmove (k_mem s) m (PTE2PA e) 4096\<rparr>))
              (bnd (mappages new i PGSIZE m (PTE_FLAGS e)) (\<lambda>r.
               if r \<noteq> 0 then andthen (kfree m) (ret False) else ret True)))))"

function uvmcopy_loop :: "u64 \<Rightarrow> u64 \<Rightarrow> u64 \<Rightarrow> u64 \<Rightarrow> ('a kmem_scheme, int) routine" where
  "uvmcopy_loop old new i sz s =
     (if i < sz then
        (case walk old i False s of
           Inl e \<Rightarrow> Inl e
         | Inr (pte, t) \<Rightarrow>
             (case uvmcopy_page new i pte t of
                Inl e \<Rightarrow> Inl e
              | Inr (ok, u) \<Rightarrow>
                  if ok then uvmcopy_loop old new (i + PGSIZE) sz u
                  else andthen (uvmunmap new 0 (i div PGSIZE) True) (ret (-1)) u))
      else Inr (0, s))"
  by pat_completeness auto
termination
  by (relation "measure (\<lambda>(old, new, i, sz, s). va_left i)")
    (auto dest!: walk_below intro: below_MAXVA_measure)

declare uvmcopy_loop.simps [simp del]

definition uvmcopy :: "u64 \<Rightarrow> u64 \<Rightarrow> u64 \<Rightarrow> ('a kmem_scheme, int) routine" where
  "uvmcopy old new sz = uvmcopy_loop old new 0 sz"

definition uvmclear :: "u64 \<Rightarrow> u64 \<Rightarrow> ('a kmem_scheme, unit) routine" where
  "uvmclear pt va =
     bnd (walk pt va False) (\<lambda>pte.
     andthen (panic_if (pte = 0) ''uvmclear'')
             (modify (\<lambda>s. s\<lparr>k_mem := st64 (k_mem s) pte (ld64 (k_mem s) pte AND NOT PTE_U)\<rparr>)))"

section \<open>Page faults on lazily allocated memory\<close>

definition ismapped :: "u64 \<Rightarrow> u64 \<Rightarrow> ('a kmem_scheme, bool) routine" where
  "ismapped pt va =
     bnd (walk pt va False) (\<lambda>pte.
     if pte = 0 then ret False
     else gets (\<lambda>s. ld64 (k_mem s) pte AND PTE_V \<noteq> 0))"

definition vmfault :: "u64 \<Rightarrow> u64 \<Rightarrow> u64 \<Rightarrow> u64 \<Rightarrow> ('a kmem_scheme, u64) routine" where
  "vmfault psz ppt pt va =
     (if va \<ge> psz then ret 0
      else bnd (ismapped pt (PGROUNDDOWN va)) (\<lambda>mapped.
        if mapped then ret 0
        else bnd kalloc (\<lambda>m.
          if m = 0 then ret 0
          else andthen (modify (\<lambda>s. s\<lparr>k_mem := memset (k_mem s) m 0 4096\<rparr>))
              (bnd (mappages ppt (PGROUNDDOWN va) PGSIZE m (PTE_W OR PTE_U OR PTE_R)) (\<lambda>r.
               if r \<noteq> 0 then andthen (kfree m) (ret 0) else ret m)))))"

section \<open>Copying between kernel and user memory\<close>

text \<open>
  The kernel side of a copy is a byte list. \<open>chunk va len\<close> is the number of bytes that
  fit in the page of \<open>va\<close>.
\<close>

definition chunk :: "u64 \<Rightarrow> nat \<Rightarrow> nat" where
  "chunk va len = min (unat (PGSIZE - (va - PGROUNDDOWN va))) len"

lemma chunk_pos: "0 < len \<Longrightarrow> 0 < chunk va len"
  using PGROUNDDOWN_dist [of va]
  by (simp add: chunk_def layout_defs unat_sub_if' word_le_nat_alt)

text \<open>The body of the loop of \<^verbatim>\<open>copyout\<close>: the physical address to write to, 0 on error.\<close>

definition copyout_page :: "u64 \<Rightarrow> u64 \<Rightarrow> u64 \<Rightarrow> u64 \<Rightarrow> ('a kmem_scheme, u64) routine" where
  "copyout_page psz ppt pt va0 =
     (if va0 \<ge> MAXVA then ret 0
      else bnd (walkaddr pt va0) (\<lambda>pa.
           bnd (if pa = 0 then vmfault psz ppt pt va0 else ret pa) (\<lambda>pa0.
           if pa0 = 0 then ret 0
           else bnd (walk pt va0 False) (\<lambda>pte.
                andthen (panic_if (pte = 0) ''kerneltrap'')
               (bnd (gets (\<lambda>s. ld64 (k_mem s) pte)) (\<lambda>e.
                if e AND PTE_W = 0 then ret 0 else ret pa0))))))"

function copyout :: "u64 \<Rightarrow> u64 \<Rightarrow> u64 \<Rightarrow> u64 \<Rightarrow> u8 list \<Rightarrow> ('a kmem_scheme, int) routine" where
  "copyout psz ppt pt dstva src s =
     (if src = [] then Inr (0, s)
      else (case copyout_page psz ppt pt (PGROUNDDOWN dstva) s of
              Inl e \<Rightarrow> Inl e
            | Inr (pa0, t) \<Rightarrow>
                if pa0 = 0 then Inr (-1, t)
                else (let n = chunk dstva (length src)
                      in copyout psz ppt pt (PGROUNDDOWN dstva + PGSIZE) (drop n src)
                           (t\<lparr>k_mem := wr_bytes (k_mem t) (pa0 + (dstva - PGROUNDDOWN dstva)) (take n src)\<rparr>))))"
  by pat_completeness auto
termination
  by (relation "measure (\<lambda>(psz, ppt, pt, dstva, src, s). length src)") (auto simp: chunk_pos)

declare copyout.simps [simp del]

definition copyin_page :: "u64 \<Rightarrow> u64 \<Rightarrow> u64 \<Rightarrow> u64 \<Rightarrow> ('a kmem_scheme, u64) routine" where
  "copyin_page psz ppt pt va0 =
     bnd (walkaddr pt va0) (\<lambda>pa. if pa = 0 then vmfault psz ppt pt va0 else ret pa)"

text \<open>\<^verbatim>\<open>copyin\<close> returns its status and the bytes stored at \<^verbatim>\<open>dst\<close> so far.\<close>

function copyin ::
  "u64 \<Rightarrow> u64 \<Rightarrow> u64 \<Rightarrow> u64 \<Rightarrow> nat \<Rightarrow> u8 list \<Rightarrow> ('a kmem_scheme, int \<times> u8 list) routine" where
  "copyin psz ppt pt srcva len acc s =
     (if len = 0 then Inr ((0, acc), s)
      else (case copyin_page psz ppt pt (PGROUNDDOWN srcva) s of
              Inl e \<Rightarrow> Inl e
            | Inr (pa0, t) \<Rightarrow>
                if pa0 = 0 then Inr ((-1, acc), t)
                else (let n = chunk srcva len
                      in copyin psz ppt pt (PGROUNDDOWN srcva + PGSIZE) (len - n)
                           (acc @ rd_bytes (k_mem t) (pa0 + (srcva - PGROUNDDOWN srcva)) n) t)))"
  by pat_completeness auto
termination
  by (relation "measure (\<lambda>(psz, ppt, pt, srcva, len, acc, s). len)") (auto simp: chunk_pos)

declare copyin.simps [simp del]

text \<open>
  The inner loop of \<^verbatim>\<open>copyinstr\<close> over the \<open>n\<close> bytes left in a page: the characters copied
  and whether the NUL was found.
\<close>

fun copyinstr_scan :: "mem \<Rightarrow> u64 \<Rightarrow> nat \<Rightarrow> string \<times> bool" where
  "copyinstr_scan m p 0 = ([], False)"
| "copyinstr_scan m p (Suc n) =
     (if m p = 0 then ([], True)
      else (case copyinstr_scan m (p + 1) n of (cs, nul) \<Rightarrow> (b2c (m p) # cs, nul)))"

function copyinstr ::
  "u64 \<Rightarrow> u64 \<Rightarrow> nat \<Rightarrow> string \<Rightarrow> ('a kmem_scheme, int \<times> string) routine" where
  "copyinstr pt srcva mx acc s =
     (if mx = 0 then Inr ((-1, acc), s)
      else (case walkaddr pt (PGROUNDDOWN srcva) s of
              Inl e \<Rightarrow> Inl e
            | Inr (pa0, t) \<Rightarrow>
                if pa0 = 0 then Inr ((-1, acc), t)
                else (let n = chunk srcva mx;
                          r = copyinstr_scan (k_mem t) (pa0 + (srcva - PGROUNDDOWN srcva)) n
                      in if snd r then Inr ((0, acc @ fst r), t)
                         else copyinstr pt (PGROUNDDOWN srcva + PGSIZE) (mx - n) (acc @ fst r) t)))"
  by pat_completeness auto
termination
  by (relation "measure (\<lambda>(pt, srcva, mx, acc, s). mx)") (auto simp: chunk_pos)

declare copyinstr.simps [simp del]

section \<open>The kernel page table\<close>

text \<open>
  \<^verbatim>\<open>etext\<close> and \<^verbatim>\<open>trampoline\<close> are addresses the linker fixes, hence arguments.
\<close>

definition kvmmap :: "u64 \<Rightarrow> u64 \<Rightarrow> u64 \<Rightarrow> u64 \<Rightarrow> u64 \<Rightarrow> ('a kmem_scheme, unit) routine" where
  "kvmmap kpt va pa sz perm =
     bnd (mappages kpt va sz pa perm) (\<lambda>r. panic_if (r \<noteq> 0) ''kvmmap'')"

definition proc_mapstacks :: "u64 \<Rightarrow> ('a kmem_scheme, unit) routine" where
  "proc_mapstacks kpt =
     forM [0..<NPROC] (\<lambda>p.
       bnd kalloc (\<lambda>pa.
       andthen (panic_if (pa = 0) ''kalloc'')
               (kvmmap kpt (KSTACK p) pa PGSIZE (PTE_R OR PTE_W))))"

definition kvmmake :: "u64 \<Rightarrow> u64 \<Rightarrow> ('a kmem_scheme, u64) routine" where
  "kvmmake etext trampoline =
     bnd kalloc (\<lambda>kpt.
     andthen (modify (\<lambda>s. s\<lparr>k_mem := memset (k_mem s) kpt 0 4096\<rparr>))
    (andthen (kvmmap kpt UART0 UART0 PGSIZE (PTE_R OR PTE_W))
    (andthen (kvmmap kpt VIRTIO0 VIRTIO0 PGSIZE (PTE_R OR PTE_W))
    (andthen (kvmmap kpt PLIC PLIC 0x4000000 (PTE_R OR PTE_W))
    (andthen (kvmmap kpt KERNBASE KERNBASE (etext - KERNBASE) (PTE_R OR PTE_X))
    (andthen (kvmmap kpt etext etext (PHYSTOP - etext) (PTE_R OR PTE_W))
    (andthen (kvmmap kpt TRAMPOLINE trampoline PGSIZE (PTE_R OR PTE_X))
    (andthen (proc_mapstacks kpt)
             (ret kpt)))))))))"

end
