(* ===== verification/Printf.thy ===== *)
theory Printf
  imports Kstring
begin

text \<open>
  \<^verbatim>\<open>kernel/printf.c\<close>: formatted console output, as the text it sends to \<^verbatim>\<open>consputc\<close>.
  An argument of the variable argument list is what the caller passed: an \<^verbatim>\<open>int\<close>, a 32-bit
  or 64-bit unsigned value, or a string pointer (\<open>None\<close> for the null pointer). Reading an
  argument of the wrong kind or past the last one is undefined in C and gives \<open>None\<close> here.
\<close>

datatype parg = AInt int | AU32 u32 | AU64 u64 | AStr "string option"

section \<open>Numbers\<close>

definition digits :: string where
  "digits = ''0123456789abcdef''"

text \<open>
  The digit loop of \<^verbatim>\<open>printint\<close>: \<open>printint_digits base x\<close> is \<^verbatim>\<open>buf\<close> after the loop, least
  significant digit first.
\<close>

function printint_digits :: "nat \<Rightarrow> nat \<Rightarrow> string" where
  "printint_digits base x =
     (if base \<le> 1 then []
      else digits ! (x mod base) # (if x div base \<noteq> 0 then printint_digits base (x div base) else []))"
  by pat_completeness auto
termination
  by (relation "measure snd") (auto intro!: div_less_dividend gr0I)

declare printint_digits.simps [simp del]

text \<open>\<^verbatim>\<open>printint(xx, base, sign)\<close> on the 64-bit value \<open>xx\<close>, read as signed when \<open>sign\<close> is set.\<close>

definition printint_buf :: "u64 \<Rightarrow> nat \<Rightarrow> bool \<Rightarrow> string" where
  "printint_buf xx base sign =
     (if sign \<and> sint xx < 0 then printint_digits base (unat (- xx)) @ ''-''
      else printint_digits base (unat xx))"

definition printint :: "u64 \<Rightarrow> nat \<Rightarrow> bool \<Rightarrow> string" where
  "printint xx base sign = rev (printint_buf xx base sign)"

fun printptr_loop :: "nat \<Rightarrow> u64 \<Rightarrow> string" where
  "printptr_loop 0 x = []"
| "printptr_loop (Suc n) x = digits ! unat (drop_bit 60 x) # printptr_loop n (push_bit 4 x)"

definition printptr :: "u64 \<Rightarrow> string" where
  "printptr x = ''0x'' @ printptr_loop 16 x"

section \<open>The format loop\<close>

definition prefix_opt :: "string \<Rightarrow> string option \<Rightarrow> string option" where
  "prefix_opt s r = map_option (\<lambda>t. s @ t) r"

definition is_pref :: "string \<Rightarrow> string \<Rightarrow> bool" where
  "is_pref p s = (take (length p) s = p)"

text \<open>
  \<open>printf_str fmt args\<close>: the characters of the format from the current position on, and the
  arguments not yet consumed. The conversions are tried in the order of the code.
\<close>

function printf_str :: "string \<Rightarrow> parg list \<Rightarrow> string option" where
  "printf_str fmt args =
     (case fmt of
        [] \<Rightarrow> Some []
      | cx # r \<Rightarrow>
          if cx = NUL then Some []
          else if cx \<noteq> CHR ''%'' then prefix_opt [cx] (printf_str r args)
          else if is_pref ''d'' r then
            (case args of AInt i # as \<Rightarrow> prefix_opt (printint (word_of_int i) 10 True) (printf_str (drop 1 r) as) | _ \<Rightarrow> None)
          else if is_pref ''ld'' r then
            (case args of AU64 v # as \<Rightarrow> prefix_opt (printint v 10 True) (printf_str (drop 2 r) as) | _ \<Rightarrow> None)
          else if is_pref ''lld'' r then
            (case args of AU64 v # as \<Rightarrow> prefix_opt (printint v 10 True) (printf_str (drop 3 r) as) | _ \<Rightarrow> None)
          else if is_pref ''u'' r then
            (case args of AU32 v # as \<Rightarrow> prefix_opt (printint (ucast v) 10 False) (printf_str (drop 1 r) as) | _ \<Rightarrow> None)
          else if is_pref ''lu'' r then
            (case args of AU64 v # as \<Rightarrow> prefix_opt (printint v 10 False) (printf_str (drop 2 r) as) | _ \<Rightarrow> None)
          else if is_pref ''llu'' r then
            (case args of AU64 v # as \<Rightarrow> prefix_opt (printint v 10 False) (printf_str (drop 3 r) as) | _ \<Rightarrow> None)
          else if is_pref ''x'' r then
            (case args of AU32 v # as \<Rightarrow> prefix_opt (printint (ucast v) 16 False) (printf_str (drop 1 r) as) | _ \<Rightarrow> None)
          else if is_pref ''lx'' r then
            (case args of AU64 v # as \<Rightarrow> prefix_opt (printint v 16 False) (printf_str (drop 2 r) as) | _ \<Rightarrow> None)
          else if is_pref ''llx'' r then
            (case args of AU64 v # as \<Rightarrow> prefix_opt (printint v 16 False) (printf_str (drop 3 r) as) | _ \<Rightarrow> None)
          else if is_pref ''p'' r then
            (case args of AU64 v # as \<Rightarrow> prefix_opt (printptr v) (printf_str (drop 1 r) as) | _ \<Rightarrow> None)
          else if is_pref ''c'' r then
            (case args of AU32 v # as \<Rightarrow> prefix_opt [char_of (unat v)] (printf_str (drop 1 r) as) | _ \<Rightarrow> None)
          else if is_pref ''s'' r then
            (case args of
               AStr None # as \<Rightarrow> prefix_opt ''(null)'' (printf_str (drop 1 r) as)
             | AStr (Some t) # as \<Rightarrow> prefix_opt (cstr t) (printf_str (drop 1 r) as)
             | _ \<Rightarrow> None)
          else if is_pref ''%'' r then prefix_opt ''%'' (printf_str (drop 1 r) args)
          else if cs_hd r = NUL then Some []
          else prefix_opt [CHR ''%'', cs_hd r] (printf_str (drop 1 r) args))"
  by pat_completeness auto
termination
  by (relation "measure (\<lambda>(fmt, args). length fmt)") auto

declare printf_str.simps [simp del]

section \<open>Decimal numbers\<close>

text \<open>The value a string of decimal digits denotes, most significant digit first.\<close>

definition digit_val :: "char \<Rightarrow> nat" where
  "digit_val c = of_char c - 48"

definition decval :: "string \<Rightarrow> nat" where
  "decval s = foldl (\<lambda>n c. 10 * n + digit_val c) 0 s"

definition is_digit :: "char \<Rightarrow> bool" where
  "is_digit c \<longleftrightarrow> 48 \<le> (of_char c :: nat) \<and> (of_char c :: nat) \<le> 57"

lemma decval_snoc [simp]: "decval (s @ [c]) = 10 * decval s + digit_val c"
  by (simp add: decval_def)

lemma decval_Nil [simp]: "decval [] = 0"
  by (simp add: decval_def)

lemma digits_dec: "d < 10 \<Longrightarrow> digit_val (digits ! d) = d \<and> is_digit (digits ! d)"
proof -
  assume "d < 10"
  then have "d \<in> {0, 1, 2, 3, 4, 5, 6, 7, 8, 9}" by auto
  then show ?thesis by (auto simp: digits_def digit_val_def is_digit_def)
qed

lemma printint_digits_decval:
  "decval (rev (printint_digits 10 x)) = x \<and> list_all is_digit (printint_digits 10 x)"
proof (induction x rule: less_induct)
  case (less x)
  show ?case
  proof (cases "x div 10 = 0")
    case True
    then have "printint_digits 10 x = [digits ! x]" by (simp add: printint_digits.simps [of 10 x])
    then show ?thesis using True digits_dec [of x] by (simp add: decval_def)
  next
    case False
    then have "x div 10 < x" by simp
    then have IH: "decval (rev (printint_digits 10 (x div 10))) = x div 10"
        "list_all is_digit (printint_digits 10 (x div 10))"
      using less by auto
    have "printint_digits 10 x = digits ! (x mod 10) # printint_digits 10 (x div 10)"
      using False by (simp add: printint_digits.simps [of 10 x])
    then show ?thesis using IH digits_dec [of "x mod 10"] by simp
  qed
qed

lemma length_printint_digits:
  "1 < base \<Longrightarrow> 0 < n \<Longrightarrow> x < base ^ n \<Longrightarrow> length (printint_digits base x) \<le> n"
proof (induction n arbitrary: x)
  case (Suc n)
  show ?case
  proof (cases "x div base = 0")
    case True
    then show ?thesis by (simp add: printint_digits.simps [of base x])
  next
    case False
    then have n: "0 < n" using Suc.prems by (cases n) auto
    have "x div base < base ^ n" using Suc.prems by (simp add: div_less_iff_less_mult mult.commute)
    then show ?thesis using Suc.IH [of "x div base"] Suc.prems(1) n False
      by (simp add: printint_digits.simps [of base x])
  qed
qed simp

lemma unat_neg_sint: "sint (x :: u64) < 0 \<Longrightarrow> int (unat (- x)) = - sint x"
proof -
  assume neg: "sint x < 0"
  have lo: "- (2 ^ 63) \<le> sint x" using sint_greater_eq [of x] by simp
  have "int (unat (- x)) = uint (word_of_int (- sint x) :: u64)" by simp
  also have "\<dots> = (- sint x) mod 2 ^ 64" by (simp only: uint_word_of_int) simp
  also have "\<dots> = - sint x" using neg lo by (intro mod_pos_pos_trivial) auto
  finally show ?thesis .
qed


end
