(* ===== verification/Proc.thy ===== *)
theory Proc
  imports Vm Printf
begin

text \<open>
  The process table of \<^verbatim>\<open>kernel/proc.c\<close> and \<^verbatim>\<open>kernel/proc.h\<close>: the structures, process
  creation and destruction as far as memory is concerned, sleep and wakeup, kill, and the
  scheduler's transitions. A \<^verbatim>\<open>struct proc *\<close> is an index into the table. The state extends
  the allocator's, so that these routines call \<^verbatim>\<open>kalloc\<close> and the page-table code directly.
  Trap frames are kept in a heap of their own, indexed by the address of the page that holds
  them. The locks \<^verbatim>\<open>p->lock\<close>, \<^verbatim>\<open>pid_lock\<close> and \<^verbatim>\<open>wait_lock\<close> are not part of the state: a
  section they protect is atomic.
\<close>

section \<open>Structures\<close>

record kcontext =
  c_ra :: u64
  c_sp :: u64
  c_s0 :: u64
  c_s1 :: u64
  c_s2 :: u64
  c_s3 :: u64
  c_s4 :: u64
  c_s5 :: u64
  c_s6 :: u64
  c_s7 :: u64
  c_s8 :: u64
  c_s9 :: u64
  c_s10 :: u64
  c_s11 :: u64

record trapframe =
  tf_kernel_satp :: u64
  tf_kernel_sp :: u64
  tf_kernel_trap :: u64
  tf_epc :: u64
  tf_kernel_hartid :: u64
  tf_ra :: u64
  tf_sp :: u64
  tf_gp :: u64
  tf_tp :: u64
  tf_t0 :: u64
  tf_t1 :: u64
  tf_t2 :: u64
  tf_s0 :: u64
  tf_s1 :: u64
  tf_a0 :: u64
  tf_a1 :: u64
  tf_a2 :: u64
  tf_a3 :: u64
  tf_a4 :: u64
  tf_a5 :: u64
  tf_a6 :: u64
  tf_a7 :: u64
  tf_s2 :: u64
  tf_s3 :: u64
  tf_s4 :: u64
  tf_s5 :: u64
  tf_s6 :: u64
  tf_s7 :: u64
  tf_s8 :: u64
  tf_s9 :: u64
  tf_s10 :: u64
  tf_s11 :: u64
  tf_t3 :: u64
  tf_t4 :: u64
  tf_t5 :: u64
  tf_t6 :: u64

datatype procstate = UNUSED | USED | SLEEPING | RUNNABLE | RUNNING | ZOMBIE

record proc =
  p_state :: procstate
  p_chan :: "chan option"
  p_killed :: int
  p_xstate :: int
  p_pid :: int
  p_parent :: "nat option"
  p_kstack :: u64
  p_sz :: u64
  p_pagetable :: u64
  p_trapframe :: u64
  p_context :: kcontext
  p_ofile :: "nat option list"
  p_cwd :: "nat option"
  p_syscall_mask :: u64
  p_name :: string
  p_child_syscall_mask :: u64
  p_audit_enabled :: int
  p_strict_mode :: int

text \<open>
  The process part of the kernel state: the table, the pid counter, \<^verbatim>\<open>initproc\<close>, the process
  running on this CPU (\<^verbatim>\<open>c->proc\<close>), the trap frames, the addresses the linker fixes, and
  the text printed on the console so far.
\<close>

record kproc = kmem +
  procs :: "proc list"
  nextpid :: int
  initproc :: nat
  cur :: "nat option"
  tframes :: "u64 \<Rightarrow> trapframe"
  sym_trampoline :: u64
  sym_forkret :: u64
  console :: string

definition zero_context :: kcontext where
  "zero_context = \<lparr>c_ra = 0, c_sp = 0, c_s0 = 0, c_s1 = 0, c_s2 = 0, c_s3 = 0, c_s4 = 0,
     c_s5 = 0, c_s6 = 0, c_s7 = 0, c_s8 = 0, c_s9 = 0, c_s10 = 0, c_s11 = 0\<rparr>"

section \<open>Access to the table\<close>

definition me :: "'a kproc_scheme \<Rightarrow> nat" where
  "me s = the (cur s)"

definition myproc :: "'a kproc_scheme \<Rightarrow> proc" where
  "myproc s = procs s ! me s"

definition upd_proc :: "nat \<Rightarrow> (proc \<Rightarrow> proc) \<Rightarrow> 'a kproc_scheme \<Rightarrow> 'a kproc_scheme" where
  "upd_proc i f s = s\<lparr>procs := (procs s)[i := f (procs s ! i)]\<rparr>"

lemma nth_upd_proc:
  "procs (upd_proc i f s) ! j = (if i = j \<and> j < length (procs s) then f (procs s ! j) else procs s ! j)"
  by (cases "i < length (procs s)") (auto simp: upd_proc_def list_update_beyond not_less)

lemma upd_proc_simps [simp]:
  "length (procs (upd_proc i f s)) = length (procs s)" "cur (upd_proc i f s) = cur s"
  by (simp_all add: upd_proc_def)

definition my_tf :: "'a kproc_scheme \<Rightarrow> trapframe" where
  "my_tf s = tframes s (p_trapframe (myproc s))"

definition upd_my_tf :: "(trapframe \<Rightarrow> trapframe) \<Rightarrow> 'a kproc_scheme \<Rightarrow> 'a kproc_scheme" where
  "upd_my_tf f s = s\<lparr>tframes := (tframes s)(p_trapframe (myproc s) := f (my_tf s))\<rparr>"

definition kprintf :: "string \<Rightarrow> parg list \<Rightarrow> ('a kproc_scheme, unit) routine" where
  "kprintf fmt args =
     modify (\<lambda>s. s\<lparr>console := console s @ (case printf_str fmt args of None \<Rightarrow> [] | Some t \<Rightarrow> t)\<rparr>)"

section \<open>Creating and destroying processes\<close>

definition procinit :: "('a kproc_scheme, unit) routine" where
  "procinit = forM [0..<NPROC] (\<lambda>i.
     modify (upd_proc i (\<lambda>p. p\<lparr>p_state := UNUSED, p_kstack := KSTACK i\<rparr>)))"

definition allocpid :: "('a kproc_scheme, int) routine" where
  "allocpid = bnd (gets nextpid) (\<lambda>pid.
     andthen (modify (\<lambda>s. s\<lparr>nextpid := nextpid s + 1\<rparr>)) (ret pid))"

definition proc_freepagetable :: "u64 \<Rightarrow> u64 \<Rightarrow> ('a kmem_scheme, unit) routine" where
  "proc_freepagetable pt sz =
     andthen (uvmunmap pt TRAMPOLINE 1 False)
    (andthen (uvmunmap pt TRAPFRAME 1 False)
             (uvmfree pt sz))"

definition proc_pagetable :: "nat \<Rightarrow> ('a kproc_scheme, u64) routine" where
  "proc_pagetable i =
     bnd uvmcreate (\<lambda>pt.
     if pt = 0 then ret 0
     else bnd (gets sym_trampoline) (\<lambda>tramp.
          bnd (mappages pt TRAMPOLINE PGSIZE tramp (PTE_R OR PTE_X)) (\<lambda>r.
          if r < 0 then andthen (uvmfree pt 0) (ret 0)
          else bnd (gets (\<lambda>s. p_trapframe (procs s ! i))) (\<lambda>tf.
               bnd (mappages pt TRAPFRAME PGSIZE tf (PTE_R OR PTE_W)) (\<lambda>r.
               if r < 0 then andthen (uvmunmap pt TRAMPOLINE 1 False)
                            (andthen (uvmfree pt 0) (ret 0))
               else ret pt)))))"

definition freeproc :: "nat \<Rightarrow> ('a kproc_scheme, unit) routine" where
  "freeproc i =
     bnd (gets (\<lambda>s. procs s ! i)) (\<lambda>p.
     andthen (whenM (p_trapframe p \<noteq> 0) (kfree (p_trapframe p)))
    (andthen (modify (upd_proc i (\<lambda>p. p\<lparr>p_trapframe := 0\<rparr>)))
    (andthen (whenM (p_pagetable p \<noteq> 0) (proc_freepagetable (p_pagetable p) (p_sz p)))
             (modify (upd_proc i (\<lambda>p. p\<lparr>p_pagetable := 0, p_sz := 0, p_pid := 0, p_parent := None,
                p_name := (p_name p)[0 := NUL], p_chan := None, p_killed := 0, p_xstate := 0,
                p_syscall_mask := 0, p_child_syscall_mask := 0, p_audit_enabled := 0,
                p_strict_mode := 0, p_state := UNUSED\<rparr>))))))"

fun find_unused :: "proc list \<Rightarrow> nat \<Rightarrow> nat option" where
  "find_unused [] i = None"
| "find_unused (p # ps) i = (if p_state p = UNUSED then Some i else find_unused ps (Suc i))"

text \<open>The part of \<^verbatim>\<open>allocproc\<close> from the label \<^verbatim>\<open>found\<close> on.\<close>

definition alloc_found :: "nat \<Rightarrow> ('a kproc_scheme, nat option) routine" where
  "alloc_found i =
     bnd allocpid (\<lambda>pid.
     andthen (modify (upd_proc i (\<lambda>p. p\<lparr>p_pid := pid, p_state := USED, p_syscall_mask := 0,
                p_child_syscall_mask := 0, p_audit_enabled := 0, p_strict_mode := 0\<rparr>)))
    (bnd kalloc (\<lambda>tf.
     andthen (modify (upd_proc i (\<lambda>p. p\<lparr>p_trapframe := tf\<rparr>)))
    (if tf = 0 then andthen (freeproc i) (ret None)
     else bnd (proc_pagetable i) (\<lambda>pt.
          andthen (modify (upd_proc i (\<lambda>p. p\<lparr>p_pagetable := pt\<rparr>)))
         (if pt = 0 then andthen (freeproc i) (ret None)
          else andthen (bnd (gets sym_forkret) (\<lambda>fr.
                 modify (upd_proc i (\<lambda>p. p\<lparr>p_context :=
                   zero_context\<lparr>c_ra := fr, c_sp := p_kstack p + PGSIZE\<rparr>\<rparr>))))
               (ret (Some i))))))))"

definition allocproc :: "('a kproc_scheme, nat option) routine" where
  "allocproc =
     bnd (gets (\<lambda>s. find_unused (procs s) 0)) (\<lambda>slot.
     case slot of None \<Rightarrow> ret None | Some i \<Rightarrow> alloc_found i)"

definition growproc :: "int \<Rightarrow> ('a kproc_scheme, int) routine" where
  "growproc n =
     bnd (gets myproc) (\<lambda>p.
     let sz = p_sz p; set_sz = (\<lambda>sz. bnd (gets me) (\<lambda>i. modify (upd_proc i (\<lambda>p. p\<lparr>p_sz := sz\<rparr>)))) in
     if n > 0 then
       (if sz + u64_of_int n > TRAPFRAME then ret (-1)
        else bnd (uvmalloc (p_pagetable p) sz (sz + u64_of_int n) PTE_W) (\<lambda>sz.
             if sz = 0 then ret (-1) else andthen (set_sz sz) (ret 0)))
     else if n < 0 then
       bnd (uvmdealloc (p_pagetable p) sz (sz + u64_of_int n)) (\<lambda>sz. andthen (set_sz sz) (ret 0))
     else andthen (set_sz sz) (ret 0))"

section \<open>Sleep, wakeup, kill\<close>

text \<open>
  \<^verbatim>\<open>sleep\<close> marks the process and leaves the CPU; \<open>sleep_return\<close> is what it does once it has
  been scheduled again.
\<close>

definition sleep :: "chan \<Rightarrow> ('a kproc_scheme, 'b) routine" where
  "sleep ch s = Inl (Sleep ch (upd_proc (me s) (\<lambda>p. p\<lparr>p_chan := Some ch, p_state := SLEEPING\<rparr>) s))"

definition sleep_return :: "'a kproc_scheme \<Rightarrow> 'a kproc_scheme" where
  "sleep_return s = upd_proc (me s) (\<lambda>p. p\<lparr>p_chan := None\<rparr>) s"

definition wake_proc :: "chan \<Rightarrow> proc \<Rightarrow> proc" where
  "wake_proc ch p = (if p_state p = SLEEPING \<and> p_chan p = Some ch then p\<lparr>p_state := RUNNABLE\<rparr> else p)"

definition wakeup :: "chan \<Rightarrow> 'a kproc_scheme \<Rightarrow> 'a kproc_scheme" where
  "wakeup ch s = s\<lparr>procs := map (\<lambda>(i, p). if cur s = Some i then p else wake_proc ch p)
                              (enumerate 0 (procs s))\<rparr>"

fun find_pid :: "int \<Rightarrow> proc list \<Rightarrow> nat \<Rightarrow> nat option" where
  "find_pid pid [] i = None"
| "find_pid pid (p # ps) i = (if p_pid p = pid then Some i else find_pid pid ps (Suc i))"

definition kkill :: "int \<Rightarrow> ('a kproc_scheme, int) routine" where
  "kkill pid =
     bnd (gets (\<lambda>s. find_pid pid (procs s) 0)) (\<lambda>slot.
     case slot of
       None \<Rightarrow> ret (-1)
     | Some i \<Rightarrow>
         andthen (modify (upd_proc i (\<lambda>p. p\<lparr>p_killed := 1,
                    p_state := (if p_state p = SLEEPING then RUNNABLE else p_state p)\<rparr>)))
                 (ret 0))"

definition setkilled :: "nat \<Rightarrow> 'a kproc_scheme \<Rightarrow> 'a kproc_scheme" where
  "setkilled i s = upd_proc i (\<lambda>p. p\<lparr>p_killed := 1\<rparr>) s"

definition killed :: "nat \<Rightarrow> 'a kproc_scheme \<Rightarrow> int" where
  "killed i s = p_killed (procs s ! i)"

text \<open>\<^verbatim>\<open>reparent\<close>: children go to init, which is woken for each of them.\<close>

definition reparent :: "nat \<Rightarrow> ('a kproc_scheme, unit) routine" where
  "reparent i =
     bnd (gets (\<lambda>s. length (procs s))) (\<lambda>n.
     forM [0..<n] (\<lambda>j.
       bnd (gets (\<lambda>s. p_parent (procs s ! j))) (\<lambda>par.
       whenM (par = Some i)
         (andthen (modify (\<lambda>s. upd_proc j (\<lambda>p. p\<lparr>p_parent := Some (initproc s)\<rparr>) s))
                  (modify (\<lambda>s. wakeup (ChProc (initproc s)) s))))))"

section \<open>The scheduler\<close>

text \<open>
  One slot of the scheduler's scan. \<open>run\<close> stands for \<^verbatim>\<open>swtch\<close> (assembly) and everything
  the process does until it switches back; the flag is \<^verbatim>\<open>found\<close>.
\<close>

definition sched_slot ::
  "(nat \<Rightarrow> 'a kproc_scheme \<Rightarrow> 'a kproc_scheme) \<Rightarrow> nat \<Rightarrow> 'a kproc_scheme \<times> bool \<Rightarrow> 'a kproc_scheme \<times> bool"
where
  "sched_slot run i sf =
     (if p_state (procs (fst sf) ! i) = RUNNABLE
      then ((run i ((upd_proc i (\<lambda>p. p\<lparr>p_state := RUNNING\<rparr>) (fst sf))\<lparr>cur := Some i\<rparr>))\<lparr>cur := None\<rparr>, True)
      else sf)"

definition scheduler_pass ::
  "(nat \<Rightarrow> 'a kproc_scheme \<Rightarrow> 'a kproc_scheme) \<Rightarrow> 'a kproc_scheme \<Rightarrow> 'a kproc_scheme \<times> bool" where
  "scheduler_pass run s =
     foldl (\<lambda>sf i. sched_slot run i sf) (s\<lparr>cur := None\<rparr>, False) [0..<length (procs s)]"

text \<open>What \<^verbatim>\<open>yield\<close> does to the table before it enters the scheduler.\<close>

definition yield :: "'a kproc_scheme \<Rightarrow> 'a kproc_scheme" where
  "yield s = upd_proc (me s) (\<lambda>p. p\<lparr>p_state := RUNNABLE\<rparr>) s"

section \<open>Copying to and from a user or kernel buffer\<close>

text \<open>
  A kernel buffer is the caller's own: what \<^verbatim>\<open>either_copyout\<close> stores there is handed back to
  the caller by the routine that calls it, and \<^verbatim>\<open>either_copyin\<close> takes the bytes from it.
\<close>

datatype copy_dst = ToUser u64 | ToKernel
datatype copy_src = FromUser u64 | FromKernel "u8 list"

definition either_copyout :: "copy_dst \<Rightarrow> u8 list \<Rightarrow> ('a kproc_scheme, int) routine" where
  "either_copyout dst src =
     (case dst of
        ToUser va \<Rightarrow> bnd (gets myproc) (\<lambda>p. copyout (p_sz p) (p_pagetable p) (p_pagetable p) va src)
      | ToKernel \<Rightarrow> ret 0)"

definition either_copyin :: "copy_src \<Rightarrow> nat \<Rightarrow> ('a kproc_scheme, int \<times> u8 list) routine" where
  "either_copyin src len =
     (case src of
        FromUser va \<Rightarrow> bnd (gets myproc) (\<lambda>p. copyin (p_sz p) (p_pagetable p) (p_pagetable p) va len [])
      | FromKernel bs \<Rightarrow> ret (0, take len bs))"

section \<open>The process listing\<close>

definition state_name :: "procstate \<Rightarrow> string" where
  "state_name st = (case st of UNUSED \<Rightarrow> ''unused'' | USED \<Rightarrow> ''used'' | SLEEPING \<Rightarrow> ''sleep ''
     | RUNNABLE \<Rightarrow> ''runble'' | RUNNING \<Rightarrow> ''run   '' | ZOMBIE \<Rightarrow> ''zombie'')"

definition nl :: string where "nl = [CHR 0x0A]"

definition procdump :: "('a kproc_scheme, unit) routine" where
  "procdump =
     andthen (kprintf nl [])
    (bnd (gets procs) (\<lambda>ps.
     forM ps (\<lambda>p.
       whenM (p_state p \<noteq> UNUSED)
         (andthen (kprintf ''%d %s %s'' [AInt (p_pid p), AStr (Some (state_name (p_state p))), AStr (Some (p_name p))])
                  (kprintf nl [])))))"

end
