(* ===== verification/Bio.thy ===== *)
theory Bio
  imports Proc
begin

text \<open>
  Sleep locks (\<^verbatim>\<open>kernel/sleeplock.c\<close>) and the buffer cache (\<^verbatim>\<open>kernel/bio.c\<close>,
  \<^verbatim>\<open>kernel/buf.h\<close>). A \<^verbatim>\<open>struct buf *\<close> is an index into the table of buffers; the circular
  list through \<^verbatim>\<open>prev\<close> and \<^verbatim>\<open>next\<close> is the list \<open>lru\<close> of indices, most recently used first
  (\<^verbatim>\<open>head.next\<close>). The disk driver is a device that stores blocks: a read fills the buffer,
  a write stores it, and \<open>dwrites\<close> records the writes in the order they reach the disk.
\<close>

section \<open>Sleep locks\<close>

record sleeplock =
  sl_locked :: bool
  sl_pid :: int

definition initsleeplock :: sleeplock where
  "initsleeplock = \<lparr>sl_locked = False, sl_pid = 0\<rparr>"

text \<open>
  The lock lies inside a buffer or an inode: \<open>get\<close> and \<open>put\<close> say where, \<open>ch\<close> is its
  address as a sleep channel. A process that finds the lock taken sleeps on it and starts over
  when it is woken.
\<close>

definition acquiresleep ::
  "('a kproc_scheme \<Rightarrow> sleeplock) \<Rightarrow> (sleeplock \<Rightarrow> 'a kproc_scheme \<Rightarrow> 'a kproc_scheme) \<Rightarrow> chan
     \<Rightarrow> ('a kproc_scheme, unit) routine" where
  "acquiresleep get put ch =
     bnd (gets get) (\<lambda>lk.
     if sl_locked lk then sleep ch
     else bnd (gets (\<lambda>s. p_pid (myproc s))) (\<lambda>pid.
          modify (put \<lparr>sl_locked = True, sl_pid = pid\<rparr>)))"

definition releasesleep ::
  "(sleeplock \<Rightarrow> 'a kproc_scheme \<Rightarrow> 'a kproc_scheme) \<Rightarrow> chan \<Rightarrow> ('a kproc_scheme, unit) routine" where
  "releasesleep put ch =
     andthen (modify (put \<lparr>sl_locked = False, sl_pid = 0\<rparr>)) (modify (wakeup ch))"

definition holdingsleep :: "sleeplock \<Rightarrow> 'a kproc_scheme \<Rightarrow> bool" where
  "holdingsleep lk s \<longleftrightarrow> sl_locked lk \<and> sl_pid lk = p_pid (myproc s)"

section \<open>The cache\<close>

definition BSIZE :: nat where [layout_defs]: "BSIZE = 1024"

record buf =
  b_valid :: bool
  b_dev :: u32
  b_blockno :: u32
  b_lock :: sleeplock
  b_refcnt :: u32
  b_data :: "u8 list"

record kbio = kproc +
  disk :: "u32 \<Rightarrow> u8 list"
  dwrites :: "(u32 \<times> u8 list) list"
  bufs :: "buf list"
  lru :: "nat list"

definition upd_buf :: "nat \<Rightarrow> (buf \<Rightarrow> buf) \<Rightarrow> 'a kbio_scheme \<Rightarrow> 'a kbio_scheme" where
  "upd_buf i f s = s\<lparr>bufs := (bufs s)[i := f (bufs s ! i)]\<rparr>"

text \<open>The device: \<^verbatim>\<open>virtio_disk_rw(b, write)\<close>.\<close>

definition virtio_disk_rw :: "nat \<Rightarrow> bool \<Rightarrow> ('a kbio_scheme, unit) routine" where
  "virtio_disk_rw i wr =
     bnd (gets (\<lambda>s. bufs s ! i)) (\<lambda>b.
     if wr then modify (\<lambda>s. s\<lparr>disk := (disk s)(b_blockno b := b_data b),
                              dwrites := dwrites s @ [(b_blockno b, b_data b)]\<rparr>)
     else modify (\<lambda>s. upd_buf i (\<lambda>b. b\<lparr>b_data := disk s (b_blockno b)\<rparr>) s))"

text \<open>\<^verbatim>\<open>binit\<close> links every buffer in at the head of the list.\<close>

definition binit :: "('a kbio_scheme, unit) routine" where
  "binit =
     andthen (modify (\<lambda>s. s\<lparr>lru := []\<rparr>))
    (forM [0..<NBUF] (\<lambda>i.
       andthen (modify (upd_buf i (\<lambda>b. b\<lparr>b_lock := initsleeplock\<rparr>)))
               (modify (\<lambda>s. s\<lparr>lru := i # lru s\<rparr>))))"

fun find_cached :: "buf list \<Rightarrow> u32 \<Rightarrow> u32 \<Rightarrow> nat list \<Rightarrow> nat option" where
  "find_cached bs dev blockno [] = None"
| "find_cached bs dev blockno (i # is) =
     (if b_dev (bs ! i) = dev \<and> b_blockno (bs ! i) = blockno then Some i
      else find_cached bs dev blockno is)"

fun find_recyclable :: "buf list \<Rightarrow> nat list \<Rightarrow> nat option" where
  "find_recyclable bs [] = None"
| "find_recyclable bs (i # is) = (if b_refcnt (bs ! i) = 0 then Some i else find_recyclable bs is)"

definition lock_buf :: "nat \<Rightarrow> ('a kbio_scheme, unit) routine" where
  "lock_buf i = acquiresleep (\<lambda>s. b_lock (bufs s ! i)) (\<lambda>lk. upd_buf i (\<lambda>b. b\<lparr>b_lock := lk\<rparr>)) (ChBuf i)"

definition bget :: "u32 \<Rightarrow> u32 \<Rightarrow> ('a kbio_scheme, nat) routine" where
  "bget dev blockno =
     bnd (gets (\<lambda>s. find_cached (bufs s) dev blockno (lru s))) (\<lambda>hit.
     case hit of
       Some i \<Rightarrow>
         andthen (modify (upd_buf i (\<lambda>b. b\<lparr>b_refcnt := b_refcnt b + 1\<rparr>)))
        (andthen (lock_buf i) (ret i))
     | None \<Rightarrow>
         bnd (gets (\<lambda>s. find_recyclable (bufs s) (rev (lru s)))) (\<lambda>free.
         case free of
           Some i \<Rightarrow>
             andthen (modify (upd_buf i (\<lambda>b. b\<lparr>b_dev := dev, b_blockno := blockno, b_valid := False,
                                              b_refcnt := 1\<rparr>)))
            (andthen (lock_buf i) (ret i))
         | None \<Rightarrow> panic ''bget: no buffers''))"

definition bread :: "u32 \<Rightarrow> u32 \<Rightarrow> ('a kbio_scheme, nat) routine" where
  "bread dev blockno =
     bnd (bget dev blockno) (\<lambda>i.
     bnd (gets (\<lambda>s. b_valid (bufs s ! i))) (\<lambda>valid.
     andthen (whenM (\<not> valid) (andthen (virtio_disk_rw i False)
                                       (modify (upd_buf i (\<lambda>b. b\<lparr>b_valid := True\<rparr>)))))
             (ret i)))"

definition bwrite :: "nat \<Rightarrow> ('a kbio_scheme, unit) routine" where
  "bwrite i =
     bnd (gets (\<lambda>s. holdingsleep (b_lock (bufs s ! i)) s)) (\<lambda>h.
     andthen (panic_if (\<not> h) ''bwrite'') (virtio_disk_rw i True))"

definition brelse :: "nat \<Rightarrow> ('a kbio_scheme, unit) routine" where
  "brelse i =
     bnd (gets (\<lambda>s. holdingsleep (b_lock (bufs s ! i)) s)) (\<lambda>h.
     andthen (panic_if (\<not> h) ''brelse'')
    (andthen (releasesleep (\<lambda>lk. upd_buf i (\<lambda>b. b\<lparr>b_lock := lk\<rparr>)) (ChBuf i))
    (andthen (modify (upd_buf i (\<lambda>b. b\<lparr>b_refcnt := b_refcnt b - 1\<rparr>)))
             (modify (\<lambda>s. if b_refcnt (bufs s ! i) = 0 then s\<lparr>lru := i # remove1 i (lru s)\<rparr> else s)))))"

definition bpin :: "nat \<Rightarrow> 'a kbio_scheme \<Rightarrow> 'a kbio_scheme" where
  "bpin i = upd_buf i (\<lambda>b. b\<lparr>b_refcnt := b_refcnt b + 1\<rparr>)"

definition bunpin :: "nat \<Rightarrow> 'a kbio_scheme \<Rightarrow> 'a kbio_scheme" where
  "bunpin i = upd_buf i (\<lambda>b. b\<lparr>b_refcnt := b_refcnt b - 1\<rparr>)"

section \<open>Words in a block\<close>

text \<open>32-bit and 16-bit fields of the structures stored in a block, at a byte offset.\<close>

definition get32 :: "u8 list \<Rightarrow> nat \<Rightarrow> u32" where
  "get32 d off = le_dec (take 4 (drop off d))"

definition put32 :: "u8 list \<Rightarrow> nat \<Rightarrow> u32 \<Rightarrow> u8 list" where
  "put32 d off v = take off d @ le_enc 4 v @ drop (off + 4) d"

definition get16 :: "u8 list \<Rightarrow> nat \<Rightarrow> u16" where
  "get16 d off = le_dec (take 2 (drop off d))"

definition put16 :: "u8 list \<Rightarrow> nat \<Rightarrow> u16 \<Rightarrow> u8 list" where
  "put16 d off v = take off d @ le_enc 2 v @ drop (off + 2) d"

definition put_bytes :: "u8 list \<Rightarrow> nat \<Rightarrow> u8 list \<Rightarrow> u8 list" where
  "put_bytes d off bs = take off d @ bs @ drop (off + length bs) d"

lemma length_put32 [simp]: "off + 4 \<le> length d \<Longrightarrow> length (put32 d off v) = length d"
  by (simp add: put32_def)

lemma length_put16 [simp]: "off + 2 \<le> length d \<Longrightarrow> length (put16 d off v) = length d"
  by (simp add: put16_def)

lemma length_put_bytes [simp]: "off + length bs \<le> length d \<Longrightarrow> length (put_bytes d off bs) = length d"
  by (simp add: put_bytes_def)

lemma get32_put32_same [simp]: "off + 4 \<le> length d \<Longrightarrow> get32 (put32 d off v) off = v"
  using le_dec_enc [where n = 4 and v = v]
  by (simp add: get32_def put32_def take_bit_word_eq_self)

lemma get32_put32_other:
  "off + 4 \<le> length d \<Longrightarrow> off' + 4 \<le> off \<or> off + 4 \<le> off' \<Longrightarrow> get32 (put32 d off v) off' = get32 d off'"
  by (auto simp: get32_def put32_def drop_take min_def)

end
