(* ===== verification/Log.thy ===== *)
theory Log
  imports Bio
begin

text \<open>
  \<^verbatim>\<open>kernel/log.c\<close>: the redo log. The in-memory log header is the list \<open>lh\<close> of the block
  numbers of the running transaction (\<^verbatim>\<open>lh.block[0..lh.n)\<close>). On disk the header block holds
  the count and the numbers, and the blocks after it hold the logged contents.
\<close>

record klog = kbio +
  lg_start :: u32
  lg_outstanding :: int
  lg_committing :: bool
  lg_dev :: u32
  lh :: "u32 list"

section \<open>The log header on disk\<close>

definition put_header :: "u8 list \<Rightarrow> u32 list \<Rightarrow> u8 list" where
  "put_header d bl =
     foldl (\<lambda>d i. put32 d (4 + 4 * i) (bl ! i)) (put32 d 0 (of_nat (length bl))) [0..<length bl]"

definition get_header :: "u8 list \<Rightarrow> u32 list" where
  "get_header d = map (\<lambda>i. get32 d (4 + 4 * i)) [0..<nat (sint (get32 d 0))]"

definition read_head :: "('a klog_scheme, unit) routine" where
  "read_head =
     bnd (gets (\<lambda>s. (lg_dev s, lg_start s))) (\<lambda>(dev, start).
     bnd (bread dev start) (\<lambda>b.
     andthen (modify (\<lambda>s. s\<lparr>lh := get_header (b_data (bufs s ! b))\<rparr>)) (brelse b)))"

definition write_head :: "('a klog_scheme, unit) routine" where
  "write_head =
     bnd (gets (\<lambda>s. (lg_dev s, lg_start s))) (\<lambda>(dev, start).
     bnd (bread dev start) (\<lambda>b.
     andthen (modify (\<lambda>s. upd_buf b (\<lambda>x. x\<lparr>b_data := put_header (b_data x) (lh s)\<rparr>) s))
    (andthen (bwrite b) (brelse b))))"

section \<open>Copying between the log and the home locations\<close>

text \<open>One iteration each of \<^verbatim>\<open>install_trans\<close> and \<^verbatim>\<open>write_log\<close>.\<close>

definition install_block :: "bool \<Rightarrow> nat \<Rightarrow> ('a klog_scheme, unit) routine" where
  "install_block recovering tail =
     andthen (bnd (gets (\<lambda>s. lh s ! tail)) (\<lambda>dst.
        whenM recovering (kprintf (''recovering tail %d dst %d'' @ nl) [AInt (int tail), AInt (sint dst)])))
    (bnd (gets (\<lambda>s. (lg_dev s, lg_start s, lh s ! tail))) (\<lambda>(dev, start, dst).
     bnd (bread dev (start + of_nat tail + 1)) (\<lambda>lbuf.
     bnd (bread dev dst) (\<lambda>dbuf.
     andthen (modify (\<lambda>s. upd_buf dbuf (\<lambda>x. x\<lparr>b_data := b_data (bufs s ! lbuf)\<rparr>) s))
    (andthen (bwrite dbuf)
    (andthen (whenM (\<not> recovering) (modify (bunpin dbuf)))
    (andthen (brelse lbuf)
             (brelse dbuf))))))))"

definition install_trans :: "bool \<Rightarrow> ('a klog_scheme, unit) routine" where
  "install_trans recovering =
     bnd (gets (\<lambda>s. length (lh s))) (\<lambda>n. forM [0..<n] (install_block recovering))"

definition log_block :: "nat \<Rightarrow> ('a klog_scheme, unit) routine" where
  "log_block tail =
     bnd (gets (\<lambda>s. (lg_dev s, lg_start s, lh s ! tail))) (\<lambda>(dev, start, src).
     bnd (bread dev (start + of_nat tail + 1)) (\<lambda>to.
     bnd (bread dev src) (\<lambda>from.
     andthen (modify (\<lambda>s. upd_buf to (\<lambda>x. x\<lparr>b_data := b_data (bufs s ! from)\<rparr>) s))
    (andthen (bwrite to)
    (andthen (brelse from)
             (brelse to))))))"

definition write_log :: "('a klog_scheme, unit) routine" where
  "write_log = bnd (gets (\<lambda>s. length (lh s))) (\<lambda>n. forM [0..<n] log_block)"

definition commit :: "('a klog_scheme, unit) routine" where
  "commit =
     bnd (gets (\<lambda>s. length (lh s))) (\<lambda>n.
     whenM (n > 0)
      (andthen write_log
      (andthen write_head
      (andthen (install_trans False)
      (andthen (modify (\<lambda>s. s\<lparr>lh := []\<rparr>))
               write_head)))))"

definition recover_from_log :: "('a klog_scheme, unit) routine" where
  "recover_from_log =
     andthen read_head
    (andthen (install_trans True)
    (andthen (modify (\<lambda>s. s\<lparr>lh := []\<rparr>))
             write_head))"

text \<open>
  The size check of \<^verbatim>\<open>initlog\<close> is a constant: a log header takes \<open>4 + 4 * LOGBLOCKS\<close> bytes.
\<close>

definition initlog :: "u32 \<Rightarrow> u32 \<Rightarrow> ('a klog_scheme, unit) routine" where
  "initlog dev logstart =
     andthen (panic_if (4 + 4 * LOGBLOCKS \<ge> BSIZE) ''initlog: too big logheader'')
    (andthen (modify (\<lambda>s. s\<lparr>lg_start := logstart, lg_dev := dev\<rparr>))
             recover_from_log)"

section \<open>Transactions\<close>

definition begin_op :: "('a klog_scheme, unit) routine" where
  "begin_op =
     bnd (gets lg_committing) (\<lambda>committing.
     if committing then sleep ChLog
     else bnd (gets (\<lambda>s. int (length (lh s)) + (lg_outstanding s + 1) * int MAXOPBLOCKS)) (\<lambda>need.
          if need > int LOGBLOCKS then sleep ChLog
          else modify (\<lambda>s. s\<lparr>lg_outstanding := lg_outstanding s + 1\<rparr>)))"

definition end_op :: "('a klog_scheme, unit) routine" where
  "end_op =
     andthen (modify (\<lambda>s. s\<lparr>lg_outstanding := lg_outstanding s - 1\<rparr>))
    (bnd (gets lg_committing) (\<lambda>committing.
     andthen (panic_if committing ''log.committing'')
    (bnd (gets lg_outstanding) (\<lambda>outstanding.
     if outstanding = 0 then
       andthen (modify (\<lambda>s. s\<lparr>lg_committing := True\<rparr>))
      (andthen commit
      (andthen (modify (\<lambda>s. s\<lparr>lg_committing := False\<rparr>))
               (modify (wakeup ChLog))))
     else modify (wakeup ChLog)))))"

definition log_write :: "nat \<Rightarrow> ('a klog_scheme, unit) routine" where
  "log_write b =
     bnd (gets (\<lambda>s. (length (lh s), lg_outstanding s, b_blockno (bufs s ! b)))) (\<lambda>(n, outstanding, blockno).
     andthen (panic_if (n \<ge> LOGBLOCKS) ''too big a transaction'')
    (andthen (panic_if (outstanding < 1) ''log_write outside of trans'')
             (modify (\<lambda>s. if blockno \<in> set (lh s) then s
                           else (bpin b s)\<lparr>lh := lh s @ [blockno]\<rparr>))))"

end
