(* ===== verification/Fs.thy ===== *)
theory Fs
  imports Log
begin

text \<open>
  The file system of \<^verbatim>\<open>kernel/fs.c\<close> and \<^verbatim>\<open>kernel/fs.h\<close>: the block bitmap, inodes on
  disk and in memory, file contents, directories and path names. A \<^verbatim>\<open>struct inode *\<close> is an
  index into the inode table. \<^verbatim>\<open>readi\<close> into a kernel buffer hands the bytes back as part of
  its result. The \<^verbatim>\<open>short\<close> fields are 16-bit words read with \<open>sint\<close> where the code compares
  them with an order.
\<close>

section \<open>The format (fs.h, stat.h)\<close>

definition ROOTINO :: u32 where [layout_defs]: "ROOTINO = 1"
definition FSMAGIC :: u32 where [layout_defs]: "FSMAGIC = 0x10203040"
definition NDIRECT :: nat where [layout_defs]: "NDIRECT = 12"
definition NINDIRECT :: nat where [layout_defs]: "NINDIRECT = BSIZE div 4"
definition MAXFILE :: nat where [layout_defs]: "MAXFILE = NDIRECT + NINDIRECT"
definition IPB :: nat where [layout_defs]: "IPB = BSIZE div 64"
definition BPB :: nat where [layout_defs]: "BPB = BSIZE * 8"
definition DIRSIZ :: nat where [layout_defs]: "DIRSIZ = 14"
definition T_DIR :: u16 where [layout_defs]: "T_DIR = 1"
definition T_FILE :: u16 where [layout_defs]: "T_FILE = 2"
definition T_DEVICE :: u16 where [layout_defs]: "T_DEVICE = 3"

record superblock =
  sb_magic :: u32
  sb_size :: u32
  sb_nblocks :: u32
  sb_ninodes :: u32
  sb_nlog :: u32
  sb_logstart :: u32
  sb_inodestart :: u32
  sb_bmapstart :: u32

record dinode =
  di_type :: u16
  di_major :: u16
  di_minor :: u16
  di_nlink :: u16
  di_size :: u32
  di_addrs :: "u32 list"

record inode =
  i_dev :: u32
  i_inum :: u32
  i_ref :: int
  i_lock :: sleeplock
  i_valid :: bool
  i_type :: u16
  i_major :: u16
  i_minor :: u16
  i_nlink :: u16
  i_size :: u32
  i_addrs :: "u32 list"

record dirent =
  de_inum :: u16
  de_name :: string

record kfs = klog +
  sb :: superblock
  itable :: "inode list"

definition IBLOCK :: "u32 \<Rightarrow> superblock \<Rightarrow> u32" where
  "IBLOCK i b = i div of_nat IPB + sb_inodestart b"

definition BBLOCK :: "u32 \<Rightarrow> superblock \<Rightarrow> u32" where
  "BBLOCK b x = b div of_nat BPB + sb_bmapstart x"

text \<open>The structures as they lie in a block.\<close>

definition get_sb :: "u8 list \<Rightarrow> superblock" where
  "get_sb d = \<lparr>sb_magic = get32 d 0, sb_size = get32 d 4, sb_nblocks = get32 d 8,
     sb_ninodes = get32 d 12, sb_nlog = get32 d 16, sb_logstart = get32 d 20,
     sb_inodestart = get32 d 24, sb_bmapstart = get32 d 28\<rparr>"

definition dinode_off :: "u32 \<Rightarrow> nat" where
  "dinode_off inum = unat inum mod IPB * 64"

definition get_dinode :: "u8 list \<Rightarrow> nat \<Rightarrow> dinode" where
  "get_dinode d o' = \<lparr>di_type = get16 d o', di_major = get16 d (o' + 2), di_minor = get16 d (o' + 4),
     di_nlink = get16 d (o' + 6), di_size = get32 d (o' + 8),
     di_addrs = map (\<lambda>i. get32 d (o' + 12 + 4 * i)) [0..<NDIRECT + 1]\<rparr>"

definition put_dinode :: "u8 list \<Rightarrow> nat \<Rightarrow> dinode \<Rightarrow> u8 list" where
  "put_dinode d o' di = put_bytes d o'
     (le_enc 2 (di_type di) @ le_enc 2 (di_major di) @ le_enc 2 (di_minor di) @ le_enc 2 (di_nlink di)
      @ le_enc 4 (di_size di) @ concat (map (le_enc 4) (di_addrs di)))"

definition get_dirent :: "u8 list \<Rightarrow> dirent" where
  "get_dirent d = \<lparr>de_inum = get16 d 0, de_name = map b2c (take DIRSIZ (drop 2 d))\<rparr>"

definition put_dirent :: "dirent \<Rightarrow> u8 list" where
  "put_dirent de = le_enc 2 (de_inum de) @ map c2b (de_name de)"

section \<open>Blocks\<close>

definition readsb :: "u32 \<Rightarrow> ('a kfs_scheme, unit) routine" where
  "readsb dev =
     bnd (bread dev 1) (\<lambda>bp.
     andthen (modify (\<lambda>s. s\<lparr>sb := get_sb (b_data (bufs s ! bp))\<rparr>)) (brelse bp))"

definition bzero :: "u32 \<Rightarrow> u32 \<Rightarrow> ('a kfs_scheme, unit) routine" where
  "bzero dev bno =
     bnd (bread dev bno) (\<lambda>bp.
     andthen (modify (upd_buf bp (\<lambda>b. b\<lparr>b_data := replicate BSIZE 0\<rparr>)))
    (andthen (log_write bp) (brelse bp)))"

text \<open>The bit of block \<open>bi\<close> in a bitmap block, and the scan for a clear one from \<open>bi\<close> on.\<close>

definition bmap_mask :: "nat \<Rightarrow> u8" where
  "bmap_mask bi = push_bit (bi mod 8) 1"

definition bmap_used :: "u8 list \<Rightarrow> nat \<Rightarrow> bool" where
  "bmap_used d bi \<longleftrightarrow> d ! (bi div 8) AND bmap_mask bi \<noteq> 0"

definition bmap_set :: "u8 list \<Rightarrow> nat \<Rightarrow> u8 list" where
  "bmap_set d bi = d[bi div 8 := d ! (bi div 8) OR bmap_mask bi]"

definition bmap_clear :: "u8 list \<Rightarrow> nat \<Rightarrow> u8 list" where
  "bmap_clear d bi = d[bi div 8 := d ! (bi div 8) AND NOT (bmap_mask bi)]"

definition find_clear :: "u8 list \<Rightarrow> nat \<Rightarrow> nat option" where
  "find_clear d n = List.find (\<lambda>bi. \<not> bmap_used d bi) [0..<n]"

definition balloc :: "u32 \<Rightarrow> ('a kfs_scheme, u32) routine" where
  "balloc dev =
     bnd (gets (\<lambda>s. unat (sb_size (sb s)))) (\<lambda>size.
     bnd (findM (map (\<lambda>k. k * BPB) [0..<(size + BPB - 1) div BPB]) (\<lambda>b.
            bnd (gets (\<lambda>s. BBLOCK (of_nat b) (sb s))) (\<lambda>blk.
            bnd (bread dev blk) (\<lambda>bp.
            bnd (gets (\<lambda>s. find_clear (b_data (bufs s ! bp)) (min BPB (size - b)))) (\<lambda>free.
            case free of
              Some bi \<Rightarrow>
                andthen (modify (upd_buf bp (\<lambda>x. x\<lparr>b_data := bmap_set (b_data x) bi\<rparr>)))
               (andthen (log_write bp)
               (andthen (brelse bp)
               (andthen (bzero dev (of_nat (b + bi)))
                        (ret (Some (of_nat (b + bi)))))))
            | None \<Rightarrow> andthen (brelse bp) (ret None)))))) (\<lambda>r.
     case r of
       Some b \<Rightarrow> ret b
     | None \<Rightarrow> andthen (kprintf (''balloc: out of blocks'' @ nl) []) (ret 0)))"

definition bfree :: "u32 \<Rightarrow> u32 \<Rightarrow> ('a kfs_scheme, unit) routine" where
  "bfree dev b =
     bnd (gets (\<lambda>s. BBLOCK b (sb s))) (\<lambda>blk.
     bnd (bread dev blk) (\<lambda>bp.
     let bi = unat b mod BPB in
     bnd (gets (\<lambda>s. bmap_used (b_data (bufs s ! bp)) bi)) (\<lambda>used.
     andthen (panic_if (\<not> used) ''freeing free block'')
    (andthen (modify (upd_buf bp (\<lambda>x. x\<lparr>b_data := bmap_clear (b_data x) bi\<rparr>)))
    (andthen (log_write bp) (brelse bp))))))"

section \<open>Inodes\<close>

definition upd_inode :: "nat \<Rightarrow> (inode \<Rightarrow> inode) \<Rightarrow> 'a kfs_scheme \<Rightarrow> 'a kfs_scheme" where
  "upd_inode i f s = s\<lparr>itable := (itable s)[i := f (itable s ! i)]\<rparr>"

definition iinit :: "('a kfs_scheme, unit) routine" where
  "iinit = forM [0..<NINODE] (\<lambda>i. modify (upd_inode i (\<lambda>ip. ip\<lparr>i_lock := initsleeplock\<rparr>)))"

text \<open>
  The scan of \<^verbatim>\<open>iget\<close>: the entry that holds the inode (\<open>Inl\<close>), or else the first empty
  entry, if any (\<open>Inr\<close>).
\<close>

fun iget_scan :: "u32 \<Rightarrow> u32 \<Rightarrow> inode list \<Rightarrow> nat \<Rightarrow> nat option \<Rightarrow> nat + nat option" where
  "iget_scan dev inum [] i emp = Inr emp"
| "iget_scan dev inum (ip # ips) i emp =
     (if i_ref ip > 0 \<and> i_dev ip = dev \<and> i_inum ip = inum then Inl i
      else iget_scan dev inum ips (Suc i)
             (if emp = None \<and> i_ref ip = 0 then Some i else emp))"

definition iget :: "u32 \<Rightarrow> u32 \<Rightarrow> ('a kfs_scheme, nat) routine" where
  "iget dev inum =
     bnd (gets (\<lambda>s. iget_scan dev inum (itable s) 0 None)) (\<lambda>r.
     case r of
       Inl i \<Rightarrow> andthen (modify (upd_inode i (\<lambda>ip. ip\<lparr>i_ref := i_ref ip + 1\<rparr>))) (ret i)
     | Inr None \<Rightarrow> panic ''iget: no inodes''
     | Inr (Some i) \<Rightarrow>
         andthen (modify (upd_inode i (\<lambda>ip. ip\<lparr>i_dev := dev, i_inum := inum, i_ref := 1, i_valid := False\<rparr>)))
                 (ret i))"

definition ialloc :: "u32 \<Rightarrow> u16 \<Rightarrow> ('a kfs_scheme, nat option) routine" where
  "ialloc dev type =
     bnd (gets (\<lambda>s. unat (sb_ninodes (sb s)))) (\<lambda>n.
     bnd (findM [1..<n] (\<lambda>inum.
            bnd (gets (\<lambda>s. IBLOCK (of_nat inum) (sb s))) (\<lambda>blk.
            bnd (bread dev blk) (\<lambda>bp.
            bnd (gets (\<lambda>s. di_type (get_dinode (b_data (bufs s ! bp)) (dinode_off (of_nat inum))))) (\<lambda>ty.
            if ty = 0 then
              andthen (modify (upd_buf bp (\<lambda>b. b\<lparr>b_data :=
                 put_bytes (b_data b) (dinode_off (of_nat inum)) (le_enc 2 type @ replicate 62 0)\<rparr>)))
             (andthen (log_write bp)
             (andthen (brelse bp)
             (bnd (iget dev (of_nat inum)) (\<lambda>ip. ret (Some ip)))))
            else andthen (brelse bp) (ret None)))))) (\<lambda>r.
     case r of
       Some ip \<Rightarrow> ret (Some ip)
     | None \<Rightarrow> andthen (kprintf (''ialloc: no inodes'' @ nl) []) (ret None)))"

definition dinode_of :: "inode \<Rightarrow> dinode" where
  "dinode_of ip = \<lparr>di_type = i_type ip, di_major = i_major ip, di_minor = i_minor ip,
     di_nlink = i_nlink ip, di_size = i_size ip, di_addrs = i_addrs ip\<rparr>"

definition iupdate :: "nat \<Rightarrow> ('a kfs_scheme, unit) routine" where
  "iupdate i =
     bnd (gets (\<lambda>s. (itable s ! i, IBLOCK (i_inum (itable s ! i)) (sb s)))) (\<lambda>(ip, blk).
     bnd (bread (i_dev ip) blk) (\<lambda>bp.
     andthen (modify (upd_buf bp (\<lambda>b. b\<lparr>b_data := put_dinode (b_data b) (dinode_off (i_inum ip)) (dinode_of ip)\<rparr>)))
    (andthen (log_write bp) (brelse bp))))"

definition idup :: "nat \<Rightarrow> ('a kfs_scheme, nat) routine" where
  "idup i = andthen (modify (upd_inode i (\<lambda>ip. ip\<lparr>i_ref := i_ref ip + 1\<rparr>))) (ret i)"

definition lock_inode :: "nat \<Rightarrow> ('a kfs_scheme, unit) routine" where
  "lock_inode i =
     acquiresleep (\<lambda>s. i_lock (itable s ! i)) (\<lambda>lk. upd_inode i (\<lambda>ip. ip\<lparr>i_lock := lk\<rparr>)) (ChInode i)"

definition unlock_inode :: "nat \<Rightarrow> ('a kfs_scheme, unit) routine" where
  "unlock_inode i = releasesleep (\<lambda>lk. upd_inode i (\<lambda>ip. ip\<lparr>i_lock := lk\<rparr>)) (ChInode i)"

definition fill_inode :: "dinode \<Rightarrow> inode \<Rightarrow> inode" where
  "fill_inode di ip = ip\<lparr>i_type := di_type di, i_major := di_major di, i_minor := di_minor di,
     i_nlink := di_nlink di, i_size := di_size di, i_addrs := di_addrs di\<rparr>"

definition ilock :: "nat \<Rightarrow> ('a kfs_scheme, unit) routine" where
  "ilock i =
     bnd (gets (\<lambda>s. i_ref (itable s ! i))) (\<lambda>ref.
     andthen (panic_if (ref < 1) ''ilock'')
    (andthen (lock_inode i)
    (bnd (gets (\<lambda>s. itable s ! i)) (\<lambda>ip.
     whenM (\<not> i_valid ip)
       (bnd (gets (\<lambda>s. IBLOCK (i_inum ip) (sb s))) (\<lambda>blk.
        bnd (bread (i_dev ip) blk) (\<lambda>bp.
        andthen (modify (\<lambda>s. upd_inode i (fill_inode (get_dinode (b_data (bufs s ! bp)) (dinode_off (i_inum ip)))) s))
       (andthen (brelse bp)
       (andthen (modify (upd_inode i (\<lambda>ip. ip\<lparr>i_valid := True\<rparr>)))
       (bnd (gets (\<lambda>s. i_type (itable s ! i))) (\<lambda>ty.
        panic_if (ty = 0) ''ilock: no type'')))))))))))"

definition iunlock :: "nat \<Rightarrow> ('a kfs_scheme, unit) routine" where
  "iunlock i =
     bnd (gets (\<lambda>s. \<not> holdingsleep (i_lock (itable s ! i)) s \<or> i_ref (itable s ! i) < 1)) (\<lambda>bad.
     andthen (panic_if bad ''iunlock'') (unlock_inode i))"

section \<open>Inode content\<close>

text \<open>\<^verbatim>\<open>bmap\<close>, the direct and the indirect half.\<close>

definition bmap_direct :: "nat \<Rightarrow> nat \<Rightarrow> ('a kfs_scheme, u32) routine" where
  "bmap_direct i bn =
     bnd (gets (\<lambda>s. itable s ! i)) (\<lambda>ip.
     if i_addrs ip ! bn = 0 then
       bnd (balloc (i_dev ip)) (\<lambda>addr.
       if addr = 0 then ret 0
       else andthen (modify (upd_inode i (\<lambda>ip. ip\<lparr>i_addrs := (i_addrs ip)[bn := addr]\<rparr>))) (ret addr))
     else ret (i_addrs ip ! bn))"

definition bmap_entry :: "nat \<Rightarrow> u32 \<Rightarrow> nat \<Rightarrow> ('a kfs_scheme, u32) routine" where
  "bmap_entry i ind bn =
     bnd (gets (\<lambda>s. i_dev (itable s ! i))) (\<lambda>dev.
     bnd (bread dev ind) (\<lambda>bp.
     bnd (gets (\<lambda>s. get32 (b_data (bufs s ! bp)) (4 * bn))) (\<lambda>addr.
     if addr = 0 then
       bnd (balloc dev) (\<lambda>addr.
       andthen (whenM (addr \<noteq> 0)
          (andthen (modify (upd_buf bp (\<lambda>b. b\<lparr>b_data := put32 (b_data b) (4 * bn) addr\<rparr>)))
                   (log_write bp)))
      (andthen (brelse bp) (ret addr)))
     else andthen (brelse bp) (ret addr))))"

definition bmap :: "nat \<Rightarrow> nat \<Rightarrow> ('a kfs_scheme, u32) routine" where
  "bmap i bn =
     (if bn < NDIRECT then bmap_direct i bn
      else if bn - NDIRECT < NINDIRECT then
        bnd (bmap_direct i NDIRECT) (\<lambda>ind.
        if ind = 0 then ret 0 else bmap_entry i ind (bn - NDIRECT))
      else panic ''bmap: out of range'')"

definition itrunc :: "nat \<Rightarrow> ('a kfs_scheme, unit) routine" where
  "itrunc i =
     andthen (forM [0..<NDIRECT] (\<lambda>k.
       bnd (gets (\<lambda>s. itable s ! i)) (\<lambda>ip.
       whenM (i_addrs ip ! k \<noteq> 0)
         (andthen (bfree (i_dev ip) (i_addrs ip ! k))
                  (modify (upd_inode i (\<lambda>ip. ip\<lparr>i_addrs := (i_addrs ip)[k := 0]\<rparr>)))))))
    (andthen (bnd (gets (\<lambda>s. itable s ! i)) (\<lambda>ip.
       whenM (i_addrs ip ! NDIRECT \<noteq> 0)
         (bnd (bread (i_dev ip) (i_addrs ip ! NDIRECT)) (\<lambda>bp.
          andthen (forM [0..<NINDIRECT] (\<lambda>j.
            bnd (gets (\<lambda>s. get32 (b_data (bufs s ! bp)) (4 * j))) (\<lambda>a.
            whenM (a \<noteq> 0) (bfree (i_dev ip) a))))
         (andthen (brelse bp)
         (andthen (bfree (i_dev ip) (i_addrs ip ! NDIRECT))
                  (modify (upd_inode i (\<lambda>ip. ip\<lparr>i_addrs := (i_addrs ip)[NDIRECT := 0]\<rparr>)))))))))
    (andthen (modify (upd_inode i (\<lambda>ip. ip\<lparr>i_size := 0\<rparr>)))
             (iupdate i)))"

definition iput :: "nat \<Rightarrow> ('a kfs_scheme, unit) routine" where
  "iput i =
     bnd (gets (\<lambda>s. itable s ! i)) (\<lambda>ip.
     andthen (whenM (i_ref ip = 1 \<and> i_valid ip \<and> i_nlink ip = 0)
       (andthen (lock_inode i)
       (andthen (itrunc i)
       (andthen (modify (upd_inode i (\<lambda>ip. ip\<lparr>i_type := 0\<rparr>)))
       (andthen (iupdate i)
       (andthen (modify (upd_inode i (\<lambda>ip. ip\<lparr>i_valid := False\<rparr>)))
                (unlock_inode i)))))))
      (modify (upd_inode i (\<lambda>ip. ip\<lparr>i_ref := i_ref ip - 1\<rparr>))))"

definition iunlockput :: "nat \<Rightarrow> ('a kfs_scheme, unit) routine" where
  "iunlockput i = andthen (iunlock i) (iput i)"

definition ireclaim :: "u32 \<Rightarrow> ('a kfs_scheme, unit) routine" where
  "ireclaim dev =
     bnd (gets (\<lambda>s. unat (sb_ninodes (sb s)))) (\<lambda>n.
     forM [1..<n] (\<lambda>inum.
       bnd (gets (\<lambda>s. IBLOCK (of_nat inum) (sb s))) (\<lambda>blk.
       bnd (bread dev blk) (\<lambda>bp.
       bnd (gets (\<lambda>s. get_dinode (b_data (bufs s ! bp)) (dinode_off (of_nat inum)))) (\<lambda>di.
       bnd (if di_type di \<noteq> 0 \<and> di_nlink di = 0
            then andthen (kprintf (''ireclaim: orphaned inode %d'' @ nl) [AInt (int inum)])
                         (bnd (iget dev (of_nat inum)) (\<lambda>ip. ret (Some ip)))
            else ret None) (\<lambda>ip.
       andthen (brelse bp)
      (case ip of
         None \<Rightarrow> skip
       | Some ip \<Rightarrow> andthen begin_op
                   (andthen (ilock ip)
                   (andthen (iunlock ip)
                   (andthen (iput ip)
                            end_op))))))))))"

definition fsinit :: "u32 \<Rightarrow> ('a kfs_scheme, unit) routine" where
  "fsinit dev =
     andthen (readsb dev)
    (bnd (gets sb) (\<lambda>x.
     andthen (panic_if (sb_magic x \<noteq> FSMAGIC) ''invalid file system'')
    (andthen (initlog dev (sb_logstart x))
             (ireclaim dev))))"

section \<open>Reading and writing\<close>

definition dst_add :: "copy_dst \<Rightarrow> nat \<Rightarrow> copy_dst" where
  "dst_add dst m = (case dst of ToUser va \<Rightarrow> ToUser (va + of_nat m) | ToKernel \<Rightarrow> ToKernel)"

definition src_add :: "copy_src \<Rightarrow> nat \<Rightarrow> copy_src" where
  "src_add src m = (case src of FromUser va \<Rightarrow> FromUser (va + of_nat m) | FromKernel bs \<Rightarrow> FromKernel (drop m bs))"

record stat =
  st_dev :: u32
  st_ino :: u32
  st_type :: u16
  st_nlink :: u16
  st_size :: u64

definition stati :: "inode \<Rightarrow> stat" where
  "stati ip = \<lparr>st_dev = i_dev ip, st_ino = i_inum ip, st_type = i_type ip, st_nlink = i_nlink ip,
     st_size = ucast (i_size ip)\<rparr>"

text \<open>
  The loops of \<^verbatim>\<open>readi\<close> and \<^verbatim>\<open>writei\<close>; \<open>tot\<close> of \<open>n\<close> bytes are done. The bound
  \<open>off + n\<close> has been checked for overflow before, so that the counters do not wrap. A chunk
  \<open>m\<close> ends at the end of the block. Beyond \<open>MAXFILE\<close> blocks \<^verbatim>\<open>bmap\<close> panics, so that a
  count that is returned is far below \<open>2 ^ 31\<close> and its conversion to \<^verbatim>\<open>int\<close> is exact.
\<close>

definition blk_chunk :: "nat \<Rightarrow> nat \<Rightarrow> nat" where
  "blk_chunk left off = min left (BSIZE - off mod BSIZE)"

lemma blk_chunk_pos: "0 < left \<Longrightarrow> 0 < blk_chunk left off"
  by (simp add: blk_chunk_def BSIZE_def)

function readi_loop ::
  "nat \<Rightarrow> copy_dst \<Rightarrow> nat \<Rightarrow> nat \<Rightarrow> nat \<Rightarrow> u8 list \<Rightarrow> ('a kfs_scheme, int \<times> u8 list) routine"
where
  "readi_loop i dst off n tot acc =
     (if tot < n then
        bnd (bmap i (off div BSIZE)) (\<lambda>addr.
        if addr = 0 then ret (int tot, acc)
        else
          bnd (gets (\<lambda>s. i_dev (itable s ! i))) (\<lambda>dev.
          bnd (bread dev addr) (\<lambda>bp.
          let m = blk_chunk (n - tot) off in
          bnd (gets (\<lambda>s. take m (drop (off mod BSIZE) (b_data (bufs s ! bp))))) (\<lambda>data.
          bnd (either_copyout dst data) (\<lambda>r.
          if r = -1 then andthen (brelse bp) (ret (-1, acc))
          else andthen (brelse bp) (readi_loop i (dst_add dst m) (off + m) n (tot + m) (acc @ data)))))))
      else ret (int tot, acc))"
  by pat_completeness auto
termination
proof (relation "measure (\<lambda>(i, dst, off, n, tot, acc). n - tot)", goal_cases)
  case 1
  show ?case by simp
next
  case (2 i dst off n tot acc)
  then show ?case using blk_chunk_pos [of "n - tot" off] by simp
qed

declare readi_loop.simps [simp del]

definition readi :: "nat \<Rightarrow> copy_dst \<Rightarrow> u32 \<Rightarrow> u32 \<Rightarrow> ('a kfs_scheme, int \<times> u8 list) routine" where
  "readi i dst off n =
     bnd (gets (\<lambda>s. i_size (itable s ! i))) (\<lambda>size.
     if off > size \<or> off + n < off then ret (0, [])
     else let n = (if off + n > size then size - off else n) in
          readi_loop i dst (unat off) (unat n) 0 [])"

text \<open>The result pairs the bytes written with the offset reached, which becomes the size.\<close>

function writei_loop ::
  "nat \<Rightarrow> copy_src \<Rightarrow> nat \<Rightarrow> nat \<Rightarrow> nat \<Rightarrow> ('a kfs_scheme, nat \<times> nat) routine"
where
  "writei_loop i src off n tot =
     (if tot < n then
        bnd (bmap i (off div BSIZE)) (\<lambda>addr.
        if addr = 0 then ret (tot, off)
        else
          bnd (gets (\<lambda>s. i_dev (itable s ! i))) (\<lambda>dev.
          bnd (bread dev addr) (\<lambda>bp.
          let m = blk_chunk (n - tot) off in
          bnd (either_copyin src m) (\<lambda>(r, data).
          andthen (modify (upd_buf bp (\<lambda>b. b\<lparr>b_data := put_bytes (b_data b) (off mod BSIZE) data\<rparr>)))
         (if r = -1 then andthen (brelse bp) (ret (tot, off))
          else andthen (log_write bp)
              (andthen (brelse bp) (writei_loop i (src_add src m) (off + m) n (tot + m))))))))
      else ret (tot, off))"
  by pat_completeness auto
termination
proof (relation "measure (\<lambda>(i, src, off, n, tot). n - tot)", goal_cases)
  case 1
  show ?case by simp
next
  case (2 i src off n tot)
  then show ?case using blk_chunk_pos [of "n - tot" off] by simp
qed

declare writei_loop.simps [simp del]

definition writei :: "nat \<Rightarrow> copy_src \<Rightarrow> u32 \<Rightarrow> u32 \<Rightarrow> ('a kfs_scheme, int) routine" where
  "writei i src off n =
     bnd (gets (\<lambda>s. i_size (itable s ! i))) (\<lambda>size.
     if off > size \<or> off + n < off then ret (-1)
     else if unat (off + n) > MAXFILE * BSIZE then ret (-1)
     else bnd (writei_loop i src (unat off) (unat n) 0) (\<lambda>(tot, off).
          andthen (modify (upd_inode i (\<lambda>ip. if off > unat (i_size ip) then ip\<lparr>i_size := of_nat off\<rparr> else ip)))
         (andthen (iupdate i) (ret (int tot)))))"

section \<open>Directories\<close>

definition namecmp :: "string \<Rightarrow> string \<Rightarrow> int" where
  "namecmp s t = strncmp s t DIRSIZ"

definition dirent_offs :: "u32 \<Rightarrow> nat list" where
  "dirent_offs sz = map (\<lambda>k. 16 * k) [0..<(unat sz + 15) div 16]"

definition read_dirent :: "nat \<Rightarrow> nat \<Rightarrow> string \<Rightarrow> ('a kfs_scheme, dirent) routine" where
  "read_dirent dp off msg =
     bnd (readi dp ToKernel (of_nat off) 16) (\<lambda>(r, bs).
     andthen (panic_if (r \<noteq> 16) msg) (ret (get_dirent bs)))"

text \<open>\<^verbatim>\<open>dirlookup\<close> returns the inode together with the offset it stores through \<^verbatim>\<open>poff\<close>.\<close>

definition dirlookup :: "nat \<Rightarrow> string \<Rightarrow> ('a kfs_scheme, (nat \<times> nat) option) routine" where
  "dirlookup dp name =
     bnd (gets (\<lambda>s. itable s ! dp)) (\<lambda>d.
     andthen (panic_if (i_type d \<noteq> T_DIR) ''dirlookup not DIR'')
    (findM (dirent_offs (i_size d)) (\<lambda>off.
       bnd (read_dirent dp off ''dirlookup read'') (\<lambda>de.
       if de_inum de = 0 then ret None
       else if namecmp name (de_name de) = 0
       then bnd (iget (i_dev d) (ucast (de_inum de))) (\<lambda>ip. ret (Some (ip, off)))
       else ret None))))"

definition dirlink :: "nat \<Rightarrow> string \<Rightarrow> u32 \<Rightarrow> ('a kfs_scheme, int) routine" where
  "dirlink dp name inum =
     bnd (dirlookup dp name) (\<lambda>r.
     case r of
       Some (ip, _) \<Rightarrow> andthen (iput ip) (ret (-1))
     | None \<Rightarrow>
         bnd (gets (\<lambda>s. i_size (itable s ! dp))) (\<lambda>size.
         bnd (findM (dirent_offs size) (\<lambda>off.
                bnd (read_dirent dp off ''dirlink read'') (\<lambda>de.
                ret (if de_inum de = 0 then Some off else None)))) (\<lambda>free.
         let off = (case free of Some off \<Rightarrow> off | None \<Rightarrow> 16 * length (dirent_offs size));
             de = \<lparr>de_inum = ucast inum, de_name = strncpy (replicate DIRSIZ NUL) name DIRSIZ\<rparr> in
         bnd (writei dp (FromKernel (put_dirent de)) (of_nat off) 16) (\<lambda>w.
         ret (if w \<noteq> 16 then -1 else 0)))))"

section \<open>Paths\<close>

text \<open>
  \<^verbatim>\<open>skipelem\<close> returns the rest of the path and the string it leaves in \<^verbatim>\<open>name\<close>: the
  element, cut to \<open>DIRSIZ\<close> characters.
\<close>

definition slash :: char where "slash = CHR ''/''"

definition skipelem :: "string \<Rightarrow> (string \<times> string) option" where
  "skipelem path =
     (let path = dropWhile (\<lambda>c. c = slash) path in
      if cs_hd path = NUL then None
      else let elem = takeWhile (\<lambda>c. c \<noteq> slash \<and> c \<noteq> NUL) path;
               rest = dropWhile (\<lambda>c. c \<noteq> slash \<and> c \<noteq> NUL) path in
           Some (dropWhile (\<lambda>c. c = slash) rest, take DIRSIZ elem))"

lemma skipelem_shorter: "skipelem path = Some (rest, name) \<Longrightarrow> length rest < length path"
proof -
  assume a: "skipelem path = Some (rest, name)"
  define p where "p = dropWhile (\<lambda>c. c = slash) path"
  have p: "cs_hd p \<noteq> NUL" and r: "rest = dropWhile (\<lambda>c. c = slash) (dropWhile (\<lambda>c. c \<noteq> slash \<and> c \<noteq> NUL) p)"
    using a by (auto simp: skipelem_def p_def Let_def split: if_splits)
  from p obtain c q where q: "p = c # q" "c \<noteq> NUL" by (cases p) (auto simp: cs_hd_def)
  have "c \<noteq> slash" using q(1) hd_dropWhile [of "\<lambda>c. c = slash" path] by (auto simp: p_def)
  then have "length rest \<le> length q"
    using q r by (auto intro: order_trans [OF length_dropWhile_le length_dropWhile_le])
  also have "length q < length path"
    using q(1) length_dropWhile_le [of "\<lambda>c. c = slash" path] by (simp add: p_def)
  finally show ?thesis .
qed

text \<open>
  The loop of \<^verbatim>\<open>namex\<close>. The result is the inode, or NULL, and the last element left in
  \<^verbatim>\<open>name\<close>.
\<close>

function namex_loop :: "bool \<Rightarrow> string \<Rightarrow> string \<Rightarrow> nat \<Rightarrow> ('a kfs_scheme, (nat \<times> string) option) routine"
where
  "namex_loop nameiparent path name ip =
     (case skipelem path of
        None \<Rightarrow> if nameiparent then andthen (iput ip) (ret None) else ret (Some (ip, name))
      | Some (rest, name) \<Rightarrow>
          andthen (ilock ip)
         (bnd (gets (\<lambda>s. i_type (itable s ! ip))) (\<lambda>ty.
          if ty \<noteq> T_DIR then andthen (iunlockput ip) (ret None)
          else if nameiparent \<and> cs_hd rest = NUL then andthen (iunlock ip) (ret (Some (ip, name)))
          else bnd (dirlookup ip name) (\<lambda>r.
               case r of
                 None \<Rightarrow> andthen (iunlockput ip) (ret None)
               | Some (next, _) \<Rightarrow>
                   andthen (iunlockput ip) (namex_loop nameiparent rest name next)))))"
  by pat_completeness auto
termination
  by (relation "measure (\<lambda>(np, path, name, ip). length path)") (auto simp: skipelem_shorter)

declare namex_loop.simps [simp del]

text \<open>A process without a current directory would follow a null pointer: a kernel page fault.\<close>

definition namex :: "string \<Rightarrow> bool \<Rightarrow> ('a kfs_scheme, (nat \<times> string) option) routine" where
  "namex path nameiparent =
     bnd (if cs_hd path = slash then iget ROOTDEV ROOTINO
          else bnd (gets (\<lambda>s. p_cwd (myproc s))) (\<lambda>cwd.
               case cwd of Some c \<Rightarrow> idup c | None \<Rightarrow> panic ''kerneltrap''))
       (namex_loop nameiparent path [])"

definition namei :: "string \<Rightarrow> ('a kfs_scheme, nat option) routine" where
  "namei path = bnd (namex path False) (\<lambda>r. ret (map_option fst r))"

definition nameiparent :: "string \<Rightarrow> ('a kfs_scheme, (nat \<times> string) option) routine" where
  "nameiparent path = namex path True"

end
