(* ===== verification/Console.thy ===== *)
theory Console
  imports Fs
begin

text \<open>
  The console (\<^verbatim>\<open>kernel/console.c\<close>) and the part of the UART driver above the device
  registers (\<^verbatim>\<open>kernel/uart.c\<close>). A byte stored in the transmit register is appended to
  \<open>console\<close>. What the device reports (transmitter idle, received bytes) is an argument of
  the interrupt handler.
\<close>

definition INPUT_BUF_SIZE :: nat where [layout_defs]: "INPUT_BUF_SIZE = 128"

record kcons = kfs +
  cons_buf :: "u8 list"
  cons_r :: u32
  cons_w :: u32
  cons_e :: u32
  tx_busy :: bool

section \<open>Output\<close>

definition uart_thr :: "u8 \<Rightarrow> 'a kproc_scheme \<Rightarrow> 'a kproc_scheme" where
  "uart_thr c s = s\<lparr>console := console s @ [b2c c]\<rparr>"

definition uartputc_sync :: "u8 \<Rightarrow> ('a kcons_scheme, unit) routine" where
  "uartputc_sync c = modify (uart_thr c)"

text \<open>\<open>None\<close> is the code \<^verbatim>\<open>BACKSPACE\<close>, which is no character.\<close>

definition consputc :: "u8 option \<Rightarrow> ('a kcons_scheme, unit) routine" where
  "consputc c =
     (case c of
        None \<Rightarrow> andthen (uartputc_sync 8) (andthen (uartputc_sync 32) (uartputc_sync 8))
      | Some c \<Rightarrow> uartputc_sync c)"

definition uartwrite :: "u8 list \<Rightarrow> ('a kcons_scheme, unit) routine" where
  "uartwrite bs =
     forM bs (\<lambda>c.
       bnd (gets tx_busy) (\<lambda>busy.
       if busy then sleep ChUartTx
       else andthen (modify (uart_thr c)) (modify (\<lambda>s. s\<lparr>tx_busy := True\<rparr>))))"

function consolewrite_loop :: "copy_src \<Rightarrow> nat \<Rightarrow> nat \<Rightarrow> ('a kcons_scheme, int) routine" where
  "consolewrite_loop src n i =
     (if i < n then
        let nn = min 32 (n - i) in
        bnd (either_copyin src nn) (\<lambda>(r, data).
        if r = -1 then ret (int i)
        else andthen (uartwrite data) (consolewrite_loop (src_add src nn) n (i + nn)))
      else ret (int i))"
  by pat_completeness auto
termination
  by (relation "measure (\<lambda>(src, n, i). n - i)") auto

declare consolewrite_loop.simps [simp del]

definition consolewrite :: "copy_src \<Rightarrow> int \<Rightarrow> ('a kcons_scheme, int) routine" where
  "consolewrite src n = consolewrite_loop src (nat n) 0"

section \<open>Input\<close>

definition cons_at :: "u32 \<Rightarrow> 'a kcons_scheme \<Rightarrow> u8" where
  "cons_at k s = cons_buf s ! (unat k mod INPUT_BUF_SIZE)"

definition ctrl_D :: u8 where "ctrl_D = 4"
definition ctrl_H :: u8 where "ctrl_H = 8"
definition ctrl_P :: u8 where "ctrl_P = 16"
definition ctrl_U :: u8 where "ctrl_U = 21"
definition DEL :: u8 where "DEL = 127"
definition LF :: u8 where "LF = 10"
definition CR :: u8 where "CR = 13"

fun consoleread_loop :: "copy_dst \<Rightarrow> nat \<Rightarrow> nat \<Rightarrow> ('a kcons_scheme, int) routine" where
  "consoleread_loop dst target 0 = ret (int target)"
| "consoleread_loop dst target (Suc n) =
     bnd (gets (\<lambda>s. cons_r s = cons_w s)) (\<lambda>empty_buf.
     if empty_buf then
       bnd (gets (\<lambda>s. killed (me s) s)) (\<lambda>k. if k \<noteq> 0 then ret (-1) else sleep ChCons)
     else
       bnd (gets (\<lambda>s. cons_at (cons_r s) s)) (\<lambda>c.
       andthen (modify (\<lambda>s. s\<lparr>cons_r := cons_r s + 1\<rparr>))
      (if c = ctrl_D then
         andthen (whenM (Suc n < target) (modify (\<lambda>s. s\<lparr>cons_r := cons_r s - 1\<rparr>)))
                 (ret (int target - int (Suc n)))
       else
         bnd (either_copyout dst [c]) (\<lambda>r.
         if r = -1 then ret (int target - int (Suc n))
         else if c = LF then ret (int target - int n)
         else consoleread_loop (dst_add dst 1) target n))))"

definition consoleread :: "copy_dst \<Rightarrow> int \<Rightarrow> ('a kcons_scheme, int) routine" where
  "consoleread dst n = (if n > 0 then consoleread_loop dst (nat n) (nat n) else ret 0)"

text \<open>The loop of control-U; it stops at the write index or after a newline.\<close>

function kill_line :: "('a kcons_scheme, unit) routine" where
  "kill_line s =
     (if cons_e s \<noteq> cons_w s \<and> cons_at (cons_e s - 1) s \<noteq> LF
      then kill_line (foldl (\<lambda>s c. uart_thr c s) (s\<lparr>cons_e := cons_e s - 1\<rparr>) [8, 32, 8])
      else Inr ((), s))"
  by pat_completeness auto
termination
proof (relation "measure (\<lambda>s. unat (cons_e s - cons_w s))", goal_cases)
  case 1
  show ?case by simp
next
  case (2 s)
  then have "cons_e s - cons_w s \<noteq> 0" by simp
  then have "unat (cons_e s - cons_w s - 1) < unat (cons_e s - cons_w s)"
    by (metis diff_less less_numeral_extra(1) unat_gt_0 unat_minus_one)
  then show ?case by (simp add: uart_thr_def diff_right_commute [of "cons_e s" 1])
qed

declare kill_line.simps [simp del]

definition cons_store :: "u8 \<Rightarrow> ('a kcons_scheme, unit) routine" where
  "cons_store c =
     andthen (consputc (Some c))
    (andthen (modify (\<lambda>s. s\<lparr>cons_buf := (cons_buf s)[unat (cons_e s) mod INPUT_BUF_SIZE := c],
                            cons_e := cons_e s + 1\<rparr>))
    (bnd (gets (\<lambda>s. cons_e s - cons_r s)) (\<lambda>used.
     whenM (c = LF \<or> c = ctrl_D \<or> unat used = INPUT_BUF_SIZE)
       (andthen (modify (\<lambda>s. s\<lparr>cons_w := cons_e s\<rparr>)) (modify (wakeup ChCons))))))"

definition consoleintr :: "u8 \<Rightarrow> ('a kcons_scheme, unit) routine" where
  "consoleintr c =
     (if c = ctrl_P then procdump
      else if c = ctrl_U then kill_line
      else if c = ctrl_H \<or> c = DEL then
        bnd (gets (\<lambda>s. cons_e s \<noteq> cons_w s)) (\<lambda>ne.
        whenM ne (andthen (modify (\<lambda>s. s\<lparr>cons_e := cons_e s - 1\<rparr>)) (consputc None)))
      else
        bnd (gets (\<lambda>s. cons_e s - cons_r s)) (\<lambda>used.
        whenM (c \<noteq> 0 \<and> unat used < INPUT_BUF_SIZE) (cons_store (if c = CR then LF else c))))"

text \<open>The UART interrupt: the transmitter may have become idle, and bytes may have arrived.\<close>

definition uartintr :: "bool \<Rightarrow> u8 list \<Rightarrow> ('a kcons_scheme, unit) routine" where
  "uartintr tx_idle received =
     andthen (whenM tx_idle (andthen (modify (\<lambda>s. s\<lparr>tx_busy := False\<rparr>)) (modify (wakeup ChUartTx))))
             (forM received consoleintr)"

end
