(* ===== verification/Pipe.thy ===== *)
theory Pipe
  imports Console
begin

text \<open>
  Pipes (\<^verbatim>\<open>kernel/pipe.c\<close>). A \<^verbatim>\<open>struct pipe\<close> lives in a page of its own; pipes are a heap
  indexed by the address of that page. The two counters wrap around at \<open>2 ^ 32\<close>.
\<close>

definition PIPESIZE :: nat where [layout_defs]: "PIPESIZE = 512"

record pipe =
  pi_data :: "nat \<Rightarrow> u8"
  pi_nread :: u32
  pi_nwrite :: u32
  pi_readopen :: bool
  pi_writeopen :: bool

record kpipe = kcons +
  pipes :: "u64 \<Rightarrow> pipe"

definition upd_pipe :: "u64 \<Rightarrow> (pipe \<Rightarrow> pipe) \<Rightarrow> 'a kpipe_scheme \<Rightarrow> 'a kpipe_scheme" where
  "upd_pipe pi f s = s\<lparr>pipes := (pipes s)(pi := f (pipes s pi))\<rparr>"

text \<open>The part of \<^verbatim>\<open>pipealloc\<close> that initialises the structure.\<close>

definition pipe_init :: "pipe \<Rightarrow> pipe" where
  "pipe_init p = p\<lparr>pi_readopen := True, pi_writeopen := True, pi_nwrite := 0, pi_nread := 0\<rparr>"

definition pipeclose :: "u64 \<Rightarrow> bool \<Rightarrow> ('a kpipe_scheme, unit) routine" where
  "pipeclose pi writable =
     andthen (if writable
        then andthen (modify (upd_pipe pi (\<lambda>p. p\<lparr>pi_writeopen := False\<rparr>))) (modify (wakeup (ChPipeR pi)))
        else andthen (modify (upd_pipe pi (\<lambda>p. p\<lparr>pi_readopen := False\<rparr>))) (modify (wakeup (ChPipeW pi))))
    (bnd (gets (\<lambda>s. pipes s pi)) (\<lambda>p.
     whenM (\<not> pi_readopen p \<and> \<not> pi_writeopen p) (kfree pi)))"

definition pipe_full :: "pipe \<Rightarrow> bool" where
  "pipe_full p \<longleftrightarrow> pi_nwrite p = pi_nread p + of_nat PIPESIZE"

definition pipe_empty :: "pipe \<Rightarrow> bool" where
  "pipe_empty p \<longleftrightarrow> pi_nread p = pi_nwrite p"

definition pipe_put :: "u8 \<Rightarrow> pipe \<Rightarrow> pipe" where
  "pipe_put ch p = p\<lparr>pi_data := (pi_data p)(unat (pi_nwrite p) mod PIPESIZE := ch),
                     pi_nwrite := pi_nwrite p + 1\<rparr>"

definition pipe_peek :: "pipe \<Rightarrow> u8" where
  "pipe_peek p = pi_data p (unat (pi_nread p) mod PIPESIZE)"

definition pipe_drop :: "pipe \<Rightarrow> pipe" where
  "pipe_drop p = p\<lparr>pi_nread := pi_nread p + 1\<rparr>"

text \<open>
  The loop of \<^verbatim>\<open>pipewrite\<close> with \<open>left = n - i\<close> bytes to go; the result is \<open>i\<close>, or \<open>None\<close>
  for the early return of -1.
\<close>

fun pipewrite_loop :: "u64 \<Rightarrow> u64 \<Rightarrow> nat \<Rightarrow> nat \<Rightarrow> ('a kpipe_scheme, nat option) routine" where
  "pipewrite_loop pi addr i 0 = ret (Some i)"
| "pipewrite_loop pi addr i (Suc left) =
     bnd (gets (\<lambda>s. \<not> pi_readopen (pipes s pi) \<or> killed (me s) s \<noteq> 0)) (\<lambda>stop.
     if stop then ret None
     else bnd (gets (\<lambda>s. pipe_full (pipes s pi))) (\<lambda>full.
          if full then andthen (modify (wakeup (ChPipeR pi))) (sleep (ChPipeW pi))
          else bnd (gets myproc) (\<lambda>p.
               bnd (copyin (p_sz p) (p_pagetable p) (p_pagetable p) (addr + of_nat i) 1 []) (\<lambda>(r, bs).
               if r = -1 then ret (Some i)
               else andthen (modify (upd_pipe pi (pipe_put (hd bs))))
                            (pipewrite_loop pi addr (Suc i) left)))))"

definition pipewrite :: "u64 \<Rightarrow> u64 \<Rightarrow> int \<Rightarrow> ('a kpipe_scheme, int) routine" where
  "pipewrite pi addr n =
     bnd (pipewrite_loop pi addr 0 (nat n)) (\<lambda>r.
     case r of
       None \<Rightarrow> ret (-1)
     | Some i \<Rightarrow> andthen (modify (wakeup (ChPipeR pi))) (ret (int i)))"

fun piperead_loop :: "u64 \<Rightarrow> u64 \<Rightarrow> nat \<Rightarrow> nat \<Rightarrow> ('a kpipe_scheme, int) routine" where
  "piperead_loop pi addr i 0 = ret (int i)"
| "piperead_loop pi addr i (Suc left) =
     bnd (gets (\<lambda>s. pipes s pi)) (\<lambda>pp.
     if pipe_empty pp then ret (int i)
     else bnd (gets myproc) (\<lambda>p.
          bnd (copyout (p_sz p) (p_pagetable p) (p_pagetable p) (addr + of_nat i) [pipe_peek pp]) (\<lambda>r.
          if r = -1 then ret (if i = 0 then -1 else int i)
          else andthen (modify (upd_pipe pi pipe_drop))
                       (piperead_loop pi addr (Suc i) left))))"

definition piperead :: "u64 \<Rightarrow> u64 \<Rightarrow> int \<Rightarrow> ('a kpipe_scheme, int) routine" where
  "piperead pi addr n =
     bnd (gets (\<lambda>s. pipe_empty (pipes s pi) \<and> pi_writeopen (pipes s pi))) (\<lambda>wait.
     if wait then bnd (gets (\<lambda>s. killed (me s) s)) (\<lambda>k. if k \<noteq> 0 then ret (-1) else sleep (ChPipeR pi))
     else bnd (piperead_loop pi addr 0 (nat n)) (\<lambda>i.
          andthen (modify (wakeup (ChPipeW pi))) (ret i)))"

end
