(* ===== verification/File.thy ===== *)
theory File
  imports Pipe
begin

text \<open>
  The open-file table (\<^verbatim>\<open>kernel/file.c\<close>, \<^verbatim>\<open>kernel/file.h\<close>) and \<^verbatim>\<open>pipealloc\<close> of
  \<^verbatim>\<open>kernel/pipe.c\<close>. A \<^verbatim>\<open>struct file *\<close> is an index into the table. \<^verbatim>\<open>devsw\<close> is a
  definition: \<^verbatim>\<open>consoleinit\<close> fills its only entry at boot.
\<close>

datatype filetype = FD_NONE | FD_PIPE | FD_INODE | FD_DEVICE

record kfile =
  f_type :: filetype
  f_ref :: int
  f_readable :: bool
  f_writable :: bool
  f_pipe :: u64
  f_ip :: nat
  f_off :: u32
  f_major :: u16

text \<open>
  The table, the four padding bytes of a \<^verbatim>\<open>struct stat\<close> on the kernel stack, which no
  code initialises, the clock tick counter of \<^verbatim>\<open>kernel/trap.c\<close> and the flag \<^verbatim>\<open>first\<close> of
  \<^verbatim>\<open>forkret\<close>.
\<close>

record kernel = kpipe +
  ftable :: "kfile list"
  stat_pad :: "u8 list"
  ticks :: u32
  first :: bool

definition CONSOLE :: int where [layout_defs]: "CONSOLE = 1"

definition devsw_read :: "int \<Rightarrow> (copy_dst \<Rightarrow> int \<Rightarrow> ('a kcons_scheme, int) routine) option" where
  "devsw_read major = (if major = CONSOLE then Some consoleread else None)"

definition devsw_write :: "int \<Rightarrow> (copy_src \<Rightarrow> int \<Rightarrow> ('a kcons_scheme, int) routine) option" where
  "devsw_write major = (if major = CONSOLE then Some consolewrite else None)"

definition upd_file :: "nat \<Rightarrow> (kfile \<Rightarrow> kfile) \<Rightarrow> 'a kernel_scheme \<Rightarrow> 'a kernel_scheme" where
  "upd_file f g s = s\<lparr>ftable := (ftable s)[f := g (ftable s ! f)]\<rparr>"

fun find_file :: "kfile list \<Rightarrow> nat \<Rightarrow> nat option" where
  "find_file [] i = None"
| "find_file (f # fs) i = (if f_ref f = 0 then Some i else find_file fs (Suc i))"

definition filealloc :: "('a kernel_scheme, nat option) routine" where
  "filealloc =
     bnd (gets (\<lambda>s. find_file (ftable s) 0)) (\<lambda>r.
     case r of
       None \<Rightarrow> ret None
     | Some f \<Rightarrow> andthen (modify (upd_file f (\<lambda>x. x\<lparr>f_ref := 1\<rparr>))) (ret (Some f)))"

definition filedup :: "nat \<Rightarrow> ('a kernel_scheme, nat) routine" where
  "filedup f =
     bnd (gets (\<lambda>s. f_ref (ftable s ! f))) (\<lambda>ref.
     andthen (panic_if (ref < 1) ''filedup'')
    (andthen (modify (upd_file f (\<lambda>x. x\<lparr>f_ref := f_ref x + 1\<rparr>))) (ret f)))"

definition fileclose :: "nat \<Rightarrow> ('a kernel_scheme, unit) routine" where
  "fileclose f =
     bnd (gets (\<lambda>s. ftable s ! f)) (\<lambda>ff.
     andthen (panic_if (f_ref ff < 1) ''fileclose'')
    (andthen (modify (upd_file f (\<lambda>x. x\<lparr>f_ref := f_ref x - 1\<rparr>)))
    (if f_ref ff - 1 > 0 then skip
     else andthen (modify (upd_file f (\<lambda>x. x\<lparr>f_ref := 0, f_type := FD_NONE\<rparr>)))
         (case f_type ff of
            FD_PIPE \<Rightarrow> pipeclose (f_pipe ff) (f_writable ff)
          | FD_NONE \<Rightarrow> skip
          | _ \<Rightarrow> andthen begin_op (andthen (iput (f_ip ff)) end_op)))))"

definition stat_bytes :: "u8 list \<Rightarrow> stat \<Rightarrow> u8 list" where
  "stat_bytes pad st = le_enc 4 (st_dev st) @ le_enc 4 (st_ino st) @ le_enc 2 (st_type st)
     @ le_enc 2 (st_nlink st) @ take 4 pad @ le_enc 8 (st_size st)"

definition filestat :: "nat \<Rightarrow> u64 \<Rightarrow> ('a kernel_scheme, int) routine" where
  "filestat f addr =
     bnd (gets (\<lambda>s. ftable s ! f)) (\<lambda>ff.
     if f_type ff = FD_INODE \<or> f_type ff = FD_DEVICE then
       andthen (ilock (f_ip ff))
      (bnd (gets (\<lambda>s. stati (itable s ! f_ip ff))) (\<lambda>st.
       andthen (iunlock (f_ip ff))
      (bnd (gets (\<lambda>s. (myproc s, stat_pad s))) (\<lambda>(p, pad).
       bnd (copyout (p_sz p) (p_pagetable p) (p_pagetable p) addr (stat_bytes pad st)) (\<lambda>r.
       ret (if r < 0 then -1 else 0))))))
     else ret (-1))"

definition fileread :: "nat \<Rightarrow> u64 \<Rightarrow> int \<Rightarrow> ('a kernel_scheme, int) routine" where
  "fileread f addr n =
     bnd (gets (\<lambda>s. ftable s ! f)) (\<lambda>ff.
     if \<not> f_readable ff then ret (-1)
     else case f_type ff of
       FD_PIPE \<Rightarrow> piperead (f_pipe ff) addr n
     | FD_DEVICE \<Rightarrow>
         (if sint (f_major ff) < 0 \<or> sint (f_major ff) \<ge> int NDEV then ret (-1)
          else case devsw_read (sint (f_major ff)) of
                 None \<Rightarrow> ret (-1)
               | Some rd \<Rightarrow> rd (ToUser addr) n)
     | FD_INODE \<Rightarrow>
         andthen (ilock (f_ip ff))
        (bnd (readi (f_ip ff) (ToUser addr) (f_off ff) (word_of_int n)) (\<lambda>(r, _).
         andthen (whenM (r > 0) (modify (upd_file f (\<lambda>x. x\<lparr>f_off := f_off x + word_of_int r\<rparr>))))
        (andthen (iunlock (f_ip ff)) (ret r))))
     | FD_NONE \<Rightarrow> panic ''fileread'')"

text \<open>The most one transaction of \<^verbatim>\<open>filewrite\<close> writes, and its loop.\<close>

definition write_max :: int where
  "write_max = int ((MAXOPBLOCKS - 1 - 1 - 2) div 2 * BSIZE)"

function filewrite_loop :: "nat \<Rightarrow> u64 \<Rightarrow> int \<Rightarrow> int \<Rightarrow> ('a kernel_scheme, int) routine" where
  "filewrite_loop f addr n i =
     (if i < n then
        let n1 = min (n - i) write_max in
        andthen begin_op
       (bnd (gets (\<lambda>s. ftable s ! f)) (\<lambda>ff.
        andthen (ilock (f_ip ff))
       (bnd (writei (f_ip ff) (FromUser (addr + u64_of_int i)) (f_off ff) (word_of_int n1)) (\<lambda>r.
        andthen (whenM (r > 0) (modify (upd_file f (\<lambda>x. x\<lparr>f_off := f_off x + word_of_int r\<rparr>))))
       (andthen (iunlock (f_ip ff))
       (andthen end_op
       (if r \<noteq> n1 then ret i else filewrite_loop f addr n (i + n1))))))))
      else ret i)"
  by pat_completeness auto
termination
proof (relation "measure (\<lambda>(f, addr, n, i). nat (n - i))", goal_cases)
  case 1
  show ?case by simp
next
  case (2 f addr n i)
  have "0 < write_max" by (simp add: write_max_def MAXOPBLOCKS_def BSIZE_def)
  then show ?case using 2 by simp
qed

declare filewrite_loop.simps [simp del]

definition filewrite :: "nat \<Rightarrow> u64 \<Rightarrow> int \<Rightarrow> ('a kernel_scheme, int) routine" where
  "filewrite f addr n =
     bnd (gets (\<lambda>s. ftable s ! f)) (\<lambda>ff.
     if \<not> f_writable ff then ret (-1)
     else case f_type ff of
       FD_PIPE \<Rightarrow> pipewrite (f_pipe ff) addr n
     | FD_DEVICE \<Rightarrow>
         (if sint (f_major ff) < 0 \<or> sint (f_major ff) \<ge> int NDEV then ret (-1)
          else case devsw_write (sint (f_major ff)) of
                 None \<Rightarrow> ret (-1)
               | Some wr \<Rightarrow> wr (FromUser addr) n)
     | FD_INODE \<Rightarrow> bnd (filewrite_loop f addr n 0) (\<lambda>i. ret (if i = n then n else -1))
     | FD_NONE \<Rightarrow> panic ''filewrite'')"

section \<open>pipealloc\<close>

definition pipe_end :: "u64 \<Rightarrow> bool \<Rightarrow> kfile \<Rightarrow> kfile" where
  "pipe_end pi wr f = f\<lparr>f_type := FD_PIPE, f_readable := \<not> wr, f_writable := wr, f_pipe := pi\<rparr>"

text \<open>The result is the two files, read end first, or \<open>None\<close> for -1.\<close>

definition pipealloc :: "('a kernel_scheme, (nat \<times> nat) option) routine" where
  "pipealloc =
     bnd filealloc (\<lambda>f0.
     case f0 of
       None \<Rightarrow> ret None
     | Some f0 \<Rightarrow>
         bnd filealloc (\<lambda>f1.
         case f1 of
           None \<Rightarrow> andthen (fileclose f0) (ret None)
         | Some f1 \<Rightarrow>
             bnd kalloc (\<lambda>pi.
             if pi = 0 then andthen (fileclose f0) (andthen (fileclose f1) (ret None))
             else andthen (modify (upd_pipe pi pipe_init))
                 (andthen (modify (upd_file f0 (pipe_end pi False)))
                 (andthen (modify (upd_file f1 (pipe_end pi True)))
                          (ret (Some (f0, f1))))))))"

end
