(* ===== verification/Lifecycle.thy ===== *)
theory Lifecycle
  imports File
begin

text \<open>
  The routines of \<^verbatim>\<open>kernel/proc.c\<close> that need the file system: the first process,
  \<^verbatim>\<open>fork\<close>, \<^verbatim>\<open>exit\<close> and \<^verbatim>\<open>wait\<close>.
\<close>

definition userinit :: "('a kernel_scheme, unit) routine" where
  "userinit =
     bnd allocproc (\<lambda>slot.
     case slot of
       None \<Rightarrow> panic ''kerneltrap''
     | Some i \<Rightarrow>
         andthen (modify (\<lambda>s. s\<lparr>initproc := i\<rparr>))
        (bnd (namei ''/'') (\<lambda>ip.
         modify (upd_proc i (\<lambda>p. p\<lparr>p_cwd := ip, p_state := RUNNABLE\<rparr>)))))"

section \<open>fork\<close>

text \<open>What \<^verbatim>\<open>kfork\<close> does with the filter state: the child's masks and modes, and the reset.\<close>

definition child_mask :: "proc \<Rightarrow> u64" where
  "child_mask p = (if p_child_syscall_mask p \<noteq> 0 then p_child_syscall_mask p else p_syscall_mask p)"

definition fork_inherit :: "nat \<Rightarrow> nat \<Rightarrow> 'a kproc_scheme \<Rightarrow> 'a kproc_scheme" where
  "fork_inherit i np s =
     (let p = procs s ! i;
          s = upd_proc np (\<lambda>q. q\<lparr>p_syscall_mask := child_mask p\<rparr>) s;
          s = upd_proc i (\<lambda>q. q\<lparr>p_child_syscall_mask := 0\<rparr>) s in
      upd_proc np (\<lambda>q. q\<lparr>p_audit_enabled := p_audit_enabled p, p_strict_mode := p_strict_mode p\<rparr>) s)"

definition fork_tf :: "nat \<Rightarrow> nat \<Rightarrow> 'a kproc_scheme \<Rightarrow> 'a kproc_scheme" where
  "fork_tf i np s =
     s\<lparr>tframes := (tframes s)(p_trapframe (procs s ! np) :=
        (tframes s (p_trapframe (procs s ! i)))\<lparr>tf_a0 := 0\<rparr>)\<rparr>"

definition fork_files :: "nat \<Rightarrow> nat \<Rightarrow> ('a kernel_scheme, unit) routine" where
  "fork_files i np =
     forM [0..<NOFILE] (\<lambda>fd.
       bnd (gets (\<lambda>s. p_ofile (procs s ! i) ! fd)) (\<lambda>f.
       case f of
         None \<Rightarrow> skip
       | Some f \<Rightarrow> bnd (filedup f) (\<lambda>f.
           modify (upd_proc np (\<lambda>q. q\<lparr>p_ofile := (p_ofile q)[fd := Some f]\<rparr>)))))"

definition fork_cwd :: "nat \<Rightarrow> nat \<Rightarrow> ('a kernel_scheme, unit) routine" where
  "fork_cwd i np =
     bnd (gets (\<lambda>s. p_cwd (procs s ! i))) (\<lambda>cwd.
     case cwd of
       None \<Rightarrow> panic ''kerneltrap''
     | Some ip \<Rightarrow> bnd (idup ip) (\<lambda>ip. modify (upd_proc np (\<lambda>q. q\<lparr>p_cwd := Some ip\<rparr>))))"

text \<open>What follows the allocation of the child \<open>np\<close>.\<close>

definition fork_child :: "nat \<Rightarrow> nat \<Rightarrow> ('a kernel_scheme, int) routine" where
  "fork_child i np =
     andthen (modify (fork_inherit i np))
    (bnd (gets (\<lambda>s. (procs s ! i, procs s ! np))) (\<lambda>(p, q).
     bnd (uvmcopy (p_pagetable p) (p_pagetable q) (p_sz p)) (\<lambda>r.
     if r < 0 then andthen (freeproc np) (ret (-1))
     else
       andthen (modify (upd_proc np (\<lambda>q. q\<lparr>p_sz := p_sz p\<rparr>)))
      (andthen (modify (fork_tf i np))
      (andthen (fork_files i np)
      (andthen (fork_cwd i np)
      (andthen (modify (\<lambda>s. upd_proc np (\<lambda>q. q\<lparr>p_name := safestrcpy (p_name q) (p_name (procs s ! i)) 16\<rparr>) s))
      (andthen (modify (upd_proc np (\<lambda>q. q\<lparr>p_parent := Some i\<rparr>)))
      (andthen (modify (upd_proc np (\<lambda>q. q\<lparr>p_state := RUNNABLE\<rparr>)))
               (gets (\<lambda>s. p_pid (procs s ! np))))))))))))"

definition kfork :: "('a kernel_scheme, int) routine" where
  "kfork =
     bnd (gets me) (\<lambda>i.
     bnd allocproc (\<lambda>slot.
     case slot of
       None \<Rightarrow> ret (-1)
     | Some np \<Rightarrow> fork_child i np))"

section \<open>exit and wait\<close>

definition close_all :: "nat \<Rightarrow> ('a kernel_scheme, unit) routine" where
  "close_all i =
     forM [0..<NOFILE] (\<lambda>fd.
       bnd (gets (\<lambda>s. p_ofile (procs s ! i) ! fd)) (\<lambda>f.
       case f of
         None \<Rightarrow> skip
       | Some f \<Rightarrow> andthen (fileclose f)
                          (modify (upd_proc i (\<lambda>p. p\<lparr>p_ofile := (p_ofile p)[fd := None]\<rparr>)))))"

definition put_cwd :: "nat \<Rightarrow> ('a kernel_scheme, unit) routine" where
  "put_cwd i =
     bnd (gets (\<lambda>s. p_cwd (procs s ! i))) (\<lambda>cwd.
     case cwd of None \<Rightarrow> panic ''kerneltrap'' | Some ip \<Rightarrow> iput ip)"

text \<open>\<^verbatim>\<open>kexit\<close> ends in \<^verbatim>\<open>sched\<close>, from which an exited process does not come back.\<close>

definition kexit :: "int \<Rightarrow> ('a kernel_scheme, 'b) routine" where
  "kexit status =
     bnd (gets me) (\<lambda>i.
     bnd (gets (\<lambda>s. i = initproc s)) (\<lambda>is_init.
     andthen (panic_if is_init ''init exiting'')
    (andthen (close_all i)
    (andthen begin_op
    (andthen (put_cwd i)
    (andthen end_op
    (andthen (modify (upd_proc i (\<lambda>p. p\<lparr>p_cwd := None\<rparr>)))
    (andthen (reparent i)
    (andthen (bnd (gets (\<lambda>s. p_parent (procs s ! i))) (\<lambda>par.
                case par of None \<Rightarrow> skip | Some q \<Rightarrow> modify (wakeup (ChProc q))))
    (andthen (modify (upd_proc i (\<lambda>p. p\<lparr>p_xstate := status, p_state := ZOMBIE\<rparr>)))
             (\<lambda>s. Inl (Exited s))))))))))))"

definition kwait_child :: "u64 \<Rightarrow> nat \<Rightarrow> nat \<Rightarrow> ('a kernel_scheme, int option) routine" where
  "kwait_child addr i j =
     bnd (gets (\<lambda>s. (procs s ! i, procs s ! j))) (\<lambda>(p, q).
     if p_parent q = Some i \<and> p_state q = ZOMBIE then
       bnd (if addr \<noteq> 0
            then copyout (p_sz p) (p_pagetable p) (p_pagetable p) addr
                   (le_enc 4 (word_of_int (p_xstate q) :: u32))
            else ret 0) (\<lambda>r.
       if r < 0 then ret (Some (-1))
       else andthen (freeproc j) (ret (Some (p_pid q))))
     else ret None)"

definition kwait :: "u64 \<Rightarrow> ('a kernel_scheme, int) routine" where
  "kwait addr =
     bnd (gets me) (\<lambda>i.
     bnd (gets (\<lambda>s. length (procs s))) (\<lambda>n.
     bnd (findM [0..<n] (kwait_child addr i)) (\<lambda>r.
     case r of
       Some pid \<Rightarrow> ret pid
     | None \<Rightarrow>
         bnd (gets (\<lambda>s. list_ex (\<lambda>q. p_parent q = Some i) (procs s))) (\<lambda>havekids.
         bnd (gets (killed i)) (\<lambda>k.
         if \<not> havekids \<or> k \<noteq> 0 then ret (-1) else sleep (ChProc i))))))"

end
