(* ===== verification/Exec.thy ===== *)
theory Exec
  imports Lifecycle
begin

text \<open>
  \<^verbatim>\<open>exec\<close> (\<^verbatim>\<open>kernel/exec.c\<close>, \<^verbatim>\<open>kernel/elf.h\<close>). The argument strings are passed as values;
  the error exit \<^verbatim>\<open>bad\<close> is a routine of its own, with the inode if it is still locked.
\<close>

definition ELF_MAGIC :: u32 where [layout_defs]: "ELF_MAGIC = 0x464C457F"
definition ELF_PROG_LOAD :: u32 where [layout_defs]: "ELF_PROG_LOAD = 1"

record elfhdr =
  e_magic :: u32
  e_entry :: u64
  e_phoff :: u64
  e_phnum :: u16

record proghdr =
  ph_type :: u32
  ph_flags :: u32
  ph_off :: u64
  ph_vaddr :: u64
  ph_filesz :: u64
  ph_memsz :: u64

definition get64 :: "u8 list \<Rightarrow> nat \<Rightarrow> u64" where
  "get64 d off = le_dec (take 8 (drop off d))"

text \<open>The fields the code reads, at their offsets in the 64-byte and 56-byte headers.\<close>

definition get_elfhdr :: "u8 list \<Rightarrow> elfhdr" where
  "get_elfhdr d = \<lparr>e_magic = get32 d 0, e_entry = get64 d 24, e_phoff = get64 d 32, e_phnum = get16 d 56\<rparr>"

definition get_proghdr :: "u8 list \<Rightarrow> proghdr" where
  "get_proghdr d = \<lparr>ph_type = get32 d 0, ph_flags = get32 d 4, ph_off = get64 d 8, ph_vaddr = get64 d 16,
     ph_filesz = get64 d 32, ph_memsz = get64 d 40\<rparr>"

definition flags2perm :: "u32 \<Rightarrow> u64" where
  "flags2perm flags =
     (let perm = (if flags AND 1 \<noteq> 0 then PTE_X else 0) in
      if flags AND 2 \<noteq> 0 then perm OR PTE_W else perm)"

text \<open>\<^verbatim>\<open>loadseg\<close>: page by page; \<open>readi\<close> stores into the physical page.\<close>

definition loadseg :: "u64 \<Rightarrow> u64 \<Rightarrow> nat \<Rightarrow> u32 \<Rightarrow> u32 \<Rightarrow> ('a kernel_scheme, int) routine" where
  "loadseg pt va ip offset sz =
     bnd (findM (map (\<lambda>k. 4096 * k) [0..<(unat sz + 4095) div 4096]) (\<lambda>i.
       bnd (walkaddr pt (va + of_nat i)) (\<lambda>pa.
       andthen (panic_if (pa = 0) ''loadseg: address should exist'')
      (let n = min (unat sz - i) 4096 in
       bnd (readi ip ToKernel (offset + of_nat i) (of_nat n)) (\<lambda>(r, bs).
       andthen (modify (\<lambda>s. s\<lparr>k_mem := wr_bytes (k_mem s) pa bs\<rparr>))
               (ret (if r \<noteq> int n then Some () else None)))))))
     (\<lambda>r. ret (case r of Some _ \<Rightarrow> -1 | None \<Rightarrow> 0))"

text \<open>
  The loop over the program headers; the result is the size reached and whether every
  segment was loaded.
\<close>

definition load_segment :: "u64 \<Rightarrow> nat \<Rightarrow> u64 \<Rightarrow> proghdr \<Rightarrow> ('a kernel_scheme, u64 \<times> bool) routine" where
  "load_segment pt ip sz ph =
     (if ph_type ph \<noteq> ELF_PROG_LOAD then ret (sz, True)
      else if ph_memsz ph < ph_filesz ph then ret (sz, False)
      else if ph_vaddr ph + ph_memsz ph < ph_vaddr ph then ret (sz, False)
      else if ph_vaddr ph mod PGSIZE \<noteq> 0 then ret (sz, False)
      else bnd (uvmalloc pt sz (ph_vaddr ph + ph_memsz ph) (flags2perm (ph_flags ph))) (\<lambda>sz1.
           if sz1 = 0 then ret (sz, False)
           else bnd (loadseg pt (ph_vaddr ph) ip (ucast (ph_off ph)) (ucast (ph_filesz ph))) (\<lambda>r.
                ret (sz1, \<not> r < 0))))"

fun load_segments :: "u64 \<Rightarrow> nat \<Rightarrow> nat \<Rightarrow> u32 \<Rightarrow> u64 \<Rightarrow> ('a kernel_scheme, u64 \<times> bool) routine" where
  "load_segments pt ip 0 off sz = ret (sz, True)"
| "load_segments pt ip (Suc n) off sz =
     bnd (readi ip ToKernel off 56) (\<lambda>(r, bs).
     if r \<noteq> 56 then ret (sz, False)
     else bnd (load_segment pt ip sz (get_proghdr bs)) (\<lambda>(sz, ok).
          if ok then load_segments pt ip n (off + 56) sz else ret (sz, False)))"

definition exec_bad :: "u64 \<Rightarrow> u64 \<Rightarrow> nat option \<Rightarrow> ('a kernel_scheme, int) routine" where
  "exec_bad pt sz ip =
     andthen (whenM (pt \<noteq> 0) (proc_freepagetable pt sz))
    (andthen (case ip of None \<Rightarrow> skip | Some ip \<Rightarrow> andthen (iunlockput ip) end_op)
             (ret (-1)))"

text \<open>
  Pushing the argument strings, from \<open>sp\<close> down to \<open>base\<close>. The result is the new \<^verbatim>\<open>sp\<close> and
  \<^verbatim>\<open>ustack\<close>, or \<open>None\<close> for the error exit.
\<close>

definition push :: "u64 \<Rightarrow> u64 \<Rightarrow> u64 \<Rightarrow> u8 list \<Rightarrow> ('a kernel_scheme, u64 option) routine" where
  "push pt base sp bs =
     (let sp = sp - of_nat (length bs); sp = sp - sp mod 16 in
      if sp < base then ret None
      else bnd (gets myproc) (\<lambda>p.
           bnd (copyout (p_sz p) (p_pagetable p) pt sp bs) (\<lambda>r.
           ret (if r < 0 then None else Some sp))))"

fun push_args :: "u64 \<Rightarrow> u64 \<Rightarrow> u64 \<Rightarrow> string list \<Rightarrow> u64 list \<Rightarrow> ('a kernel_scheme, (u64 \<times> u64 list) option) routine"
where
  "push_args pt base sp [] ustack = ret (Some (sp, ustack))"
| "push_args pt base sp (a # as) ustack =
     (if length ustack \<ge> MAXARG then ret None
      else bnd (push pt base sp (map c2b a @ [0])) (\<lambda>r.
           case r of
             None \<Rightarrow> ret None
           | Some sp \<Rightarrow> push_args pt base sp as (ustack @ [sp])))"

definition last_elem :: "string \<Rightarrow> string" where
  "last_elem path = rev (takeWhile (\<lambda>c. c \<noteq> slash) (rev path))"

text \<open>The second half of \<^verbatim>\<open>kexec\<close>: the stack, the arguments, and the switch of images.\<close>

definition exec_stack ::
  "string \<Rightarrow> string list \<Rightarrow> u64 \<Rightarrow> u64 \<Rightarrow> u64 \<Rightarrow> ('a kernel_scheme, int) routine" where
  "exec_stack path argv entry pt sz0 =
     bnd (gets (\<lambda>s. p_sz (myproc s))) (\<lambda>oldsz.
     let sz = PGROUNDUP sz0 in
     bnd (uvmalloc pt sz (sz + (USERSTACK + 1) * PGSIZE) PTE_W) (\<lambda>sz1.
     if sz1 = 0 then exec_bad pt sz None
     else
       andthen (uvmclear pt (sz1 - (USERSTACK + 1) * PGSIZE))
      (let base = sz1 - USERSTACK * PGSIZE in
       bnd (push_args pt base sz1 argv []) (\<lambda>r.
       case r of
         None \<Rightarrow> exec_bad pt sz1 None
       | Some (sp, ustack) \<Rightarrow>
           bnd (push pt base sp (concat (map (le_enc 8) (ustack @ [0])))) (\<lambda>r.
           case r of
             None \<Rightarrow> exec_bad pt sz1 None
           | Some sp \<Rightarrow>
               andthen (modify (upd_my_tf (\<lambda>t. t\<lparr>tf_a1 := sp\<rparr>)))
              (bnd (gets (\<lambda>s. (me s, p_pagetable (myproc s)))) (\<lambda>(i, oldpt).
               andthen (modify (upd_proc i (\<lambda>p. p\<lparr>p_name := safestrcpy (p_name p) (last_elem path) 16,
                                                 p_pagetable := pt, p_sz := sz1\<rparr>)))
              (andthen (modify (upd_my_tf (\<lambda>t. t\<lparr>tf_epc := entry, tf_sp := sp\<rparr>)))
              (andthen (proc_freepagetable oldpt oldsz)
                       (ret (int (length ustack))))))))))))"

definition kexec :: "string \<Rightarrow> string list \<Rightarrow> ('a kernel_scheme, int) routine" where
  "kexec path argv =
     andthen begin_op
    (bnd (namei path) (\<lambda>r.
     case r of
       None \<Rightarrow> andthen end_op (ret (-1))
     | Some ip \<Rightarrow>
         andthen (ilock ip)
        (bnd (readi ip ToKernel 0 64) (\<lambda>(r, bs).
         if r \<noteq> 64 then exec_bad 0 0 (Some ip)
         else let elf = get_elfhdr bs in
         if e_magic elf \<noteq> ELF_MAGIC then exec_bad 0 0 (Some ip)
         else bnd (gets me) (\<lambda>i.
              bnd (proc_pagetable i) (\<lambda>pt.
              if pt = 0 then exec_bad 0 0 (Some ip)
              else bnd (load_segments pt ip (unat (e_phnum elf)) (ucast (e_phoff elf)) 0) (\<lambda>(sz, ok).
                   if \<not> ok then exec_bad pt sz (Some ip)
                   else andthen (iunlockput ip)
                       (andthen end_op
                                (exec_stack path argv (e_entry elf) pt sz)))))))))"

end
