(* ===== verification/Sysarg.thy ===== *)
theory Sysarg
  imports Exec
begin

text \<open>
  Fetching system call arguments (the first part of \<^verbatim>\<open>kernel/syscall.c\<close>). A routine that
  stores through a pointer argument returns its status together with what it stored.
\<close>

definition fetchaddr :: "u64 \<Rightarrow> ('a kproc_scheme, int \<times> u64) routine" where
  "fetchaddr addr =
     bnd (gets myproc) (\<lambda>p.
     if addr \<ge> p_sz p \<or> addr + 8 > p_sz p then ret (-1, 0)
     else bnd (copyin (p_sz p) (p_pagetable p) (p_pagetable p) addr 8 []) (\<lambda>(r, bs).
          ret (if r \<noteq> 0 then (-1, 0) else (0, le_dec bs))))"

definition fetchstr :: "u64 \<Rightarrow> nat \<Rightarrow> ('a kproc_scheme, int \<times> string) routine" where
  "fetchstr addr mx =
     bnd (gets myproc) (\<lambda>p.
     bnd (copyinstr (p_pagetable p) addr mx []) (\<lambda>(r, buf).
     ret (if r < 0 then (-1, buf) else (int (strlen buf), buf))))"

definition argraw :: "nat \<Rightarrow> ('a kproc_scheme, u64) routine" where
  "argraw n =
     bnd (gets my_tf) (\<lambda>t.
     if n = 0 then ret (tf_a0 t)
     else if n = 1 then ret (tf_a1 t)
     else if n = 2 then ret (tf_a2 t)
     else if n = 3 then ret (tf_a3 t)
     else if n = 4 then ret (tf_a4 t)
     else if n = 5 then ret (tf_a5 t)
     else panic ''argraw'')"

definition argint :: "nat \<Rightarrow> ('a kproc_scheme, int \<times> int) routine" where
  "argint n = bnd (argraw n) (\<lambda>x. ret (0, c_int x))"

definition argaddr :: "nat \<Rightarrow> ('a kproc_scheme, int \<times> u64) routine" where
  "argaddr n = bnd (argraw n) (\<lambda>x. ret (0, x))"

definition argstr :: "nat \<Rightarrow> nat \<Rightarrow> ('a kproc_scheme, int \<times> string) routine" where
  "argstr n mx = bnd (argaddr n) (\<lambda>(_, addr). fetchstr addr mx)"

end
