(* ===== verification/Sysproc.thy ===== *)
theory Sysproc
  imports Sysarg
begin

text \<open>
  The process system calls (\<^verbatim>\<open>kernel/sysproc.c\<close>), the syscall-filter calls among them. A
  handler returns the \<^verbatim>\<open>uint64\<close> that \<^verbatim>\<open>syscall\<close> stores in \<^verbatim>\<open>a0\<close>.
\<close>

definition sys_exit :: "('a kernel_scheme, u64) routine" where
  "sys_exit = bnd (argint 0) (\<lambda>(_, n). andthen (kexit n :: ('a kernel_scheme, unit) routine) (ret 0))"

definition sys_getpid :: "('a kernel_scheme, u64) routine" where
  "sys_getpid = gets (\<lambda>s. u64_of_int (p_pid (myproc s)))"

definition sys_fork :: "('a kernel_scheme, u64) routine" where
  "sys_fork = bnd kfork (\<lambda>r. ret (u64_of_int r))"

definition sys_wait :: "('a kernel_scheme, u64) routine" where
  "sys_wait = bnd (argaddr 0) (\<lambda>(_, p). bnd (kwait p) (\<lambda>r. ret (u64_of_int r)))"

definition SBRK_EAGER :: int where "SBRK_EAGER = 1"

definition sys_sbrk :: "('a kernel_scheme, u64) routine" where
  "sys_sbrk =
     bnd (argint 0) (\<lambda>(_, n).
     bnd (argint 1) (\<lambda>(_, t).
     bnd (gets (\<lambda>s. p_sz (myproc s))) (\<lambda>addr.
     if t = SBRK_EAGER \<or> n < 0 then
       bnd (growproc n) (\<lambda>r. ret (if r < 0 then minus_one else addr))
     else if addr + u64_of_int n < addr then ret minus_one
     else if addr + u64_of_int n > TRAPFRAME then ret minus_one
     else andthen (modify (\<lambda>s. upd_proc (me s) (\<lambda>p. p\<lparr>p_sz := p_sz p + u64_of_int n\<rparr>) s))
                  (ret addr))))"

text \<open>The waiting loop of \<^verbatim>\<open>sys_pause\<close>, entered again after every wakeup.\<close>

definition pause_loop :: "u32 \<Rightarrow> int \<Rightarrow> ('a kernel_scheme, u64) routine" where
  "pause_loop ticks0 n =
     bnd (gets ticks) (\<lambda>now.
     if now - ticks0 < word_of_int n then
       bnd (gets (\<lambda>s. killed (me s) s)) (\<lambda>k. if k \<noteq> 0 then ret minus_one else sleep ChTicks)
     else ret 0)"

definition sys_pause :: "('a kernel_scheme, u64) routine" where
  "sys_pause =
     bnd (argint 0) (\<lambda>(_, n).
     bnd (gets ticks) (\<lambda>ticks0. pause_loop ticks0 (if n < 0 then 0 else n)))"

definition sys_kill :: "('a kernel_scheme, u64) routine" where
  "sys_kill = bnd (argint 0) (\<lambda>(_, pid). bnd (kkill pid) (\<lambda>r. ret (u64_of_int r)))"

definition sys_uptime :: "('a kernel_scheme, u64) routine" where
  "sys_uptime = gets (\<lambda>s. ucast (ticks s))"

definition sys_hello :: "('a kernel_scheme, u64) routine" where
  "sys_hello = andthen (kprintf (''hello'' @ nl) []) (ret 0)"

section \<open>The syscall filter\<close>

definition sys_setfilter :: "('a kernel_scheme, u64) routine" where
  "sys_setfilter =
     bnd (argaddr 0) (\<lambda>(r, mask).
     if r < 0 then ret minus_one
     else bnd (gets (\<lambda>s. p_syscall_mask (myproc s))) (\<lambda>old.
          if mask AND old \<noteq> old then ret minus_one
          else andthen (modify (\<lambda>s. upd_proc (me s) (\<lambda>p. p\<lparr>p_syscall_mask := mask\<rparr>) s)) (ret 0)))"

definition sys_getfilter :: "('a kernel_scheme, u64) routine" where
  "sys_getfilter = gets (\<lambda>s. p_syscall_mask (myproc s))"

definition sys_setfilter_child :: "('a kernel_scheme, u64) routine" where
  "sys_setfilter_child =
     bnd (argaddr 0) (\<lambda>(r, mask).
     if r < 0 then ret minus_one
     else bnd (gets (\<lambda>s. p_syscall_mask (myproc s))) (\<lambda>old.
          if mask AND old \<noteq> old then ret minus_one
          else andthen (modify (\<lambda>s. upd_proc (me s) (\<lambda>p. p\<lparr>p_child_syscall_mask := mask\<rparr>) s)) (ret 0)))"

definition sys_setaudit :: "('a kernel_scheme, u64) routine" where
  "sys_setaudit =
     bnd (argint 0) (\<lambda>(r, enable).
     if r < 0 then ret minus_one
     else andthen (modify (\<lambda>s. upd_proc (me s) (\<lambda>p. p\<lparr>p_audit_enabled := enable\<rparr>) s)) (ret 0))"

definition sys_setstrict :: "('a kernel_scheme, u64) routine" where
  "sys_setstrict =
     bnd (argint 0) (\<lambda>(r, val).
     if r < 0 then ret minus_one
     else andthen (modify (\<lambda>s. upd_proc (me s) (\<lambda>p. p\<lparr>p_strict_mode := val\<rparr>) s)) (ret 0))"

end
