(* ===== verification/Sysfile.thy ===== *)
theory Sysfile
  imports Sysarg
begin

text \<open>
  The file system calls and the audit log (\<^verbatim>\<open>kernel/sysfile.c\<close>).
\<close>

definition O_WRONLY :: int where [layout_defs]: "O_WRONLY = 1"
definition O_RDWR :: int where [layout_defs]: "O_RDWR = 2"
definition O_CREATE :: int where [layout_defs]: "O_CREATE = 0x200"
definition O_TRUNC :: int where [layout_defs]: "O_TRUNC = 0x400"

section \<open>File descriptors\<close>

definition argfd :: "nat \<Rightarrow> ('a kproc_scheme, (nat \<times> nat) option) routine" where
  "argfd n =
     bnd (argint n) (\<lambda>(_, fd).
     if fd < 0 \<or> fd \<ge> int NOFILE then ret None
     else bnd (gets (\<lambda>s. p_ofile (myproc s) ! nat fd)) (\<lambda>f.
          ret (case f of None \<Rightarrow> None | Some f \<Rightarrow> Some (nat fd, f))))"

definition set_fd :: "nat \<Rightarrow> nat option \<Rightarrow> 'a kproc_scheme \<Rightarrow> 'a kproc_scheme" where
  "set_fd fd f s = upd_proc (me s) (\<lambda>p. p\<lparr>p_ofile := (p_ofile p)[fd := f]\<rparr>) s"

definition fdalloc :: "nat \<Rightarrow> ('a kproc_scheme, nat option) routine" where
  "fdalloc f =
     bnd (gets (\<lambda>s. List.find (\<lambda>fd. p_ofile (myproc s) ! fd = None) [0..<NOFILE])) (\<lambda>r.
     case r of
       None \<Rightarrow> ret None
     | Some fd \<Rightarrow> andthen (modify (set_fd fd (Some f))) (ret (Some fd)))"

definition sys_dup :: "('a kernel_scheme, u64) routine" where
  "sys_dup =
     bnd (argfd 0) (\<lambda>r.
     case r of
       None \<Rightarrow> ret minus_one
     | Some (_, f) \<Rightarrow>
         bnd (fdalloc f) (\<lambda>fd.
         case fd of
           None \<Rightarrow> ret minus_one
         | Some fd \<Rightarrow> bnd (filedup f) (\<lambda>_. ret (of_nat fd))))"

definition sys_read :: "('a kernel_scheme, u64) routine" where
  "sys_read =
     bnd (argaddr 1) (\<lambda>(_, p).
     bnd (argint 2) (\<lambda>(_, n).
     bnd (argfd 0) (\<lambda>r.
     case r of
       None \<Rightarrow> ret minus_one
     | Some (_, f) \<Rightarrow> bnd (fileread f p n) (\<lambda>r. ret (u64_of_int r)))))"

definition sys_write :: "('a kernel_scheme, u64) routine" where
  "sys_write =
     bnd (argaddr 1) (\<lambda>(_, p).
     bnd (argint 2) (\<lambda>(_, n).
     bnd (argfd 0) (\<lambda>r.
     case r of
       None \<Rightarrow> ret minus_one
     | Some (_, f) \<Rightarrow> bnd (filewrite f p n) (\<lambda>r. ret (u64_of_int r)))))"

definition sys_close :: "('a kernel_scheme, u64) routine" where
  "sys_close =
     bnd (argfd 0) (\<lambda>r.
     case r of
       None \<Rightarrow> ret minus_one
     | Some (fd, f) \<Rightarrow> andthen (modify (set_fd fd None)) (andthen (fileclose f) (ret 0)))"

definition sys_fstat :: "('a kernel_scheme, u64) routine" where
  "sys_fstat =
     bnd (argaddr 1) (\<lambda>(_, st).
     bnd (argfd 0) (\<lambda>r.
     case r of
       None \<Rightarrow> ret minus_one
     | Some (_, f) \<Rightarrow> bnd (filestat f st) (\<lambda>r. ret (u64_of_int r))))"

section \<open>Links and directories\<close>

text \<open>Leave a transaction with a result.\<close>

definition end_with :: "'b \<Rightarrow> ('a kernel_scheme, 'b) routine" where
  "end_with r = andthen end_op (ret r)"

definition add_nlink :: "nat \<Rightarrow> u16 \<Rightarrow> 'a kfs_scheme \<Rightarrow> 'a kfs_scheme" where
  "add_nlink ip k = upd_inode ip (\<lambda>x. x\<lparr>i_nlink := i_nlink x + k\<rparr>)"

definition link_bad :: "nat \<Rightarrow> ('a kernel_scheme, u64) routine" where
  "link_bad ip =
     andthen (ilock ip)
    (andthen (modify (add_nlink ip (-1)))
    (andthen (iupdate ip)
    (andthen (iunlockput ip)
             (end_with minus_one))))"

definition link_at :: "nat \<Rightarrow> string \<Rightarrow> ('a kernel_scheme, u64) routine" where
  "link_at ip new =
     bnd (nameiparent new) (\<lambda>r.
     case r of
       None \<Rightarrow> link_bad ip
     | Some (dp, name) \<Rightarrow>
         andthen (ilock dp)
        (bnd (gets (\<lambda>s. (i_dev (itable s ! dp), i_dev (itable s ! ip), i_inum (itable s ! ip)))) (\<lambda>(ddev, dev, inum).
         bnd (if ddev \<noteq> dev then ret (-1) else dirlink dp name inum) (\<lambda>r.
         if r < 0 then andthen (iunlockput dp) (link_bad ip)
         else andthen (iunlockput dp) (andthen (iput ip) (end_with 0))))))"

definition sys_link :: "('a kernel_scheme, u64) routine" where
  "sys_link =
     bnd (argstr 0 MAXPATH) (\<lambda>(r, old).
     if r < 0 then ret minus_one
     else bnd (argstr 1 MAXPATH) (\<lambda>(r, new).
     if r < 0 then ret minus_one
     else
       andthen begin_op
      (bnd (namei old) (\<lambda>r.
       case r of
         None \<Rightarrow> end_with minus_one
       | Some ip \<Rightarrow>
           andthen (ilock ip)
          (bnd (gets (\<lambda>s. i_type (itable s ! ip))) (\<lambda>ty.
           if ty = T_DIR then andthen (iunlockput ip) (end_with minus_one)
           else andthen (modify (add_nlink ip 1))
               (andthen (iupdate ip)
               (andthen (iunlock ip)
                        (link_at ip new)))))))))"

definition isdirempty :: "nat \<Rightarrow> ('a kfs_scheme, bool) routine" where
  "isdirempty dp =
     bnd (gets (\<lambda>s. i_size (itable s ! dp))) (\<lambda>sz.
     bnd (findM (drop 2 (dirent_offs sz)) (\<lambda>off.
            bnd (read_dirent dp off ''isdirempty: readi'') (\<lambda>de.
            ret (if de_inum de \<noteq> 0 then Some () else None)))) (\<lambda>r.
     ret (r = None)))"

definition unlink_bad :: "nat \<Rightarrow> ('a kernel_scheme, u64) routine" where
  "unlink_bad dp = andthen (iunlockput dp) (end_with minus_one)"

text \<open>The part of \<^verbatim>\<open>sys_unlink\<close> after the entry \<open>ip\<close> has been found at offset \<open>off\<close>.\<close>

definition unlink_entry :: "nat \<Rightarrow> nat \<Rightarrow> nat \<Rightarrow> ('a kernel_scheme, u64) routine" where
  "unlink_entry dp ip off =
     andthen (ilock ip)
    (bnd (gets (\<lambda>s. (i_nlink (itable s ! ip), i_type (itable s ! ip)))) (\<lambda>(nlink, ty).
     andthen (panic_if (sint nlink < 1) ''unlink: nlink < 1'')
    (bnd (if ty = T_DIR then isdirempty ip else ret True) (\<lambda>empty_dir.
     if \<not> empty_dir then andthen (iunlockput ip) (unlink_bad dp)
     else
       bnd (writei dp (FromKernel (replicate 16 0)) (of_nat off) 16) (\<lambda>w.
       andthen (panic_if (w \<noteq> 16) ''unlink: writei'')
      (andthen (whenM (ty = T_DIR) (andthen (modify (add_nlink dp (-1))) (iupdate dp)))
      (andthen (iunlockput dp)
      (andthen (modify (add_nlink ip (-1)))
      (andthen (iupdate ip)
      (andthen (iunlockput ip)
               (end_with 0)))))))))))"

definition sys_unlink :: "('a kernel_scheme, u64) routine" where
  "sys_unlink =
     bnd (argstr 0 MAXPATH) (\<lambda>(r, path).
     if r < 0 then ret minus_one
     else
       andthen begin_op
      (bnd (nameiparent path) (\<lambda>r.
       case r of
         None \<Rightarrow> end_with minus_one
       | Some (dp, name) \<Rightarrow>
           andthen (ilock dp)
          (if namecmp name ''.'' = 0 \<or> namecmp name ''..'' = 0 then unlink_bad dp
           else bnd (dirlookup dp name) (\<lambda>r.
                case r of
                  None \<Rightarrow> unlink_bad dp
                | Some (ip, off) \<Rightarrow> unlink_entry dp ip off)))))"

section \<open>create and open\<close>

definition create_fail :: "nat \<Rightarrow> nat \<Rightarrow> ('a kernel_scheme, nat option) routine" where
  "create_fail dp ip =
     andthen (modify (upd_inode ip (\<lambda>x. x\<lparr>i_nlink := 0\<rparr>)))
    (andthen (iupdate ip)
    (andthen (iunlockput ip)
    (andthen (iunlockput dp)
             (ret None))))"

definition create_dots :: "nat \<Rightarrow> nat \<Rightarrow> ('a kernel_scheme, bool) routine" where
  "create_dots dp ip =
     bnd (gets (\<lambda>s. (i_inum (itable s ! ip), i_inum (itable s ! dp)))) (\<lambda>(inum, dinum).
     bnd (dirlink ip ''.'' inum) (\<lambda>r.
     if r < 0 then ret False
     else bnd (dirlink ip ''..'' dinum) (\<lambda>r. ret (\<not> r < 0))))"

definition create_new :: "nat \<Rightarrow> string \<Rightarrow> u16 \<Rightarrow> u16 \<Rightarrow> u16 \<Rightarrow> nat \<Rightarrow> ('a kernel_scheme, nat option) routine"
where
  "create_new dp name type major minor ip =
     andthen (ilock ip)
    (andthen (modify (upd_inode ip (\<lambda>x. x\<lparr>i_major := major, i_minor := minor, i_nlink := 1\<rparr>)))
    (andthen (iupdate ip)
    (bnd (if type = T_DIR then create_dots dp ip else ret True) (\<lambda>ok.
     if \<not> ok then create_fail dp ip
     else bnd (gets (\<lambda>s. i_inum (itable s ! ip))) (\<lambda>inum.
          bnd (dirlink dp name inum) (\<lambda>r.
          if r < 0 then create_fail dp ip
          else andthen (whenM (type = T_DIR) (andthen (modify (add_nlink dp 1)) (iupdate dp)))
              (andthen (iunlockput dp) (ret (Some ip)))))))))"

definition create :: "string \<Rightarrow> u16 \<Rightarrow> u16 \<Rightarrow> u16 \<Rightarrow> ('a kernel_scheme, nat option) routine" where
  "create path type major minor =
     bnd (nameiparent path) (\<lambda>r.
     case r of
       None \<Rightarrow> ret None
     | Some (dp, name) \<Rightarrow>
         andthen (ilock dp)
        (bnd (dirlookup dp name) (\<lambda>r.
         case r of
           Some (ip, _) \<Rightarrow>
             andthen (iunlockput dp)
            (andthen (ilock ip)
            (bnd (gets (\<lambda>s. i_type (itable s ! ip))) (\<lambda>ty.
             if type = T_FILE \<and> (ty = T_FILE \<or> ty = T_DEVICE) then ret (Some ip)
             else andthen (iunlockput ip) (ret None))))
         | None \<Rightarrow>
             bnd (gets (\<lambda>s. i_dev (itable s ! dp))) (\<lambda>dev.
             bnd (ialloc dev type) (\<lambda>r.
             case r of
               None \<Rightarrow> andthen (iunlockput dp) (ret None)
             | Some ip \<Rightarrow> create_new dp name type major minor ip)))))"

text \<open>The inode that \<^verbatim>\<open>sys_open\<close> opens, locked; \<open>None\<close> when it takes an error exit.\<close>

definition open_inode :: "string \<Rightarrow> int \<Rightarrow> ('a kernel_scheme, nat option) routine" where
  "open_inode path omode =
     (if omode AND O_CREATE \<noteq> 0 then create path T_FILE 0 0
      else bnd (namei path) (\<lambda>r.
           case r of
             None \<Rightarrow> ret None
           | Some ip \<Rightarrow>
               andthen (ilock ip)
              (bnd (gets (\<lambda>s. i_type (itable s ! ip))) (\<lambda>ty.
               if ty = T_DIR \<and> omode \<noteq> 0 then andthen (iunlockput ip) (ret None)
               else ret (Some ip)))))"

text \<open>\<^verbatim>\<open>filealloc\<close> and \<^verbatim>\<open>fdalloc\<close> together: the file and its descriptor.\<close>

definition open_fd :: "('a kernel_scheme, (nat \<times> nat) option) routine" where
  "open_fd =
     bnd filealloc (\<lambda>f.
     case f of
       None \<Rightarrow> ret None
     | Some f \<Rightarrow>
         bnd (fdalloc f) (\<lambda>fd.
         case fd of
           None \<Rightarrow> andthen (fileclose f) (ret None)
         | Some fd \<Rightarrow> ret (Some (f, fd))))"

definition open_setup :: "inode \<Rightarrow> nat \<Rightarrow> int \<Rightarrow> kfile \<Rightarrow> kfile" where
  "open_setup x ip omode f =
     (if i_type x = T_DEVICE then f\<lparr>f_type := FD_DEVICE, f_major := i_major x\<rparr>
      else f\<lparr>f_type := FD_INODE, f_off := 0\<rparr>)
     \<lparr>f_ip := ip, f_readable := (omode AND O_WRONLY = 0),
      f_writable := (omode AND O_WRONLY \<noteq> 0 \<or> omode AND O_RDWR \<noteq> 0)\<rparr>"

definition sys_open :: "('a kernel_scheme, u64) routine" where
  "sys_open =
     bnd (argint 1) (\<lambda>(_, omode).
     bnd (argstr 0 MAXPATH) (\<lambda>(n, path).
     if n < 0 then ret minus_one
     else
       andthen begin_op
      (bnd (open_inode path omode) (\<lambda>r.
       case r of
         None \<Rightarrow> end_with minus_one
       | Some ip \<Rightarrow>
           bnd (gets (\<lambda>s. itable s ! ip)) (\<lambda>x.
           if i_type x = T_DEVICE \<and> (sint (i_major x) < 0 \<or> sint (i_major x) \<ge> int NDEV)
           then andthen (iunlockput ip) (end_with minus_one)
           else
             bnd open_fd (\<lambda>r.
             case r of
               None \<Rightarrow> andthen (iunlockput ip) (end_with minus_one)
             | Some (f, fd) \<Rightarrow>
                 andthen (modify (upd_file f (open_setup x ip omode)))
                (andthen (whenM (omode AND O_TRUNC \<noteq> 0 \<and> i_type x = T_FILE) (itrunc ip))
                (andthen (iunlock ip)
                         (end_with (of_nat fd))))))))))"

text \<open>\<^verbatim>\<open>sys_mkdir\<close> and \<^verbatim>\<open>sys_mknod\<close> end alike.\<close>

definition create_and_put :: "string \<Rightarrow> u16 \<Rightarrow> u16 \<Rightarrow> u16 \<Rightarrow> ('a kernel_scheme, u64) routine" where
  "create_and_put path type major minor =
     bnd (create path type major minor) (\<lambda>r.
     case r of
       None \<Rightarrow> end_with minus_one
     | Some ip \<Rightarrow> andthen (iunlockput ip) (end_with 0))"

definition sys_mkdir :: "('a kernel_scheme, u64) routine" where
  "sys_mkdir =
     andthen begin_op
    (bnd (argstr 0 MAXPATH) (\<lambda>(r, path).
     if r < 0 then end_with minus_one else create_and_put path T_DIR 0 0))"

definition sys_mknod :: "('a kernel_scheme, u64) routine" where
  "sys_mknod =
     andthen begin_op
    (bnd (argint 1) (\<lambda>(_, major).
     bnd (argint 2) (\<lambda>(_, minor).
     bnd (argstr 0 MAXPATH) (\<lambda>(r, path).
     if r < 0 then end_with minus_one
     else create_and_put path T_DEVICE (word_of_int major) (word_of_int minor)))))"

definition sys_chdir :: "('a kernel_scheme, u64) routine" where
  "sys_chdir =
     andthen begin_op
    (bnd (argstr 0 MAXPATH) (\<lambda>(r, path).
     if r < 0 then end_with minus_one
     else bnd (namei path) (\<lambda>r.
          case r of
            None \<Rightarrow> end_with minus_one
          | Some ip \<Rightarrow>
              andthen (ilock ip)
             (bnd (gets (\<lambda>s. i_type (itable s ! ip))) (\<lambda>ty.
              if ty \<noteq> T_DIR then andthen (iunlockput ip) (end_with minus_one)
              else andthen (iunlock ip)
                  (bnd (gets me) (\<lambda>i.
                   andthen (put_cwd i)
                  (andthen end_op
                  (andthen (modify (upd_proc i (\<lambda>p. p\<lparr>p_cwd := Some ip\<rparr>)))
                           (ret 0))))))))))"

section \<open>exec and pipe\<close>

text \<open>
  The loop of \<^verbatim>\<open>sys_exec\<close> that fetches the argument strings: the strings, the pages
  allocated for them, and whether the vector was complete. An entry beyond \<open>MAXARG\<close> is the
  error exit. The strings are handed on as values; the pages that hold them in the kernel are
  allocated here and freed at the end.
\<close>

fun exec_args :: "u64 \<Rightarrow> nat \<Rightarrow> string list \<Rightarrow> u64 list \<Rightarrow> ('a kproc_scheme, string list \<times> u64 list \<times> bool) routine"
where
  "exec_args uargv 0 argv pages = ret (argv, pages, False)"
| "exec_args uargv (Suc left) argv pages =
     bnd (fetchaddr (uargv + 8 * of_nat (length argv))) (\<lambda>(r, uarg).
     if r < 0 then ret (argv, pages, False)
     else if uarg = 0 then ret (argv, pages, True)
     else bnd kalloc (\<lambda>page.
          if page = 0 then ret (argv, pages, False)
          else bnd (fetchstr uarg 4096) (\<lambda>(r, str).
               if r < 0 then ret (argv, pages @ [page], False)
               else exec_args uargv left (argv @ [str]) (pages @ [page]))))"

definition sys_exec :: "('a kernel_scheme, u64) routine" where
  "sys_exec =
     bnd (argaddr 1) (\<lambda>(_, uargv).
     bnd (argstr 0 MAXPATH) (\<lambda>(r, path).
     if r < 0 then ret minus_one
     else bnd (exec_args uargv MAXARG [] []) (\<lambda>(argv, pages, ok).
          bnd (if ok then kexec path argv else ret (-1)) (\<lambda>r.
          andthen (forM pages kfree) (ret (u64_of_int r))))))"

definition pipe_undo :: "nat \<Rightarrow> nat \<Rightarrow> ('a kernel_scheme, u64) routine" where
  "pipe_undo f0 f1 = andthen (fileclose f0) (andthen (fileclose f1) (ret minus_one))"

definition pipe_copyout :: "u64 \<Rightarrow> nat \<Rightarrow> nat \<Rightarrow> ('a kernel_scheme, bool) routine" where
  "pipe_copyout fdarray fd0 fd1 =
     bnd (gets myproc) (\<lambda>p.
     bnd (copyout (p_sz p) (p_pagetable p) (p_pagetable p) fdarray (le_enc 4 (of_nat fd0 :: u32))) (\<lambda>r.
     if r < 0 then ret False
     else bnd (copyout (p_sz p) (p_pagetable p) (p_pagetable p) (fdarray + 4) (le_enc 4 (of_nat fd1 :: u32))) (\<lambda>r.
          ret (\<not> r < 0))))"

definition sys_pipe :: "('a kernel_scheme, u64) routine" where
  "sys_pipe =
     bnd (argaddr 0) (\<lambda>(_, fdarray).
     bnd pipealloc (\<lambda>r.
     case r of
       None \<Rightarrow> ret minus_one
     | Some (f0, f1) \<Rightarrow>
         bnd (fdalloc f0) (\<lambda>fd0.
         case fd0 of
           None \<Rightarrow> pipe_undo f0 f1
         | Some fd0 \<Rightarrow>
             bnd (fdalloc f1) (\<lambda>fd1.
             case fd1 of
               None \<Rightarrow> andthen (modify (set_fd fd0 None)) (pipe_undo f0 f1)
             | Some fd1 \<Rightarrow>
                 bnd (pipe_copyout fdarray fd0 fd1) (\<lambda>ok.
                 if ok then ret 0
                 else andthen (modify (set_fd fd0 None))
                     (andthen (modify (set_fd fd1 None)) (pipe_undo f0 f1)))))))"

section \<open>The audit log\<close>

text \<open>
  \<^verbatim>\<open>int_to_str\<close> fills \<^verbatim>\<open>temp\<close> with the digits, least significant first, and copies them in
  reverse. Neither loop runs for a negative number, which gives the empty string.
\<close>

function its_temp :: "int \<Rightarrow> string" where
  "its_temp n = (if n > 0 then char_of (nat (n mod 10 + 48)) # its_temp (n div 10) else [])"
  by pat_completeness auto
termination by (relation "measure nat") auto

declare its_temp.simps [simp del]

definition int_to_str :: "int \<Rightarrow> string" where
  "int_to_str n = (if n = 0 then ''0'' else rev (its_temp n))"

definition audit_msg :: "int \<Rightarrow> int \<Rightarrow> string" where
  "audit_msg pid syscall_num =
     ''AUDIT: PID='' @ int_to_str pid @ '' BLOCKED SYSCALL='' @ int_to_str syscall_num @ nl"

definition audit_log_write :: "int \<Rightarrow> int \<Rightarrow> ('a kernel_scheme, unit) routine" where
  "audit_log_write pid syscall_num =
     (let msg = audit_msg pid syscall_num in
      andthen begin_op
     (bnd (namei ''/audit.log'') (\<lambda>r.
      case r of
        None \<Rightarrow> end_op
      | Some ip \<Rightarrow>
          andthen (ilock ip)
         (bnd (gets (\<lambda>s. itable s ! ip)) (\<lambda>x.
          andthen (whenM (i_type x = T_FILE)
                     (bnd (writei ip (FromKernel (map c2b msg)) (i_size x) (of_nat (length msg))) (\<lambda>_. skip)))
         (andthen (iunlockput ip) end_op))))))"

end
