(* ===== verification/Syscall.thy ===== *)
theory Syscall
  imports Sysproc Sysfile
begin

text \<open>
  System call dispatch and the syscall filter (\<^verbatim>\<open>kernel/syscall.c\<close>, \<^verbatim>\<open>kernel/syscall.h\<close>).
\<close>

definition SYS_fork :: int where "SYS_fork = 1"
definition SYS_exit :: int where "SYS_exit = 2"
definition SYS_wait :: int where "SYS_wait = 3"
definition SYS_pipe :: int where "SYS_pipe = 4"
definition SYS_read :: int where "SYS_read = 5"
definition SYS_kill :: int where "SYS_kill = 6"
definition SYS_exec :: int where "SYS_exec = 7"
definition SYS_fstat :: int where "SYS_fstat = 8"
definition SYS_chdir :: int where "SYS_chdir = 9"
definition SYS_dup :: int where "SYS_dup = 10"
definition SYS_getpid :: int where "SYS_getpid = 11"
definition SYS_sbrk :: int where "SYS_sbrk = 12"
definition SYS_pause :: int where "SYS_pause = 13"
definition SYS_uptime :: int where "SYS_uptime = 14"
definition SYS_open :: int where "SYS_open = 15"
definition SYS_write :: int where "SYS_write = 16"
definition SYS_mknod :: int where "SYS_mknod = 17"
definition SYS_unlink :: int where "SYS_unlink = 18"
definition SYS_link :: int where "SYS_link = 19"
definition SYS_mkdir :: int where "SYS_mkdir = 20"
definition SYS_close :: int where "SYS_close = 21"
definition SYS_hello :: int where "SYS_hello = 22"
definition SYS_setfilter :: int where "SYS_setfilter = 23"
definition SYS_getfilter :: int where "SYS_getfilter = 24"
definition SYS_setfilter_child :: int where "SYS_setfilter_child = 25"
definition SYS_setaudit :: int where "SYS_setaudit = 26"
definition SYS_setstrict :: int where "SYS_setstrict = 27"

lemmas sys_nums = SYS_fork_def SYS_exit_def SYS_wait_def SYS_pipe_def SYS_read_def SYS_kill_def
  SYS_exec_def SYS_fstat_def SYS_chdir_def SYS_dup_def SYS_getpid_def SYS_sbrk_def SYS_pause_def
  SYS_uptime_def SYS_open_def SYS_write_def SYS_mknod_def SYS_unlink_def SYS_link_def SYS_mkdir_def
  SYS_close_def SYS_hello_def SYS_setfilter_def SYS_getfilter_def SYS_setfilter_child_def
  SYS_setaudit_def SYS_setstrict_def

text \<open>The array \<^verbatim>\<open>syscalls\<close>; a number outside it, or an empty slot, has no handler.\<close>

definition syscall_table :: "(int \<times> ('a kernel_scheme, u64) routine) list" where
  "syscall_table =
    [(SYS_fork, sys_fork), (SYS_exit, sys_exit), (SYS_wait, sys_wait), (SYS_pipe, sys_pipe),
     (SYS_read, sys_read), (SYS_kill, sys_kill), (SYS_exec, sys_exec), (SYS_fstat, sys_fstat),
     (SYS_chdir, sys_chdir), (SYS_dup, sys_dup), (SYS_getpid, sys_getpid), (SYS_sbrk, sys_sbrk),
     (SYS_pause, sys_pause), (SYS_uptime, sys_uptime), (SYS_open, sys_open), (SYS_write, sys_write),
     (SYS_mknod, sys_mknod), (SYS_unlink, sys_unlink), (SYS_link, sys_link), (SYS_mkdir, sys_mkdir),
     (SYS_close, sys_close), (SYS_hello, sys_hello), (SYS_setfilter, sys_setfilter),
     (SYS_getfilter, sys_getfilter), (SYS_setfilter_child, sys_setfilter_child),
     (SYS_setaudit, sys_setaudit), (SYS_setstrict, sys_setstrict)]"

definition syscalls :: "int \<Rightarrow> ('a kernel_scheme, u64) routine option" where
  "syscalls num = map_of syscall_table num"

section \<open>The filter on arguments\<close>

text \<open>
  A call whose bit is set in the mask may still run if its arguments are harmless (\<open>Pass\<close>),
  fails at once if the path cannot be fetched (\<open>Fault\<close>), and is a violation otherwise (\<open>Deny\<close>).
\<close>

datatype verdict = Pass | Fault | Deny

definition open_arg_ok :: "int \<Rightarrow> string \<Rightarrow> bool" where
  "open_arg_ok omode path \<longleftrightarrow>
     omode AND O_WRONLY = 0 \<and> omode AND O_RDWR = 0 \<and> strncmp path ''secret'' 6 \<noteq> 0"

definition kill_arg_ok :: "int \<Rightarrow> bool" where
  "kill_arg_ok target_pid \<longleftrightarrow> target_pid > 2"

definition exec_arg_ok :: "string \<Rightarrow> bool" where
  "exec_arg_ok path \<longleftrightarrow> strncmp path ''sh'' 3 \<noteq> 0 \<and> strncmp path ''rm'' 3 \<noteq> 0"

definition unlink_arg_ok :: "string \<Rightarrow> bool" where
  "unlink_arg_ok path \<longleftrightarrow>
     strncmp path ''/bin/'' 5 \<noteq> 0 \<and> strncmp path ''README'' 6 \<noteq> 0 \<and> strncmp path ''audit.log'' 9 \<noteq> 0"

definition sbrk_arg_ok :: "int \<Rightarrow> u64 \<Rightarrow> bool" where
  "sbrk_arg_ok n sz \<longleftrightarrow> n \<le> 1024 * 1024 \<and> sz + u64_of_int n \<le> 10 * 1024 * 1024"

definition check_path :: "(string \<Rightarrow> bool) \<Rightarrow> ('a kproc_scheme, verdict) routine" where
  "check_path ok =
     bnd (gets (\<lambda>s. tf_a0 (my_tf s))) (\<lambda>a0.
     bnd (fetchstr a0 MAXPATH) (\<lambda>(r, path).
     ret (if r < 0 then Fault else if ok path then Pass else Deny)))"

definition arg_filter :: "int \<Rightarrow> ('a kproc_scheme, verdict) routine" where
  "arg_filter num =
     (if num = SYS_open then
        bnd (gets (\<lambda>s. c_int (tf_a1 (my_tf s)))) (\<lambda>omode. check_path (open_arg_ok omode))
      else if num = SYS_kill then
        gets (\<lambda>s. if kill_arg_ok (c_int (tf_a0 (my_tf s))) then Pass else Deny)
      else if num = SYS_exec then check_path exec_arg_ok
      else if num = SYS_unlink then check_path unlink_arg_ok
      else if num = SYS_sbrk then
        gets (\<lambda>s. if sbrk_arg_ok (c_int (tf_a0 (my_tf s))) (p_sz (myproc s)) then Pass else Deny)
      else ret Deny)"

section \<open>Dispatch\<close>

definition set_a0 :: "u64 \<Rightarrow> 'a kproc_scheme \<Rightarrow> 'a kproc_scheme" where
  "set_a0 v = upd_my_tf (\<lambda>t. t\<lparr>tf_a0 := v\<rparr>)"

definition run_handler :: "('a kproc_scheme, u64) routine \<Rightarrow> ('a kproc_scheme, unit) routine" where
  "run_handler h = bnd h (\<lambda>r. modify (set_a0 r))"

text \<open>A violation: strict mode kills the process; the audit mode reports and logs the call.\<close>

definition strict_violation :: "int \<Rightarrow> ('a kernel_scheme, unit) routine" where
  "strict_violation num =
     bnd (gets myproc) (\<lambda>p.
     andthen (kprintf (''Sandbox: Process %d KILLED due to strict violation!'' @ nl) [AInt (p_pid p)])
    (andthen (modify (\<lambda>s. upd_proc (me s) (\<lambda>p. p\<lparr>p_killed := 1\<rparr>) s))
    (andthen (whenM (p_audit_enabled p \<noteq> 0) (audit_log_write (p_pid p) num))
             (modify (set_a0 minus_one)))))"

definition plain_violation :: "int \<Rightarrow> ('a kernel_scheme, unit) routine" where
  "plain_violation num =
     bnd (gets myproc) (\<lambda>p.
     andthen (modify (set_a0 minus_one))
             (whenM (p_audit_enabled p \<noteq> 0)
               (andthen (kprintf (''Sandbox Audit: Process %d (%s) blocked Syscall %d!'' @ nl)
                           [AInt (p_pid p), AStr (Some (p_name p)), AInt num])
                        (audit_log_write (p_pid p) num))))"

definition violation :: "int \<Rightarrow> ('a kernel_scheme, unit) routine" where
  "violation num =
     bnd (gets (\<lambda>s. p_strict_mode (myproc s))) (\<lambda>strict.
     if strict \<noteq> 0 then strict_violation num else plain_violation num)"

definition mask_blocks :: "u64 \<Rightarrow> int \<Rightarrow> bool" where
  "mask_blocks m num \<longleftrightarrow> m AND push_bit (nat num) 1 \<noteq> 0"

definition unknown_syscall :: "int \<Rightarrow> ('a kproc_scheme, unit) routine" where
  "unknown_syscall num =
     bnd (gets myproc) (\<lambda>p.
     andthen (kprintf (''%d %s: unknown sys call %d'' @ nl) [AInt (p_pid p), AStr (Some (p_name p)), AInt num])
             (modify (set_a0 minus_one)))"

definition syscall :: "('a kernel_scheme, unit) routine" where
  "syscall =
     bnd (gets (\<lambda>s. c_int (tf_a7 (my_tf s)))) (\<lambda>num.
     case syscalls num of
       None \<Rightarrow> unknown_syscall num
     | Some h \<Rightarrow>
         bnd (gets (\<lambda>s. p_syscall_mask (myproc s))) (\<lambda>mask.
         if mask_blocks mask num then
           bnd (arg_filter num) (\<lambda>v.
           case v of
             Pass \<Rightarrow> run_handler h
           | Fault \<Rightarrow> modify (set_a0 minus_one)
           | Deny \<Rightarrow> violation num)
         else run_handler h))"

end
