(* ===== verification/Trap.thy ===== *)
theory Trap
  imports Syscall
begin

text \<open>
  Traps (\<^verbatim>\<open>kernel/trap.c\<close>) and the first return of a process to user space (\<^verbatim>\<open>forkret\<close> of
  \<^verbatim>\<open>kernel/proc.c\<close>). The control registers the code reads and writes are a record; what the
  interrupt controller and the devices report is the argument \<open>ev\<close>.
\<close>

record csr =
  sstatus :: u64
  sepc :: u64
  scause :: u64
  stval :: u64
  stvec :: u64
  satp :: u64
  tp :: u64
  intr_enabled :: bool

text \<open>
  The machine: the kernel, this hart's registers, and the addresses the linker gives to
  \<^verbatim>\<open>uservec\<close>, \<^verbatim>\<open>kernelvec\<close> and \<^verbatim>\<open>usertrap\<close>.
\<close>

record machine = kernel +
  hart :: csr
  sym_uservec :: u64
  sym_kernelvec :: u64
  sym_usertrap :: u64

record devices =
  ev_irq :: int
  ev_tx_idle :: bool
  ev_received :: "u8 list"

definition SSTATUS_SPP :: u64 where "SSTATUS_SPP = push_bit 8 1"
definition SSTATUS_SPIE :: u64 where "SSTATUS_SPIE = push_bit 5 1"
definition UART0_IRQ :: int where "UART0_IRQ = 10"
definition VIRTIO0_IRQ :: int where "VIRTIO0_IRQ = 1"

definition MAKE_SATP :: "u64 \<Rightarrow> u64" where
  "MAKE_SATP pagetable = push_bit 60 8 OR drop_bit 12 pagetable"

definition upd_hart :: "(csr \<Rightarrow> csr) \<Rightarrow> 'a machine_scheme \<Rightarrow> 'a machine_scheme" where
  "upd_hart f s = s\<lparr>hart := f (hart s)\<rparr>"

section \<open>Device interrupts\<close>

text \<open>\<^verbatim>\<open>clockintr\<close> on hart \<open>id\<close>; programming the timer is left out.\<close>

definition clockintr :: "u64 \<Rightarrow> ('a machine_scheme, unit) routine" where
  "clockintr cpuid =
     whenM (cpuid = 0)
       (andthen (modify (\<lambda>s. s\<lparr>ticks := ticks s + 1\<rparr>)) (modify (wakeup ChTicks)))"

definition devintr :: "devices \<Rightarrow> ('a machine_scheme, int) routine" where
  "devintr ev =
     bnd (gets (\<lambda>s. (scause (hart s), tp (hart s)))) (\<lambda>(cause, hartid).
     if cause = 0x8000000000000009 then
       andthen (if ev_irq ev = UART0_IRQ then uartintr (ev_tx_idle ev) (ev_received ev)
                else if ev_irq ev = VIRTIO0_IRQ then skip
                else whenM (ev_irq ev \<noteq> 0) (kprintf (''unexpected interrupt irq=%d'' @ nl) [AInt (ev_irq ev)]))
               (ret 1)
     else if cause = 0x8000000000000005 then andthen (clockintr hartid) (ret 2)
     else ret 0)"

section \<open>Returning to user space\<close>

definition prepare_return :: "('a machine_scheme, unit) routine" where
  "prepare_return =
     andthen (modify (upd_hart (\<lambda>h. h\<lparr>intr_enabled := False\<rparr>)))
    (andthen (modify (\<lambda>s. upd_hart (\<lambda>h. h\<lparr>stvec := TRAMPOLINE + (sym_uservec s - sym_trampoline s)\<rparr>) s))
    (andthen (modify (\<lambda>s. upd_my_tf (\<lambda>t. t\<lparr>tf_kernel_satp := satp (hart s),
                tf_kernel_sp := p_kstack (myproc s) + PGSIZE, tf_kernel_trap := sym_usertrap s,
                tf_kernel_hartid := tp (hart s)\<rparr>) s))
             (modify (\<lambda>s. upd_hart (\<lambda>h. h\<lparr>sstatus := (sstatus h AND NOT SSTATUS_SPP) OR SSTATUS_SPIE,
                sepc := tf_epc (my_tf s)\<rparr>) s))))"

text \<open>\<^verbatim>\<open>forkret\<close> up to the jump to \<^verbatim>\<open>userret\<close>; the result is the \<^verbatim>\<open>satp\<close> it passes.\<close>

definition forkret :: "('a machine_scheme, u64) routine" where
  "forkret =
     bnd (gets first) (\<lambda>fst_time.
     andthen (whenM fst_time
       (andthen (fsinit ROOTDEV)
       (andthen (modify (\<lambda>s. s\<lparr>first := False\<rparr>))
       (bnd (kexec ''/init'' [''/init'']) (\<lambda>r.
        andthen (modify (set_a0 (u64_of_int r)))
       (bnd (gets (\<lambda>s. tf_a0 (my_tf s))) (\<lambda>a0. panic_if (a0 = minus_one) ''exec'')))))))
    (andthen prepare_return
             (gets (\<lambda>s. MAKE_SATP (p_pagetable (myproc s))))))"

section \<open>usertrap\<close>

definition exit_if_killed :: "('a machine_scheme, unit) routine" where
  "exit_if_killed = bnd (gets (\<lambda>s. killed (me s) s)) (\<lambda>k. if k \<noteq> 0 then kexit (-1) else skip)"

definition trap_unexpected :: "('a machine_scheme, unit) routine" where
  "trap_unexpected =
     bnd (gets (\<lambda>s. (hart s, p_pid (myproc s)))) (\<lambda>(h, pid).
     andthen (kprintf (''usertrap(): unexpected scause 0x%lx pid=%d'' @ nl) [AInt (uint (scause h)), AInt pid])
    (andthen (kprintf (''            sepc=0x%lx stval=0x%lx'' @ nl) [AInt (uint (sepc h)), AInt (uint (stval h))])
             (modify (\<lambda>s. setkilled (me s) s))))"

text \<open>The cause analysis of \<^verbatim>\<open>usertrap\<close>; the result is \<^verbatim>\<open>which_dev\<close>.\<close>

definition usertrap_cause :: "devices \<Rightarrow> ('a machine_scheme, int) routine" where
  "usertrap_cause ev =
     bnd (gets (\<lambda>s. (scause (hart s), stval (hart s)))) (\<lambda>(cause, fault).
     if cause = 8 then
       andthen exit_if_killed
      (andthen (modify (upd_my_tf (\<lambda>t. t\<lparr>tf_epc := tf_epc t + 4\<rparr>)))
      (andthen (modify (upd_hart (\<lambda>h. h\<lparr>intr_enabled := True\<rparr>)))
      (andthen syscall (ret 0))))
     else bnd (devintr ev) (\<lambda>which_dev.
       if which_dev \<noteq> 0 then ret which_dev
       else if cause = 15 \<or> cause = 13 then
         bnd (gets myproc) (\<lambda>p.
         bnd (vmfault (p_sz p) (p_pagetable p) (p_pagetable p) fault) (\<lambda>m.
         if m \<noteq> 0 then ret 0 else andthen trap_unexpected (ret 0)))
       else andthen trap_unexpected (ret 0)))"

text \<open>
  \<^verbatim>\<open>usertrap\<close>. A timer interrupt yields: the process is marked runnable and the rest runs
  once it is scheduled again, when the scheduler has marked it running.
\<close>

definition usertrap :: "devices \<Rightarrow> ('a machine_scheme, u64) routine" where
  "usertrap ev =
     bnd (gets (\<lambda>s. sstatus (hart s) AND SSTATUS_SPP \<noteq> 0)) (\<lambda>from_kernel.
     andthen (panic_if from_kernel ''usertrap: not from user mode'')
    (andthen (modify (\<lambda>s. upd_hart (\<lambda>h. h\<lparr>stvec := sym_kernelvec s\<rparr>) s))
    (andthen (modify (\<lambda>s. upd_my_tf (\<lambda>t. t\<lparr>tf_epc := sepc (hart s)\<rparr>) s))
    (bnd (usertrap_cause ev) (\<lambda>which_dev.
     andthen exit_if_killed
    (andthen (whenM (which_dev = 2)
                (andthen (modify yield)
                         (modify (\<lambda>s. upd_proc (me s) (\<lambda>p. p\<lparr>p_state := RUNNING\<rparr>) s))))
    (andthen prepare_return
             (gets (\<lambda>s. MAKE_SATP (p_pagetable (myproc s)))))))))))"

definition kerneltrap :: "devices \<Rightarrow> ('a machine_scheme, unit) routine" where
  "kerneltrap ev =
     bnd (gets hart) (\<lambda>h0.
     andthen (panic_if (sstatus h0 AND SSTATUS_SPP = 0) ''kerneltrap: not from supervisor mode'')
    (andthen (panic_if (intr_enabled h0) ''kerneltrap: interrupts enabled'')
    (bnd (devintr ev) (\<lambda>which_dev.
     andthen (whenM (which_dev = 0)
       (andthen (kprintf (''scause=0x%lx sepc=0x%lx stval=0x%lx'' @ nl)
                   [AInt (uint (scause h0)), AInt (uint (sepc h0)), AInt (uint (stval h0))])
                (panic ''kerneltrap'')))
    (andthen (bnd (gets cur) (\<lambda>c. whenM (which_dev = 2 \<and> c \<noteq> None)
                (andthen (modify yield)
                         (modify (\<lambda>s. upd_proc (me s) (\<lambda>p. p\<lparr>p_state := RUNNING\<rparr>) s)))))
             (modify (upd_hart (\<lambda>h. h\<lparr>sepc := sepc h0, sstatus := sstatus h0\<rparr>))))))))"

end
