(* ===== verification/Stable.thy ===== *)
theory Stable
  imports Trap
begin

text \<open>
  Invariants that the memory-management layer cannot touch: a predicate that does not
  depend on physical memory or on the free list is kept by every routine of
  \<^verbatim>\<open>kernel/kalloc.c\<close> and \<^verbatim>\<open>kernel/vm.c\<close>.
\<close>

definition mem_stable :: "('a kmem_scheme \<Rightarrow> bool) \<Rightarrow> bool" where
  "mem_stable I \<longleftrightarrow> (\<forall>s m. I s \<longrightarrow> I (s\<lparr>k_mem := m\<rparr>)) \<and> (\<forall>s f. I s \<longrightarrow> I (s\<lparr>k_free := f\<rparr>))"

lemma mem_stable_mem: "mem_stable I \<Longrightarrow> I s \<Longrightarrow> I (s\<lparr>k_mem := m\<rparr>)"
  by (simp add: mem_stable_def)

named_theorems vm_keeps "every routine of the memory layer keeps a stable invariant"

lemma set_mem_keeps [vm_keeps]: "mem_stable I \<Longrightarrow> keeps I (modify (\<lambda>s. s\<lparr>k_mem := f s\<rparr>))"
  by (simp add: keeps_modify mem_stable_def)

lemma set_free_keeps [vm_keeps]: "mem_stable I \<Longrightarrow> keeps I (modify (\<lambda>s. s\<lparr>k_free := f s\<rparr>))"
  by (simp add: keeps_modify mem_stable_def)

lemma kfree_keeps [vm_keeps]: "mem_stable I \<Longrightarrow> keeps I (kfree pa)"
  unfolding kfree_def by (intro keeps_intros vm_keeps)

lemma kalloc_keeps [vm_keeps]: "mem_stable I \<Longrightarrow> keeps I kalloc"
  unfolding kalloc_def by (intro keeps_intros vm_keeps)

lemma walk_loop_keeps: "mem_stable I \<Longrightarrow> keeps I (walk_loop l pt va alloc)"
  by (induction l arbitrary: pt) (auto intro!: keeps_intros vm_keeps)

lemma walk_keeps [vm_keeps]: "mem_stable I \<Longrightarrow> keeps I (walk pt va alloc)"
  unfolding walk_def by (intro keeps_intros walk_loop_keeps)

lemma walkaddr_keeps [vm_keeps]: "mem_stable I \<Longrightarrow> keeps I (walkaddr pt va)"
  unfolding walkaddr_def by (intro keeps_intros vm_keeps)

lemma mappages_loop_keeps:
  assumes "mem_stable I"
  shows "I s \<Longrightarrow> mappages_loop pt a lst pa perm s = Inr (r, t) \<Longrightarrow> I t"
proof (induction pt a lst pa perm s rule: mappages_loop.induct)
  case (1 pt a lst pa perm s)
  obtain pte u where w: "walk pt a True s = Inr (pte, u)"
    using 1(3) by (auto simp: mappages_loop.simps [of pt a] split: sum.splits)
  have u: "I u" using keepsD [OF walk_keeps [OF assms] 1(2) w] .
  show ?case
    using 1(1) [OF w refl] 1(3) u mem_stable_mem [OF assms u]
    by (auto simp: mappages_loop.simps [of pt a] w Let_def split: if_splits)
qed

lemma mappages_keeps [vm_keeps]: "mem_stable I \<Longrightarrow> keeps I (mappages pt va sz pa perm)"
  unfolding mappages_def by (intro keeps_intros keepsI) (rule mappages_loop_keeps)

lemma uvmcreate_keeps [vm_keeps]: "mem_stable I \<Longrightarrow> keeps I uvmcreate"
  unfolding uvmcreate_def by (intro keeps_intros vm_keeps)

lemma unmap_page_keeps [vm_keeps]: "mem_stable I \<Longrightarrow> keeps I (unmap_page pte do_free)"
  unfolding unmap_page_def by (intro keeps_intros vm_keeps)

lemma uvmunmap_loop_keeps:
  assumes "mem_stable I"
  shows "I s \<Longrightarrow> uvmunmap_loop pt a e f s = Inr (r, t) \<Longrightarrow> I t"
proof (induction pt a e f s rule: uvmunmap_loop.induct)
  case (1 pt a e f s)
  show ?case
  proof (cases "a < e")
    case True
    obtain pte u where w: "walk pt a False s = Inr (pte, u)"
      using 1(3) True by (auto simp: uvmunmap_loop.simps [of pt a] split: sum.splits)
    obtain x v where x: "unmap_page pte f u = Inr (x, v)"
      using 1(3) True by (auto simp: uvmunmap_loop.simps [of pt a] w split: sum.splits)
    have "I v"
      using keepsD [OF walk_keeps [OF assms] 1(2) w] keepsD [OF unmap_page_keeps [OF assms] _ x] by blast
    then show ?thesis
      using 1(1) [OF True w refl x refl] 1(3) True
      by (simp add: uvmunmap_loop.simps [of pt a] w x)
  next
    case False
    then show ?thesis using 1(2,3) by (simp add: uvmunmap_loop.simps [of pt a])
  qed
qed

lemma uvmunmap_keeps [vm_keeps]: "mem_stable I \<Longrightarrow> keeps I (uvmunmap pt va n f)"
  unfolding uvmunmap_def by (intro keeps_intros keepsI) (rule uvmunmap_loop_keeps)

lemma uvmdealloc_keeps [vm_keeps]: "mem_stable I \<Longrightarrow> keeps I (uvmdealloc pt oldsz newsz)"
  unfolding uvmdealloc_def by (intro keeps_intros vm_keeps)

lemma uvmalloc_loop_keeps:
  assumes "mem_stable I"
  shows "I s \<Longrightarrow> uvmalloc_loop pt a oldsz newsz xperm s = Inr (r, t) \<Longrightarrow> I t"
proof (induction pt a oldsz newsz xperm s rule: uvmalloc_loop.induct)
  case (1 pt a oldsz newsz xperm s)
  have fail: "I u \<Longrightarrow> andthen (uvmdealloc pt a oldsz) (ret 0) u = Inr (r, t) \<Longrightarrow> I t" for u
    by (rule keepsD [of I "andthen (uvmdealloc pt a oldsz) (ret 0)"])
      (intro keeps_intros vm_keeps assms)
  have fail2: "I u \<Longrightarrow> andthen (kfree m) (andthen (uvmdealloc pt a oldsz) (ret 0)) u = Inr (r, t) \<Longrightarrow> I t" for u m
    by (rule keepsD [of I "andthen (kfree m) (andthen (uvmdealloc pt a oldsz) (ret 0))"])
      (intro keeps_intros vm_keeps assms)
  show ?case
  proof (cases "a < newsz")
    case True
    obtain m u where k: "kalloc s = Inr (m, u)"
      using 1(3) True by (auto simp: uvmalloc_loop.simps [of pt a] split: sum.splits)
    have u: "I u" using keepsD [OF kalloc_keeps [OF assms] 1(2) k] .
    show ?thesis
    proof (cases "m = 0")
      case m0: True
      then show ?thesis using 1(3) True u by (auto simp: uvmalloc_loop.simps [of pt a] k intro: fail)
    next
      case m1: False
      obtain x v where p: "mappages pt a PGSIZE m (PTE_R OR PTE_U OR xperm)
          (u\<lparr>k_mem := memset (k_mem u) m 0 4096\<rparr>) = Inr (x, v)"
        using 1(3) True m1 by (auto simp: uvmalloc_loop.simps [of pt a] k split: sum.splits)
      have v: "I v" using keepsD [OF mappages_keeps [OF assms] mem_stable_mem [OF assms u] p] .
      show ?thesis
        using 1(1) [OF True k refl m1 p refl] 1(3) True m1 v
        by (auto simp: uvmalloc_loop.simps [of pt a] k p split: if_splits intro: fail2)
    qed
  next
    case False
    then show ?thesis using 1(2,3) by (simp add: uvmalloc_loop.simps [of pt a])
  qed
qed

lemma uvmalloc_keeps [vm_keeps]: "mem_stable I \<Longrightarrow> keeps I (uvmalloc pt oldsz newsz xperm)"
  unfolding uvmalloc_def by (intro keeps_intros keepsI) (rule uvmalloc_loop_keeps)

lemma freewalk_keeps [vm_keeps]: "mem_stable I \<Longrightarrow> keeps I (freewalk d pt)"
proof (induction d arbitrary: pt)
  case 0
  then show ?case by (simp add: keeps_def)
next
  case (Suc d)
  then show ?case by (auto intro!: keeps_intros vm_keeps)
qed

lemma uvmfree_keeps [vm_keeps]: "mem_stable I \<Longrightarrow> keeps I (uvmfree pt sz)"
  unfolding uvmfree_def by (intro keeps_intros vm_keeps)

lemma uvmcopy_page_keeps: "mem_stable I \<Longrightarrow> keeps I (uvmcopy_page new i pte)"
  unfolding uvmcopy_page_def by (intro keeps_intros vm_keeps)

lemma uvmcopy_loop_keeps:
  assumes "mem_stable I"
  shows "I s \<Longrightarrow> uvmcopy_loop old new i sz s = Inr (r, t) \<Longrightarrow> I t"
proof (induction old new i sz s rule: uvmcopy_loop.induct)
  case (1 old new i sz s)
  have fail: "I u \<Longrightarrow> andthen (uvmunmap new 0 (i div PGSIZE) True) (ret (-1)) u = Inr (r, t) \<Longrightarrow> I t" for u
    by (rule keepsD [of I "andthen (uvmunmap new 0 (i div PGSIZE) True) (ret (-1))"])
      (intro keeps_intros vm_keeps assms)
  show ?case
  proof (cases "i < sz")
    case True
    obtain pte u where w: "walk old i False s = Inr (pte, u)"
      using 1(3) True by (auto simp: uvmcopy_loop.simps [of old new i] split: sum.splits)
    obtain x v where x: "uvmcopy_page new i pte u = Inr (x, v)"
      using 1(3) True by (auto simp: uvmcopy_loop.simps [of old new i] w split: sum.splits)
    have v: "I v"
      using keepsD [OF walk_keeps [OF assms] 1(2) w] keepsD [OF uvmcopy_page_keeps [OF assms] _ x] by blast
    then show ?thesis
      using 1(1) [OF True w refl x refl] 1(3) True
      by (auto simp: uvmcopy_loop.simps [of old new i] w x split: if_splits intro: fail)
  next
    case False
    then show ?thesis using 1(2,3) by (simp add: uvmcopy_loop.simps [of old new i])
  qed
qed

lemma uvmcopy_keeps [vm_keeps]: "mem_stable I \<Longrightarrow> keeps I (uvmcopy old new sz)"
  unfolding uvmcopy_def by (intro keepsI) (rule uvmcopy_loop_keeps)

lemma uvmclear_keeps [vm_keeps]: "mem_stable I \<Longrightarrow> keeps I (uvmclear pt va)"
  unfolding uvmclear_def by (intro keeps_intros vm_keeps)

lemma ismapped_keeps [vm_keeps]: "mem_stable I \<Longrightarrow> keeps I (ismapped pt va)"
  unfolding ismapped_def by (intro keeps_intros vm_keeps)

lemma vmfault_keeps [vm_keeps]: "mem_stable I \<Longrightarrow> keeps I (vmfault psz ppt pt va)"
  unfolding vmfault_def by (intro keeps_intros vm_keeps)

lemma copyout_page_keeps: "mem_stable I \<Longrightarrow> keeps I (copyout_page psz ppt pt va0)"
  unfolding copyout_page_def by (intro keeps_intros vm_keeps)

lemma copyout_keeps [vm_keeps]:
  assumes "mem_stable I"
  shows "keeps I (copyout psz ppt pt va src)"
proof (rule keepsI)
  fix s r t
  show "I s \<Longrightarrow> copyout psz ppt pt va src s = Inr (r, t) \<Longrightarrow> I t"
  proof (induction psz ppt pt va src s rule: copyout.induct)
    case (1 psz ppt pt va src s)
    show ?case
    proof (cases "src = []")
      case True
      then show ?thesis using 1(2,3) by (simp add: copyout.simps)
    next
      case False
      obtain pa u where w: "copyout_page psz ppt pt (PGROUNDDOWN va) s = Inr (pa, u)"
        using 1(3) False by (auto simp: copyout.simps [of psz ppt pt va] split: sum.splits)
      have u: "I u" using keepsD [OF copyout_page_keeps [OF assms] 1(2) w] .
      show ?thesis
        using 1(1) [OF False w refl _ refl mem_stable_mem [OF assms u]] 1(3) False u
        by (auto simp: copyout.simps [of psz ppt pt va] w Let_def split: if_splits)
    qed
  qed
qed

lemma copyin_page_keeps: "mem_stable I \<Longrightarrow> keeps I (copyin_page psz ppt pt va0)"
  unfolding copyin_page_def by (intro keeps_intros vm_keeps)

lemma copyin_keeps [vm_keeps]:
  assumes "mem_stable I"
  shows "keeps I (copyin psz ppt pt va len acc)"
proof (rule keepsI)
  fix s r t
  show "I s \<Longrightarrow> copyin psz ppt pt va len acc s = Inr (r, t) \<Longrightarrow> I t"
  proof (induction psz ppt pt va len acc s rule: copyin.induct)
    case (1 psz ppt pt va len acc s)
    show ?case
    proof (cases "len = 0")
      case True
      then show ?thesis using 1(2,3) by (simp add: copyin.simps)
    next
      case False
      obtain pa u where w: "copyin_page psz ppt pt (PGROUNDDOWN va) s = Inr (pa, u)"
        using 1(3) False by (auto simp: copyin.simps [of psz ppt pt va] split: sum.splits)
      have u: "I u" using keepsD [OF copyin_page_keeps [OF assms] 1(2) w] .
      show ?thesis
        using 1(1) [OF False w refl _ refl u] 1(3) False u
        by (auto simp: copyin.simps [of psz ppt pt va] w Let_def split: if_splits)
    qed
  qed
qed

text \<open>A walk that does not allocate, and the string fetch built on it, do not change the state at all.\<close>

lemma walk_loop_same: "walk_loop l pt va False s = Inr (r, t) \<Longrightarrow> t = s"
  by (induction l arbitrary: pt) (auto simp: bnd_Inr gets_def ret_def split: if_splits)

lemma walk_same: "walk pt va False s = Inr (r, t) \<Longrightarrow> t = s"
  by (auto simp: walk_def andthen_def bnd_Inr panic_if_def panic_def skip_def ret_def
      split: if_splits dest: walk_loop_same)

lemma walkaddr_same: "walkaddr pt va s = Inr (r, t) \<Longrightarrow> t = s"
  by (auto simp: walkaddr_def bnd_Inr gets_def ret_def split: if_splits dest: walk_same)

lemma copyinstr_same: "copyinstr pt va mx acc s = Inr (r, t) \<Longrightarrow> t = s"
proof (induction pt va mx acc s rule: copyinstr.induct)
  case (1 pt va mx acc s)
  show ?case
  proof (cases "mx = 0")
    case True
    then show ?thesis using 1(2) by (simp add: copyinstr.simps)
  next
    case False
    obtain pa u where w: "walkaddr pt (PGROUNDDOWN va) s = Inr (pa, u)"
      using 1(2) False by (auto simp: copyinstr.simps [of pt va] split: sum.splits)
    show ?thesis
      using 1(1) [OF False w refl _ refl refl] 1(2) False walkaddr_same [OF w]
      by (auto simp: copyinstr.simps [of pt va] w Let_def split: if_splits)
  qed
qed

lemma fetchstr_same: "fetchstr a mx s = Inr (r, t) \<Longrightarrow> t = s"
  by (auto simp: fetchstr_def bnd_Inr gets_def ret_def split: prod.splits dest: copyinstr_same)

lemma copyinstr_keeps [vm_keeps]: "keeps I (copyinstr pt va mx acc)"
  by (rule keepsI) (auto dest: copyinstr_same)

lemma proc_freepagetable_keeps [vm_keeps]: "mem_stable I \<Longrightarrow> keeps I (proc_freepagetable pt sz)"
  unfolding proc_freepagetable_def by (intro keeps_intros vm_keeps)

lemma proc_pagetable_keeps [vm_keeps]: "mem_stable I \<Longrightarrow> keeps I (proc_pagetable i)"
  unfolding proc_pagetable_def by (intro keeps_intros vm_keeps)

end
