(* ===== verification/Ratchet.thy ===== *)
theory Ratchet
  imports Stable
begin

text \<open>
  The additive-only ratchet of the syscall filter, for the whole kernel: whatever a process
  does in a system call or a trap, no filter of a live process loses a blocked call. The
  invariant \<open>ratchet\<close> is relative to the masks \<open>m\<close>, the pids \<open>pd\<close> and the killed flags \<open>kd\<close>
  at entry, for the set \<open>L\<close> of processes that were alive then; \<open>i\<close> is the process running
  on this CPU.
\<close>

definition live :: "procstate \<Rightarrow> bool" where
  "live st \<longleftrightarrow> st \<noteq> UNUSED \<and> st \<noteq> ZOMBIE"

definition ratchet ::
  "nat \<Rightarrow> nat set \<Rightarrow> (nat \<Rightarrow> u64) \<Rightarrow> (nat \<Rightarrow> int) \<Rightarrow> (nat \<Rightarrow> bool) \<Rightarrow> 'a kproc_scheme \<Rightarrow> bool" where
  "ratchet i L m pd kd s \<longleftrightarrow> cur s = Some i \<and> i \<in> L \<and>
     (\<forall>j\<in>L. j < length (procs s) \<and> live (p_state (procs s ! j)) \<and> p_pid (procs s ! j) = pd j \<and>
            p_syscall_mask (procs s ! j) AND m j = m j \<and> (kd j \<longrightarrow> p_killed (procs s ! j) \<noteq> 0))"

section \<open>What the invariant does not depend on\<close>

lemma ratchet_fields [simp]:
  "ratchet i L m pd kd (s\<lparr>k_mem := x1\<rparr>) = ratchet i L m pd kd s"
  "ratchet i L m pd kd (s\<lparr>k_free := x2\<rparr>) = ratchet i L m pd kd s"
  "ratchet i L m pd kd (s\<lparr>nextpid := x3\<rparr>) = ratchet i L m pd kd s"
  "ratchet i L m pd kd (s\<lparr>initproc := x4\<rparr>) = ratchet i L m pd kd s"
  "ratchet i L m pd kd (s\<lparr>tframes := x5\<rparr>) = ratchet i L m pd kd s"
  "ratchet i L m pd kd (s\<lparr>console := x6\<rparr>) = ratchet i L m pd kd s"
  by (simp_all add: ratchet_def)

lemma ratchet_fields_bio [simp]:
  "ratchet i L m pd kd (s\<lparr>disk := x1\<rparr>) = ratchet i L m pd kd s"
  "ratchet i L m pd kd (s\<lparr>dwrites := x2\<rparr>) = ratchet i L m pd kd s"
  "ratchet i L m pd kd (s\<lparr>bufs := x3\<rparr>) = ratchet i L m pd kd s"
  "ratchet i L m pd kd (s\<lparr>lru := x4\<rparr>) = ratchet i L m pd kd s"
  by (simp_all add: ratchet_def)

lemma ratchet_fields_log [simp]:
  "ratchet i L m pd kd (s\<lparr>lg_start := x1\<rparr>) = ratchet i L m pd kd s"
  "ratchet i L m pd kd (s\<lparr>lg_outstanding := x2\<rparr>) = ratchet i L m pd kd s"
  "ratchet i L m pd kd (s\<lparr>lg_committing := x3\<rparr>) = ratchet i L m pd kd s"
  "ratchet i L m pd kd (s\<lparr>lg_dev := x4\<rparr>) = ratchet i L m pd kd s"
  "ratchet i L m pd kd (s\<lparr>lh := x5\<rparr>) = ratchet i L m pd kd s"
  by (simp_all add: ratchet_def)

lemma ratchet_fields_fs [simp]:
  "ratchet i L m pd kd (s\<lparr>sb := x1\<rparr>) = ratchet i L m pd kd s"
  "ratchet i L m pd kd (s\<lparr>itable := x2\<rparr>) = ratchet i L m pd kd s"
  "ratchet i L m pd kd (t\<lparr>cons_buf := x3\<rparr>) = ratchet i L m pd kd t"
  "ratchet i L m pd kd (t\<lparr>cons_r := x4\<rparr>) = ratchet i L m pd kd t"
  "ratchet i L m pd kd (t\<lparr>cons_w := x5\<rparr>) = ratchet i L m pd kd t"
  "ratchet i L m pd kd (t\<lparr>cons_e := x6\<rparr>) = ratchet i L m pd kd t"
  "ratchet i L m pd kd (t\<lparr>tx_busy := x7\<rparr>) = ratchet i L m pd kd t"
  by (simp_all add: ratchet_def)

lemma ratchet_fields_kernel [simp]:
  "ratchet i L m pd kd (s\<lparr>pipes := x1\<rparr>) = ratchet i L m pd kd s"
  "ratchet i L m pd kd (t\<lparr>ftable := x2\<rparr>) = ratchet i L m pd kd t"
  "ratchet i L m pd kd (t\<lparr>ticks := x3\<rparr>) = ratchet i L m pd kd t"
  "ratchet i L m pd kd (t\<lparr>first := x4\<rparr>) = ratchet i L m pd kd t"
  "ratchet i L m pd kd (u\<lparr>hart := x5\<rparr>) = ratchet i L m pd kd u"
  by (simp_all add: ratchet_def)

lemma ratchet_upd [simp]:
  "ratchet i L m pd kd (upd_my_tf f1 s1) = ratchet i L m pd kd s1"
  "ratchet i L m pd kd (upd_buf b f2 s2) = ratchet i L m pd kd s2"
  "ratchet i L m pd kd (bpin b s2) = ratchet i L m pd kd s2"
  "ratchet i L m pd kd (bunpin b s2) = ratchet i L m pd kd s2"
  "ratchet i L m pd kd (upd_inode b f3 s3) = ratchet i L m pd kd s3"
  "ratchet i L m pd kd (add_nlink b k s3) = ratchet i L m pd kd s3"
  "ratchet i L m pd kd (uart_thr c s1) = ratchet i L m pd kd s1"
  "ratchet i L m pd kd (upd_pipe pi f4 s4) = ratchet i L m pd kd s4"
  "ratchet i L m pd kd (upd_file b f5 s5) = ratchet i L m pd kd s5"
  "ratchet i L m pd kd (upd_hart f6 s6) = ratchet i L m pd kd s6"
  "ratchet i L m pd kd (set_a0 v s1) = ratchet i L m pd kd s1"
  "ratchet i L m pd kd (fork_tf j np s1) = ratchet i L m pd kd s1"
  by (simp_all add: upd_my_tf_def upd_buf_def bpin_def bunpin_def upd_inode_def add_nlink_def uart_thr_def
      upd_pipe_def upd_file_def upd_hart_def set_a0_def fork_tf_def)

lemma ratchet_mem_stable: "mem_stable (ratchet i L m pd kd)"
  by (simp add: mem_stable_def)

section \<open>Updates of the process table\<close>

text \<open>
  An update that leaves filter and pid alone, does not end a live process and does not
  revive a killed one.
\<close>

definition benign :: "(proc \<Rightarrow> proc) \<Rightarrow> bool" where
  "benign f \<longleftrightarrow> (\<forall>p. p_syscall_mask (f p) = p_syscall_mask p \<and> p_pid (f p) = p_pid p \<and>
                    (live (p_state p) \<longrightarrow> live (p_state (f p))) \<and>
                    (p_killed p \<noteq> 0 \<longrightarrow> p_killed (f p) \<noteq> 0))"

lemma ratchet_upd_proc: "benign f \<Longrightarrow> ratchet i L m pd kd s \<Longrightarrow> ratchet i L m pd kd (upd_proc j f s)"
  by (auto simp: ratchet_def nth_upd_proc benign_def)

lemma ratchet_upd_dead: "j \<notin> L \<Longrightarrow> ratchet i L m pd kd s \<Longrightarrow> ratchet i L m pd kd (upd_proc j f s)"
  by (auto simp: ratchet_def nth_upd_proc)

lemma benign_fields [simp]:
  "benign (\<lambda>p. p\<lparr>p_chan := x1\<rparr>)" "benign (\<lambda>p. p\<lparr>p_killed := 1\<rparr>)" "benign (\<lambda>p. p\<lparr>p_parent := x4\<rparr>)"
  "benign (\<lambda>p. p\<lparr>p_sz := x5 p\<rparr>)" "benign (\<lambda>p. p\<lparr>p_ofile := x6 p\<rparr>)" "benign (\<lambda>p. p\<lparr>p_cwd := x7\<rparr>)"
  "benign (\<lambda>p. p\<lparr>p_child_syscall_mask := x8\<rparr>)" "benign (\<lambda>p. p\<lparr>p_audit_enabled := x9\<rparr>)"
  "benign (\<lambda>p. p\<lparr>p_strict_mode := x10\<rparr>)" "benign (\<lambda>p. p\<lparr>p_state := RUNNABLE\<rparr>)"
  "benign (\<lambda>p. p\<lparr>p_state := RUNNING\<rparr>)" "benign (\<lambda>p. p\<lparr>p_name := x11 p, p_pagetable := x12, p_sz := x13\<rparr>)"
  "benign (\<lambda>p. p\<lparr>p_name := x11 p\<rparr>)"
  "benign (\<lambda>p. p\<lparr>p_killed := 1, p_state := (if p_state p = SLEEPING then RUNNABLE else p_state p)\<rparr>)"
  by (simp_all add: benign_def live_def)

lemma ratchet_wakeup [simp]: "ratchet i L m pd kd s \<Longrightarrow> ratchet i L m pd kd (wakeup ch s)"
  by (auto simp: ratchet_def wakeup_def wake_proc_def live_def nth_enumerate_eq)

lemma ratchet_setkilled [simp]: "ratchet i L m pd kd s \<Longrightarrow> ratchet i L m pd kd (setkilled j s)"
  by (simp add: setkilled_def ratchet_upd_proc)

lemma ratchet_yield [simp]: "ratchet i L m pd kd s \<Longrightarrow> ratchet i L m pd kd (yield s)"
  by (simp add: yield_def ratchet_upd_proc)

lemma ratchet_set_fd [simp]: "ratchet i L m pd kd s \<Longrightarrow> ratchet i L m pd kd (set_fd fd f s)"
  by (simp add: set_fd_def ratchet_upd_proc)

section \<open>The routines below the system calls\<close>

named_theorems rk "routines that keep the ratchet invariant"

lemmas rk_intros = keeps_intros vm_keeps ratchet_mem_stable

lemma rk_sleep [rk]: "keeps (ratchet i L m pd kd) (sleep ch)"
  by (simp add: keeps_def sleep_def)

lemma rk_kprintf [rk]: "keeps (ratchet i L m pd kd) (kprintf fmt args)"
  unfolding kprintf_def by (rule keeps_modify) simp

lemma rk_growproc [rk]: "keeps (ratchet i L m pd kd) (growproc n)"
  unfolding growproc_def Let_def
  by (intro rk_intros rk keeps_modify) (simp_all add: ratchet_upd_proc)

lemma rk_kkill [rk]: "keeps (ratchet i L m pd kd) (kkill pid)"
  unfolding kkill_def by (intro rk_intros rk keeps_modify) (simp add: ratchet_upd_proc)

lemma rk_reparent [rk]: "keeps (ratchet i L m pd kd) (reparent j)"
  unfolding reparent_def by (intro rk_intros rk keeps_modify) (simp_all add: ratchet_upd_proc)

lemma rk_either_copyout [rk]: "keeps (ratchet i L m pd kd) (either_copyout dst src)"
  unfolding either_copyout_def by (cases dst) (simp_all, (intro rk_intros rk)+)

lemma rk_either_copyin [rk]: "keeps (ratchet i L m pd kd) (either_copyin src len)"
  unfolding either_copyin_def by (cases src) (simp_all, (intro rk_intros rk)+)

lemma rk_procdump [rk]: "keeps (ratchet i L m pd kd) procdump"
  unfolding procdump_def by (intro rk_intros rk)

lemma rk_acquiresleep [rk]:
  "(\<And>lk s. ratchet i L m pd kd s \<Longrightarrow> ratchet i L m pd kd (put lk s)) \<Longrightarrow>
   keeps (ratchet i L m pd kd) (acquiresleep g put ch)"
  unfolding acquiresleep_def by (intro rk_intros rk keeps_modify)

lemma rk_releasesleep [rk]:
  "(\<And>lk s. ratchet i L m pd kd s \<Longrightarrow> ratchet i L m pd kd (put lk s)) \<Longrightarrow>
   keeps (ratchet i L m pd kd) (releasesleep put ch)"
  unfolding releasesleep_def by (intro rk_intros rk keeps_modify) simp_all

lemma rk_virtio_disk_rw [rk]: "keeps (ratchet i L m pd kd) (virtio_disk_rw b wr)"
  unfolding virtio_disk_rw_def by (intro rk_intros rk keeps_modify) simp_all

lemma rk_lock_buf [rk]: "keeps (ratchet i L m pd kd) (lock_buf b)"
  unfolding lock_buf_def by (intro rk) simp

lemma rk_bget [rk]: "keeps (ratchet i L m pd kd) (bget dev blockno)"
  unfolding bget_def by (intro rk_intros rk keeps_modify) simp_all

lemma rk_bread [rk]: "keeps (ratchet i L m pd kd) (bread dev blockno)"
  unfolding bread_def by (intro rk_intros rk keeps_modify) simp_all

lemma rk_bwrite [rk]: "keeps (ratchet i L m pd kd) (bwrite b)"
  unfolding bwrite_def by (intro rk_intros rk)

lemma rk_brelse [rk]: "keeps (ratchet i L m pd kd) (brelse b)"
  unfolding brelse_def by (intro rk_intros rk keeps_modify) simp_all

lemma rk_read_head [rk]: "keeps (ratchet i L m pd kd) read_head"
  unfolding read_head_def by (intro rk_intros rk keeps_modify) simp_all

lemma rk_write_head [rk]: "keeps (ratchet i L m pd kd) write_head"
  unfolding write_head_def by (intro rk_intros rk keeps_modify) simp_all

lemma rk_install_trans [rk]: "keeps (ratchet i L m pd kd) (install_trans r)"
  unfolding install_trans_def install_block_def by (intro rk_intros rk keeps_modify) simp_all

lemma rk_write_log [rk]: "keeps (ratchet i L m pd kd) write_log"
  unfolding write_log_def log_block_def by (intro rk_intros rk keeps_modify) simp_all

lemma rk_commit [rk]: "keeps (ratchet i L m pd kd) commit"
  unfolding commit_def by (intro rk_intros rk keeps_modify) simp_all

lemma rk_initlog [rk]: "keeps (ratchet i L m pd kd) (initlog dev start)"
  unfolding initlog_def recover_from_log_def by (intro rk_intros rk keeps_modify) simp_all

lemma rk_begin_op [rk]: "keeps (ratchet i L m pd kd) begin_op"
  unfolding begin_op_def by (intro rk_intros rk keeps_modify) simp_all

lemma rk_end_op [rk]: "keeps (ratchet i L m pd kd) end_op"
  unfolding end_op_def by (intro rk_intros rk keeps_modify) simp_all

lemma rk_log_write [rk]: "keeps (ratchet i L m pd kd) (log_write b)"
  unfolding log_write_def by (intro rk_intros rk keeps_modify) simp_all

subsection \<open>The file system\<close>

lemma rk_readsb [rk]: "keeps (ratchet i L m pd kd) (readsb dev)"
  unfolding readsb_def by (intro rk_intros rk keeps_modify) simp_all

lemma rk_bzero [rk]: "keeps (ratchet i L m pd kd) (bzero dev b)"
  unfolding bzero_def by (intro rk_intros rk keeps_modify) simp_all

lemma rk_balloc [rk]: "keeps (ratchet i L m pd kd) (balloc dev)"
  unfolding balloc_def by (intro rk_intros rk keeps_modify) simp_all

lemma rk_bfree [rk]: "keeps (ratchet i L m pd kd) (bfree dev b)"
  unfolding bfree_def Let_def by (intro rk_intros rk keeps_modify) simp_all

lemma rk_iget [rk]: "keeps (ratchet i L m pd kd) (iget dev inum)"
  unfolding iget_def by (intro rk_intros rk keeps_modify) simp_all

lemma rk_ialloc [rk]: "keeps (ratchet i L m pd kd) (ialloc dev ty)"
  unfolding ialloc_def by (intro rk_intros rk keeps_modify) simp_all

lemma rk_iupdate [rk]: "keeps (ratchet i L m pd kd) (iupdate ip)"
  unfolding iupdate_def by (intro rk_intros rk keeps_modify) simp_all

lemma rk_idup [rk]: "keeps (ratchet i L m pd kd) (idup ip)"
  unfolding idup_def by (intro rk_intros rk keeps_modify) simp_all

lemma rk_lock_inode [rk]: "keeps (ratchet i L m pd kd) (lock_inode ip)"
  unfolding lock_inode_def by (intro rk) simp

lemma rk_unlock_inode [rk]: "keeps (ratchet i L m pd kd) (unlock_inode ip)"
  unfolding unlock_inode_def by (intro rk) simp

lemma rk_ilock [rk]: "keeps (ratchet i L m pd kd) (ilock ip)"
  unfolding ilock_def by (intro rk_intros rk keeps_modify) simp_all

lemma rk_iunlock [rk]: "keeps (ratchet i L m pd kd) (iunlock ip)"
  unfolding iunlock_def by (intro rk_intros rk)

lemma rk_bmap_direct [rk]: "keeps (ratchet i L m pd kd) (bmap_direct ip bn)"
  unfolding bmap_direct_def by (intro rk_intros rk keeps_modify) simp_all

lemma rk_bmap [rk]: "keeps (ratchet i L m pd kd) (bmap ip bn)"
  unfolding bmap_def bmap_entry_def by (intro rk_intros rk keeps_modify) simp_all

lemma rk_itrunc [rk]: "keeps (ratchet i L m pd kd) (itrunc ip)"
  unfolding itrunc_def by (intro rk_intros rk keeps_modify) simp_all

lemma rk_iput [rk]: "keeps (ratchet i L m pd kd) (iput ip)"
  unfolding iput_def by (intro rk_intros rk keeps_modify) simp_all

lemma rk_iunlockput [rk]: "keeps (ratchet i L m pd kd) (iunlockput ip)"
  unfolding iunlockput_def by (intro rk_intros rk)

lemma rk_fsinit [rk]: "keeps (ratchet i L m pd kd) (fsinit dev)"
  unfolding fsinit_def ireclaim_def by (intro rk_intros rk)

lemma rk_readi_loop [rk]: "keeps (ratchet i L m pd kd) (readi_loop ip dst off n tot acc)"
proof (induction ip dst off n tot acc rule: readi_loop.induct)
  case (1 ip dst off n tot acc)
  show ?case
    unfolding readi_loop.simps [of ip dst] Let_def by (intro rk_intros rk 1) simp_all
qed

lemma rk_readi [rk]: "keeps (ratchet i L m pd kd) (readi ip dst off n)"
  unfolding readi_def Let_def by (intro rk_intros rk)

lemma rk_writei_loop [rk]: "keeps (ratchet i L m pd kd) (writei_loop ip src off n tot)"
proof (induction ip src off n tot rule: writei_loop.induct)
  case (1 ip src off n tot)
  show ?case
    unfolding writei_loop.simps [of ip src] Let_def by (intro rk_intros rk 1 keeps_modify) simp_all
qed

lemma rk_writei [rk]: "keeps (ratchet i L m pd kd) (writei ip src off n)"
  unfolding writei_def by (intro rk_intros rk keeps_modify) simp_all

lemma rk_read_dirent [rk]: "keeps (ratchet i L m pd kd) (read_dirent dp off msg)"
  unfolding read_dirent_def by (intro rk_intros rk)

lemma rk_dirlookup [rk]: "keeps (ratchet i L m pd kd) (dirlookup dp name)"
  unfolding dirlookup_def by (intro rk_intros rk)

lemma rk_dirlink [rk]: "keeps (ratchet i L m pd kd) (dirlink dp name inum)"
  unfolding dirlink_def Let_def by (intro rk_intros rk)

lemma rk_namex_loop [rk]: "keeps (ratchet i L m pd kd) (namex_loop np path name ip)"
proof (induction np path name ip rule: namex_loop.induct)
  case (1 np path name ip)
  show ?case
    unfolding namex_loop.simps [of np path] by (intro rk_intros rk 1) simp_all
qed

lemma rk_namex [rk]: "keeps (ratchet i L m pd kd) (namex path np)"
  unfolding namex_def by (intro rk_intros rk)

lemma rk_namei [rk]: "keeps (ratchet i L m pd kd) (namei path)" "keeps (ratchet i L m pd kd) (nameiparent path)"
  unfolding namei_def nameiparent_def by (intro rk_intros rk)+

subsection \<open>Console, pipes and files\<close>

lemma rk_uartputc_sync [rk]: "keeps (ratchet i L m pd kd) (uartputc_sync c)"
  unfolding uartputc_sync_def by (intro keeps_modify) simp

lemma rk_consputc [rk]: "keeps (ratchet i L m pd kd) (consputc c)"
  unfolding consputc_def by (intro rk_intros rk)

lemma rk_uartwrite [rk]: "keeps (ratchet i L m pd kd) (uartwrite bs)"
  unfolding uartwrite_def by (intro rk_intros rk keeps_modify) simp_all

lemma rk_consolewrite_loop [rk]: "keeps (ratchet i L m pd kd) (consolewrite_loop src n k)"
proof (induction src n k rule: consolewrite_loop.induct)
  case (1 src n k)
  show ?case
    unfolding consolewrite_loop.simps [of src n] Let_def by (intro rk_intros rk 1) simp_all
qed

lemma rk_consoleread_loop [rk]: "keeps (ratchet i L m pd kd) (consoleread_loop dst target n)"
proof (induction dst target n rule: consoleread_loop.induct)
  case (1 dst target)
  show ?case by (simp add: keeps_ret)
next
  case (2 dst target n)
  show ?case
    unfolding consoleread_loop.simps by (intro rk_intros rk 2 keeps_modify) simp_all
qed

lemma rk_console [rk]:
  "keeps (ratchet i L m pd kd) (consolewrite src n)" "keeps (ratchet i L m pd kd) (consoleread dst n)"
  unfolding consolewrite_def consoleread_def by (intro rk_intros rk)+

lemma rk_kill_line [rk]: "keeps (ratchet i L m pd kd) kill_line"
proof (rule keepsI)
  fix s a t
  show "ratchet i L m pd kd s \<Longrightarrow> kill_line s = Inr (a, t) \<Longrightarrow> ratchet i L m pd kd t"
  proof (induction s rule: kill_line.induct)
    case (1 s)
    then show ?case by (simp add: kill_line.simps [of s] split: if_splits)
  qed
qed

lemma rk_cons_store [rk]: "keeps (ratchet i L m pd kd) (cons_store c)"
  unfolding cons_store_def by (intro rk_intros rk keeps_modify) simp_all

lemma rk_consoleintr [rk]: "keeps (ratchet i L m pd kd) (consoleintr c)"
  unfolding consoleintr_def by (intro rk_intros rk keeps_modify) simp_all

lemma rk_uartintr [rk]: "keeps (ratchet i L m pd kd) (uartintr idle rx)"
  unfolding uartintr_def by (intro rk_intros rk keeps_modify) simp_all

lemma rk_pipeclose [rk]: "keeps (ratchet i L m pd kd) (pipeclose pi w)"
  unfolding pipeclose_def by (intro rk_intros rk keeps_modify) simp_all

lemma rk_pipewrite_loop [rk]: "keeps (ratchet i L m pd kd) (pipewrite_loop pi addr k n)"
proof (induction pi addr k n rule: pipewrite_loop.induct)
  case (1 pi addr k)
  show ?case by (simp add: keeps_ret)
next
  case (2 pi addr k n)
  show ?case
    unfolding pipewrite_loop.simps by (intro rk_intros rk 2 keeps_modify) simp_all
qed

lemma rk_piperead_loop [rk]: "keeps (ratchet i L m pd kd) (piperead_loop pi addr k n)"
proof (induction pi addr k n rule: piperead_loop.induct)
  case (1 pi addr k)
  show ?case by (simp add: keeps_ret)
next
  case (2 pi addr k n)
  show ?case
    unfolding piperead_loop.simps by (intro rk_intros rk 2 keeps_modify) simp_all
qed

lemma rk_pipe_rw [rk]:
  "keeps (ratchet i L m pd kd) (pipewrite pi addr n)" "keeps (ratchet i L m pd kd) (piperead pi addr n)"
  unfolding pipewrite_def piperead_def by (intro rk_intros rk keeps_modify, simp_all)+

lemma rk_filealloc [rk]: "keeps (ratchet i L m pd kd) filealloc"
  unfolding filealloc_def by (intro rk_intros rk keeps_modify) simp_all

lemma rk_filedup [rk]: "keeps (ratchet i L m pd kd) (filedup f)"
  unfolding filedup_def by (intro rk_intros rk keeps_modify) simp_all

lemma keeps_case_filetype:
  "keeps I a \<Longrightarrow> keeps I b \<Longrightarrow> keeps I c \<Longrightarrow> keeps I d \<Longrightarrow>
   keeps I (case ty of FD_NONE \<Rightarrow> a | FD_PIPE \<Rightarrow> b | FD_INODE \<Rightarrow> c | FD_DEVICE \<Rightarrow> d)"
  by (cases ty) auto

lemma rk_fileclose [rk]: "keeps (ratchet i L m pd kd) (fileclose f)"
  unfolding fileclose_def by (intro rk_intros keeps_case_filetype rk keeps_modify) simp_all

lemma rk_filestat [rk]: "keeps (ratchet i L m pd kd) (filestat f addr)"
  unfolding filestat_def by (intro rk_intros rk)

lemma devsw_console:
  "devsw_read j = Some rd \<Longrightarrow> rd = consoleread" "devsw_write j = Some wr \<Longrightarrow> wr = consolewrite"
  by (simp_all add: devsw_read_def devsw_write_def split: if_splits)

lemma rk_fileread [rk]: "keeps (ratchet i L m pd kd) (fileread f addr n)"
  unfolding fileread_def
  by (intro keeps_intros keeps_case_filetype rk keeps_modify)
    (simp, drule devsw_console, hypsubst, rule rk_console)

lemma rk_filewrite_loop [rk]: "keeps (ratchet i L m pd kd) (filewrite_loop f addr n k)"
proof (induction f addr n k rule: filewrite_loop.induct)
  case (1 f addr n k)
  show ?case
    unfolding filewrite_loop.simps [of f addr n k] Let_def
    by (intro rk_intros rk 1 keeps_modify) simp_all
qed

lemma rk_filewrite [rk]: "keeps (ratchet i L m pd kd) (filewrite f addr n)"
  unfolding filewrite_def
  by (intro keeps_intros keeps_case_filetype rk)
    (drule devsw_console, hypsubst, rule rk_console)

lemma rk_pipealloc [rk]: "keeps (ratchet i L m pd kd) pipealloc"
  unfolding pipealloc_def by (intro rk_intros rk keeps_modify) simp_all

subsection \<open>Processes\<close>

lemma find_unused_SomeD:
  "find_unused ps k = Some j \<Longrightarrow> k \<le> j \<and> j - k < length ps \<and> p_state (ps ! (j - k)) = UNUSED"
proof (induction ps arbitrary: k)
  case Nil
  then show ?case by simp
next
  case (Cons p ps)
  show ?case
    using Cons.prems Cons.IH [of "Suc k"]
    by (auto simp: nth_Cons' Suc_diff_le split: if_splits)
qed

lemma unused_dead: "ratchet i L m pd kd s \<Longrightarrow> find_unused (procs s) 0 = Some j \<Longrightarrow> j \<notin> L"
  using find_unused_SomeD [of "procs s" 0 j] by (auto simp: ratchet_def live_def)

lemma rk_freeproc: "j \<notin> L \<Longrightarrow> keeps (ratchet i L m pd kd) (freeproc j)"
  unfolding freeproc_def by (intro rk_intros rk keeps_modify) (simp_all add: ratchet_upd_dead)

lemma rk_alloc_found: "j \<notin> L \<Longrightarrow> keeps (ratchet i L m pd kd) (alloc_found j)"
  unfolding alloc_found_def allocpid_def
  by (intro rk_intros rk rk_freeproc keeps_modify) (simp_all add: ratchet_upd_dead)

lemma alloc_found_result: "alloc_found j s = Inr (r, t) \<Longrightarrow> r = None \<or> r = Some j"
  by (auto simp: alloc_found_def andthen_def bnd_Inr ret_def split: if_splits)

lemma allocproc_dead:
  assumes "ratchet i L m pd kd s" and "allocproc s = Inr (r, t)"
  shows "ratchet i L m pd kd t \<and> (\<forall>j. r = Some j \<longrightarrow> j \<notin> L)"
proof (cases "find_unused (procs s) 0")
  case None
  then show ?thesis using assms by (simp add: allocproc_def bnd_def gets_def ret_def)
next
  case (Some j)
  have j: "j \<notin> L" using unused_dead [OF assms(1) Some] .
  have "alloc_found j s = Inr (r, t)"
    using assms(2) Some by (simp add: allocproc_def bnd_def gets_def)
  then show ?thesis
    using keepsD [OF rk_alloc_found [OF j] assms(1)] alloc_found_result j by blast
qed

lemma rk_fork_files: "np \<notin> L \<Longrightarrow> keeps (ratchet i L m pd kd) (fork_files j np)"
  unfolding fork_files_def by (intro rk_intros rk keeps_modify) (simp_all add: ratchet_upd_dead)

lemma rk_fork_cwd: "np \<notin> L \<Longrightarrow> keeps (ratchet i L m pd kd) (fork_cwd j np)"
  unfolding fork_cwd_def by (intro rk_intros rk keeps_modify) (simp_all add: ratchet_upd_dead)

lemma rk_fork_child: "np \<notin> L \<Longrightarrow> keeps (ratchet i L m pd kd) (fork_child j np)"
  unfolding fork_child_def fork_inherit_def Let_def
  by (intro rk_intros rk rk_freeproc rk_fork_files rk_fork_cwd keeps_modify)
    (simp_all add: ratchet_upd_dead ratchet_upd_proc)

lemma rk_kfork [rk]: "keeps (ratchet i L m pd kd) kfork"
proof (rule keepsI)
  fix s a t
  assume I: "ratchet i L m pd kd s" and k: "kfork s = Inr (a, t)"
  obtain r u where al: "allocproc s = Inr (r, u)"
    and c: "(case r of None \<Rightarrow> ret (-1) | Some np \<Rightarrow> fork_child (me s) np) u = Inr (a, t)"
    using k by (auto simp: kfork_def bnd_Inr gets_def)
  have u: "ratchet i L m pd kd u" "\<And>np. r = Some np \<Longrightarrow> np \<notin> L"
    using allocproc_dead [OF I al] by auto
  show "ratchet i L m pd kd t"
    using c u keepsD [OF rk_fork_child u(1)] by (cases r) (auto simp: ret_def)
qed

lemma kexit_noreturn: "kexit st s \<noteq> Inr x"
  by (auto simp: kexit_def andthen_def bnd_Inr)

lemma rk_kexit [rk]: "keeps (ratchet i L m pd kd) (kexit st)"
  by (rule keepsI) (simp add: kexit_noreturn)

lemma rk_kwait_child [rk]: "keeps (ratchet i L m pd kd) (kwait_child addr k j)"
proof -
  have dead: "j \<notin> L" if "ratchet i L m pd kd s" "p_state (procs s ! j) = ZOMBIE" for s :: "'a kernel_scheme"
    using that by (auto simp: ratchet_def live_def)
  have "keeps (ratchet i L m pd kd)
     (bnd (if addr \<noteq> 0 then copyout a b c addr d else ret 0)
       (\<lambda>r. if r < 0 then ret (Some (-1)) else andthen (freeproc j) (ret (Some pid))))" if "j \<notin> L"
    for a b c d pid
    by (intro rk_intros rk rk_freeproc that)
  note body = keepsD [OF this [OF dead]]
  show ?thesis
    unfolding kwait_child_def
    by (rule keeps_gets_bnd) (auto split: if_splits simp: ret_def intro: body)
qed

lemma rk_kwait [rk]: "keeps (ratchet i L m pd kd) (kwait addr)"
  unfolding kwait_def by (intro rk_intros rk)

lemma rk_put_cwd [rk]: "keeps (ratchet i L m pd kd) (put_cwd j)"
  unfolding put_cwd_def by (intro rk_intros rk)

subsection \<open>exec\<close>

lemma rk_loadseg [rk]: "keeps (ratchet i L m pd kd) (loadseg pt va ip off sz)"
  unfolding loadseg_def Let_def by (intro rk_intros rk)

lemma rk_load_segment [rk]: "keeps (ratchet i L m pd kd) (load_segment pt ip sz ph)"
  unfolding load_segment_def by (intro rk_intros rk)

lemma rk_load_segments [rk]: "keeps (ratchet i L m pd kd) (load_segments pt ip n off sz)"
  by (induction n arbitrary: off sz) (auto intro!: rk_intros rk)

lemma rk_exec_bad [rk]: "keeps (ratchet i L m pd kd) (exec_bad pt sz ip)"
  unfolding exec_bad_def by (intro rk_intros rk)

lemma rk_push [rk]: "keeps (ratchet i L m pd kd) (push pt base sp bs)"
  unfolding push_def Let_def by (intro rk_intros rk)

lemma rk_push_args [rk]: "keeps (ratchet i L m pd kd) (push_args pt base sp as us)"
  by (induction as arbitrary: sp us) (auto intro!: rk_intros rk)

lemma rk_exec_stack [rk]: "keeps (ratchet i L m pd kd) (exec_stack path argv entry pt sz)"
  unfolding exec_stack_def Let_def
  by (intro rk_intros rk keeps_modify) (simp_all add: ratchet_upd_proc)

lemma rk_kexec [rk]: "keeps (ratchet i L m pd kd) (kexec path argv)"
  unfolding kexec_def Let_def by (intro rk_intros rk)

section \<open>The system calls\<close>

lemma rk_args [rk]:
  "keeps (ratchet i L m pd kd) (argraw n)" "keeps (ratchet i L m pd kd) (argint n)"
  "keeps (ratchet i L m pd kd) (argaddr n)" "keeps (ratchet i L m pd kd) (argstr n mx)"
  "keeps (ratchet i L m pd kd) (fetchstr a mx)" "keeps (ratchet i L m pd kd) (fetchaddr a)"
  unfolding argint_def argaddr_def argstr_def argraw_def fetchstr_def fetchaddr_def
  by (intro rk_intros)+

lemma rk_sysproc [rk]:
  "keeps (ratchet i L m pd kd) sys_exit" "keeps (ratchet i L m pd kd) sys_getpid"
  "keeps (ratchet i L m pd kd) sys_fork" "keeps (ratchet i L m pd kd) sys_wait"
  "keeps (ratchet i L m pd kd) sys_kill" "keeps (ratchet i L m pd kd) sys_uptime"
  "keeps (ratchet i L m pd kd) sys_hello" "keeps (ratchet i L m pd kd) sys_getfilter"
  unfolding sys_exit_def sys_getpid_def sys_fork_def sys_wait_def sys_kill_def sys_uptime_def
    sys_hello_def sys_getfilter_def
  by (intro rk_intros rk)+

lemma rk_sys_sbrk [rk]: "keeps (ratchet i L m pd kd) sys_sbrk"
  unfolding sys_sbrk_def by (intro rk_intros rk keeps_modify) (simp add: ratchet_upd_proc)

lemma rk_sys_pause [rk]: "keeps (ratchet i L m pd kd) sys_pause"
  unfolding sys_pause_def pause_loop_def by (intro rk_intros rk)

lemma superset_trans: "(y :: u64) AND x = x \<Longrightarrow> z AND y = y \<Longrightarrow> z AND x = x"
  by (simp add: word_superset_iff)

lemma rk_sys_setfilter [rk]: "keeps (ratchet i L m pd kd) sys_setfilter"
proof -
  have upd: "ratchet i L m pd kd (upd_proc (me s) (\<lambda>p. p\<lparr>p_syscall_mask := x\<rparr>) s)"
    if "ratchet i L m pd kd s" and "x AND p_syscall_mask (myproc s) = p_syscall_mask (myproc s)"
    for x and s :: "'a kernel_scheme"
    using that superset_trans [OF _ that(2)]
    by (auto simp: ratchet_def me_def myproc_def nth_upd_proc)
  show ?thesis
    unfolding sys_setfilter_def
    by (intro rk_intros rk keeps_gets_bnd)
      (auto simp: ret_def andthen_def bnd_def modify_def split: if_splits intro: upd)
qed

lemma rk_sysproc_flags [rk]:
  "keeps (ratchet i L m pd kd) sys_setfilter_child" "keeps (ratchet i L m pd kd) sys_setaudit"
  "keeps (ratchet i L m pd kd) sys_setstrict"
  unfolding sys_setfilter_child_def sys_setaudit_def sys_setstrict_def
  by (intro rk_intros rk keeps_modify, simp_all add: ratchet_upd_proc)+

lemma rk_fd [rk]: "keeps (ratchet i L m pd kd) (argfd n)" "keeps (ratchet i L m pd kd) (fdalloc f)"
  unfolding argfd_def fdalloc_def by (intro rk_intros rk keeps_modify; simp)+

lemma rk_sys_rw [rk]:
  "keeps (ratchet i L m pd kd) sys_dup" "keeps (ratchet i L m pd kd) sys_read"
  "keeps (ratchet i L m pd kd) sys_write" "keeps (ratchet i L m pd kd) sys_fstat"
  unfolding sys_dup_def sys_read_def sys_write_def sys_fstat_def by (intro rk_intros rk)+

lemma rk_sys_close [rk]: "keeps (ratchet i L m pd kd) sys_close"
  unfolding sys_close_def by (intro rk_intros rk keeps_modify) simp

lemma rk_end_with [rk]: "keeps (ratchet i L m pd kd) (end_with r)"
  unfolding end_with_def by (intro rk_intros rk)

lemma rk_sys_link [rk]: "keeps (ratchet i L m pd kd) sys_link"
  unfolding sys_link_def link_at_def link_bad_def by (intro rk_intros rk keeps_modify) simp_all

lemma rk_sys_unlink [rk]: "keeps (ratchet i L m pd kd) sys_unlink"
  unfolding sys_unlink_def unlink_entry_def unlink_bad_def isdirempty_def
  by (intro rk_intros rk keeps_modify) simp_all

lemma rk_create [rk]: "keeps (ratchet i L m pd kd) (create path ty major minor)"
  unfolding create_def create_new_def create_fail_def create_dots_def
  by (intro rk_intros rk keeps_modify) simp_all

lemma rk_sys_open [rk]: "keeps (ratchet i L m pd kd) sys_open"
  unfolding sys_open_def open_inode_def open_fd_def by (intro rk_intros rk keeps_modify) simp_all

lemma rk_sys_mk [rk]: "keeps (ratchet i L m pd kd) sys_mkdir" "keeps (ratchet i L m pd kd) sys_mknod"
  unfolding sys_mkdir_def sys_mknod_def create_and_put_def by (intro rk_intros rk)+

lemma rk_sys_chdir [rk]: "keeps (ratchet i L m pd kd) sys_chdir"
  unfolding sys_chdir_def by (intro rk_intros rk keeps_modify) (simp_all add: ratchet_upd_proc)

lemma rk_exec_args [rk]: "keeps (ratchet i L m pd kd) (exec_args uargv left argv pages)"
  by (induction left arbitrary: argv pages) (auto intro!: rk_intros rk)

lemma rk_sys_exec [rk]: "keeps (ratchet i L m pd kd) sys_exec"
  unfolding sys_exec_def by (intro rk_intros rk)

lemma rk_sys_pipe [rk]: "keeps (ratchet i L m pd kd) sys_pipe"
  unfolding sys_pipe_def pipe_undo_def pipe_copyout_def by (intro rk_intros rk keeps_modify) simp_all

lemma rk_audit_log_write [rk]: "keeps (ratchet i L m pd kd) (audit_log_write pid num)"
  unfolding audit_log_write_def Let_def by (intro rk_intros rk)

lemma rk_handler: "syscalls num = Some h \<Longrightarrow> keeps (ratchet i L m pd kd) h"
  unfolding syscalls_def syscall_table_def by (auto split: if_splits intro: rk)

lemma rk_violation [rk]: "keeps (ratchet i L m pd kd) (violation num)"
  unfolding violation_def strict_violation_def plain_violation_def
  by (intro rk_intros rk keeps_modify) (simp_all add: ratchet_upd_proc)

lemma rk_arg_filter [rk]: "keeps (ratchet i L m pd kd) (arg_filter num)"
  unfolding arg_filter_def check_path_def by (intro rk_intros rk)

lemma keeps_case_verdict:
  "keeps I a \<Longrightarrow> keeps I b \<Longrightarrow> keeps I c \<Longrightarrow> keeps I (case v of Pass \<Rightarrow> a | Fault \<Rightarrow> b | Deny \<Rightarrow> c)"
  by (cases v) auto

lemma rk_run_handler: "keeps (ratchet i L m pd kd) h \<Longrightarrow> keeps (ratchet i L m pd kd) (run_handler h)"
  unfolding run_handler_def by (intro rk_intros keeps_modify) simp_all

lemma rk_syscall [rk]: "keeps (ratchet i L m pd kd) syscall"
  unfolding syscall_def unknown_syscall_def
  by (intro rk_intros rk keeps_case_verdict rk_run_handler keeps_modify) (simp_all add: rk_handler)

section \<open>Traps\<close>

lemma rk_devintr [rk]: "keeps (ratchet i L m pd kd) (devintr ev)"
  unfolding devintr_def clockintr_def by (intro rk_intros rk keeps_modify) simp_all

lemma rk_prepare_return [rk]: "keeps (ratchet i L m pd kd) prepare_return"
  unfolding prepare_return_def by (intro rk_intros rk keeps_modify) simp_all

lemma rk_exit_if_killed [rk]: "keeps (ratchet i L m pd kd) exit_if_killed"
  unfolding exit_if_killed_def by (intro rk_intros rk)

lemma rk_usertrap_cause [rk]: "keeps (ratchet i L m pd kd) (usertrap_cause ev)"
  unfolding usertrap_cause_def trap_unexpected_def by (intro rk_intros rk keeps_modify) simp_all

lemma rk_usertrap [rk]: "keeps (ratchet i L m pd kd) (usertrap ev)"
  unfolding usertrap_def by (intro rk_intros rk keeps_modify) (simp_all add: ratchet_upd_proc)

lemma rk_kerneltrap [rk]: "keeps (ratchet i L m pd kd) (kerneltrap ev)"
  unfolding kerneltrap_def by (intro rk_intros rk keeps_modify) (simp_all add: ratchet_upd_proc)

text \<open>The invariant holds at entry, for the masks and pids found there.\<close>

lemma ratchet_entry:
  assumes "cur s = Some i" and "i < length (procs s)" and "live (p_state (procs s ! i))"
  shows "ratchet i {j. j < length (procs s) \<and> live (p_state (procs s ! j))}
           (\<lambda>j. p_syscall_mask (procs s ! j)) (\<lambda>j. p_pid (procs s ! j)) (\<lambda>j. p_killed (procs s ! j) \<noteq> 0) s"
  using assms by (simp add: ratchet_def)

lemma ratchet_run:
  assumes "\<And>L m pd kd. keeps (ratchet i L m pd kd) op" and "op s = Inr (a, t)"
    and "cur s = Some i" and "i < length (procs s)" and "live (p_state (procs s ! i))"
    and "j < length (procs s)" and "live (p_state (procs s ! j))"
  shows "p_pid (procs t ! j) = p_pid (procs s ! j) \<and>
         p_syscall_mask (procs t ! j) AND p_syscall_mask (procs s ! j) = p_syscall_mask (procs s ! j) \<and>
         (p_killed (procs s ! j) \<noteq> 0 \<longrightarrow> p_killed (procs t ! j) \<noteq> 0)"
  using keepsD [OF assms(1) ratchet_entry [OF assms(3-5)] assms(2)] assms(6,7)
  by (simp add: ratchet_def)

end
