(* ===== verification/Sample.thy ===== *)
theory Sample
  imports Trap
begin

text \<open>
  A small concrete kernel on which the witnesses evaluate: the given processes and files, the
  first process running, no free memory, empty caches.
\<close>

definition sample_tf :: trapframe where
  "sample_tf = \<lparr>tf_kernel_satp = 0, tf_kernel_sp = 0, tf_kernel_trap = 0, tf_epc = 0,
     tf_kernel_hartid = 0, tf_ra = 0, tf_sp = 0, tf_gp = 0, tf_tp = 0, tf_t0 = 0, tf_t1 = 0, tf_t2 = 0,
     tf_s0 = 0, tf_s1 = 0, tf_a0 = 0, tf_a1 = 0, tf_a2 = 0, tf_a3 = 0, tf_a4 = 0, tf_a5 = 0, tf_a6 = 0,
     tf_a7 = 0, tf_s2 = 0, tf_s3 = 0, tf_s4 = 0, tf_s5 = 0, tf_s6 = 0, tf_s7 = 0, tf_s8 = 0, tf_s9 = 0,
     tf_s10 = 0, tf_s11 = 0, tf_t3 = 0, tf_t4 = 0, tf_t5 = 0, tf_t6 = 0\<rparr>"

definition sample_proc :: proc where
  "sample_proc = \<lparr>p_state = RUNNING, p_chan = None, p_killed = 0, p_xstate = 0, p_pid = 1,
     p_parent = None, p_kstack = 0, p_sz = 4096, p_pagetable = 0, p_trapframe = 0,
     p_context = zero_context, p_ofile = replicate NOFILE None, p_cwd = None, p_syscall_mask = 0,
     p_name = ''init'', p_child_syscall_mask = 0, p_audit_enabled = 0, p_strict_mode = 0\<rparr>"

definition sample_sb :: superblock where
  "sample_sb = \<lparr>sb_magic = FSMAGIC, sb_size = 2000, sb_nblocks = 1954, sb_ninodes = 200, sb_nlog = 31,
     sb_logstart = 2, sb_inodestart = 33, sb_bmapstart = 46\<rparr>"

definition sample_pipe :: pipe where
  "sample_pipe = \<lparr>pi_data = (\<lambda>_. 0), pi_nread = 0, pi_nwrite = 0, pi_readopen = True, pi_writeopen = True\<rparr>"

definition sample_kernel :: "proc list \<Rightarrow> trapframe \<Rightarrow> kernel" where
  "sample_kernel ps tf =
     \<lparr>k_end = 0x80020000, k_mem = (\<lambda>_. 0), k_free = 0, procs = ps, nextpid = 2, initproc = 0,
      cur = Some 0, tframes = (\<lambda>_. tf), sym_trampoline = 0x80001000, sym_forkret = 0x80002000,
      console = [], disk = (\<lambda>_. replicate BSIZE 0), dwrites = [], bufs = [], lru = [],
      lg_start = 2, lg_outstanding = 0, lg_committing = False, lg_dev = 1, lh = [],
      sb = sample_sb, itable = [], cons_buf = replicate INPUT_BUF_SIZE 0, cons_r = 0, cons_w = 0,
      cons_e = 0, tx_busy = False, pipes = (\<lambda>_. sample_pipe), ftable = [], stat_pad = [],
      ticks = 0, first = False\<rparr>"

definition sample_machine :: "proc list \<Rightarrow> trapframe \<Rightarrow> u64 \<Rightarrow> machine" where
  "sample_machine ps tf cause = kernel.extend (sample_kernel ps tf)
     (machine.fields \<lparr>sstatus = 0, sepc = 0x1000, scause = cause, stval = 0, stvec = 0, satp = 0,
                      tp = 0, intr_enabled = False\<rparr> 0x80001000 0x80003000 0x80004000)"

lemmas sample_defs = sample_tf_def sample_proc_def sample_kernel_def sample_sb_def sample_pipe_def

text \<open>The definitions that a run of the routines unfolds.\<close>

lemmas run_defs = bnd_def andthen_def gets_def modify_def ret_def skip_def panic_if_def panic_def whenM_def

end
