(* ===== verification/Sysfilter.thy ===== *)
theory Sysfilter
  imports Ratchet Sample
begin

text \<open>
  The properties of the syscall filter: the ratchet over whole system calls and traps, what
  dispatch does with a blocked and with an allowed call, the argument filters, and what
  happens to the filter when processes are created and destroyed.
\<close>

section \<open>The ratchet\<close>

text \<open>
  C1. No system call loosens a filter. Whatever call a running process makes, with whatever
  arguments, if the call returns then every process that was alive keeps its pid and every bit
  of its syscall mask, and a process that was marked killed stays marked.
\<close>

theorem syscall_ratchet:
  assumes "syscall s = Inr (r, t)"
    and "cur s = Some i" and "i < length (procs s)" and "live (p_state (procs s ! i))"
    and "j < length (procs s)" and "live (p_state (procs s ! j))"
  shows "p_pid (procs t ! j) = p_pid (procs s ! j) \<and>
         p_syscall_mask (procs t ! j) AND p_syscall_mask (procs s ! j) = p_syscall_mask (procs s ! j) \<and>
         (p_killed (procs s ! j) \<noteq> 0 \<longrightarrow> p_killed (procs t ! j) \<noteq> 0)"
  using rk_syscall assms by (rule ratchet_run)

definition getpid_kernel :: kernel where
  "getpid_kernel = sample_kernel [sample_proc\<lparr>p_syscall_mask := 64\<rparr>] (sample_tf\<lparr>tf_a7 := 11\<rparr>)"

lemma getpid_kernel_run: "syscall getpid_kernel = Inr ((), set_a0 1 getpid_kernel)"
  by (simp add: getpid_kernel_def sample_defs syscall_def run_defs c_int_def my_tf_def myproc_def me_def
      syscalls_def syscall_table_def sys_nums mask_blocks_def run_handler_def sys_getpid_def u64_of_int_def)

theorem syscall_ratchet_witness:
  "syscall getpid_kernel = Inr ((), set_a0 1 getpid_kernel) \<and>
   p_syscall_mask (procs (set_a0 1 getpid_kernel) ! 0) AND 64 = 64"
  using syscall_ratchet [OF getpid_kernel_run, of 0 0] getpid_kernel_run
  by (simp add: getpid_kernel_def sample_defs live_def)

section \<open>Dispatch\<close>

lemma syscalls_Some_iff: "syscalls n \<noteq> None \<longleftrightarrow> 1 \<le> n \<and> n \<le> 27"
proof
  assume "syscalls n \<noteq> None"
  then show "1 \<le> n \<and> n \<le> 27"
    by (auto simp: syscalls_def syscall_table_def sys_nums split: if_splits)
next
  assume "1 \<le> n \<and> n \<le> 27"
  then have "n \<in> set [1..27]" by simp
  then show "syscalls n \<noteq> None"
    by (auto simp: syscalls_def syscall_table_def sys_nums upto_rec1)
qed

lemma syscall_unfold:
  assumes "syscalls (c_int (tf_a7 (my_tf s))) = Some h"
  shows "syscall s =
    (if mask_blocks (p_syscall_mask (myproc s)) (c_int (tf_a7 (my_tf s)))
     then bnd (arg_filter (c_int (tf_a7 (my_tf s))))
            (\<lambda>v. case v of Pass \<Rightarrow> run_handler h | Fault \<Rightarrow> modify (set_a0 minus_one)
                 | Deny \<Rightarrow> violation (c_int (tf_a7 (my_tf s)))) s
     else run_handler h s)"
  using assms by (simp add: syscall_def bnd_def gets_def)

text \<open>The calls whose arguments are never looked at when they are blocked.\<close>

definition unconditional :: "int \<Rightarrow> bool" where
  "unconditional num \<longleftrightarrow> 1 \<le> num \<and> num \<le> 27 \<and>
     num \<noteq> SYS_open \<and> num \<noteq> SYS_kill \<and> num \<noteq> SYS_exec \<and> num \<noteq> SYS_unlink \<and> num \<noteq> SYS_sbrk"

lemma syscall_deny:
  fixes s :: "'a kernel_scheme"
  assumes "mask_blocks (p_syscall_mask (myproc s)) (c_int (tf_a7 (my_tf s)))"
    and "unconditional (c_int (tf_a7 (my_tf s)))"
  shows "syscall s = violation (c_int (tf_a7 (my_tf s))) s"
proof -
  obtain h :: "('a kernel_scheme, u64) routine" where "syscalls (c_int (tf_a7 (my_tf s))) = Some h"
    using assms(2) syscalls_Some_iff by (fastforce simp: unconditional_def)
  then show ?thesis
    using assms by (simp add: syscall_unfold arg_filter_def unconditional_def bnd_def ret_def)
qed


definition write_kernel :: "int \<Rightarrow> kernel" where
  "write_kernel strict = sample_kernel [sample_proc\<lparr>p_syscall_mask := 0x10000, p_strict_mode := strict\<rparr>]
     (sample_tf\<lparr>tf_a7 := 16\<rparr>)"

lemma write_kernel_facts:
  "c_int (tf_a7 (my_tf (write_kernel b))) = 16" "unconditional 16"
  "mask_blocks (p_syscall_mask (myproc (write_kernel b))) 16"
  "p_strict_mode (myproc (write_kernel b)) = b" "p_audit_enabled (myproc (write_kernel b)) = 0"
  by (simp_all add: write_kernel_def sample_defs c_int_def my_tf_def myproc_def me_def sys_nums
      mask_blocks_def unconditional_def)






section \<open>Strict mode\<close>

lemma strict_violation_killed:
  assumes "strict_violation num s = Inr (r, t)"
    and "cur s = Some i" and "i < length (procs s)" and "live (p_state (procs s ! i))"
  shows "cur t = Some i \<and> p_killed (procs t ! i) \<noteq> 0"
proof -
  have "keeps (ratchet i {i} (\<lambda>_. 0) (\<lambda>_. p_pid (procs s ! i)) (\<lambda>_. True))
     (andthen (whenM (p_audit_enabled (myproc s) \<noteq> 0) (audit_log_write (p_pid (myproc s)) num))
              (modify (set_a0 minus_one)))"
    by (intro rk_intros rk keeps_modify) simp
  moreover obtain u where "ratchet i {i} (\<lambda>_. 0) (\<lambda>_. p_pid (procs s ! i)) (\<lambda>_. True) u"
    and "andthen (whenM (p_audit_enabled (myproc s) \<noteq> 0) (audit_log_write (p_pid (myproc s)) num))
              (modify (set_a0 minus_one)) u = Inr (r, t)"
  proof (rule that)
    show "ratchet i {i} (\<lambda>_. 0) (\<lambda>_. p_pid (procs s ! i)) (\<lambda>_. True)
       (upd_proc i (\<lambda>p. p\<lparr>p_killed := 1\<rparr>) (s\<lparr>console := console s @
          (case printf_str (''Sandbox: Process %d KILLED due to strict violation!'' @ nl)
             [AInt (p_pid (myproc s))] of None \<Rightarrow> [] | Some x \<Rightarrow> x)\<rparr>))"
      using assms(2-4) by (simp add: ratchet_def nth_upd_proc live_def)
    show "andthen (whenM (p_audit_enabled (myproc s) \<noteq> 0) (audit_log_write (p_pid (myproc s)) num))
              (modify (set_a0 minus_one))
       (upd_proc i (\<lambda>p. p\<lparr>p_killed := 1\<rparr>) (s\<lparr>console := console s @
          (case printf_str (''Sandbox: Process %d KILLED due to strict violation!'' @ nl)
             [AInt (p_pid (myproc s))] of None \<Rightarrow> [] | Some x \<Rightarrow> x)\<rparr>)) = Inr (r, t)"
      using assms(1,2) by (simp add: strict_violation_def kprintf_def bnd_def andthen_def modify_def gets_def me_def)
  qed
  ultimately have "ratchet i {i} (\<lambda>_. 0) (\<lambda>_. p_pid (procs s ! i)) (\<lambda>_. True) t" by (rule keepsD)
  then show ?thesis by (simp add: ratchet_def)
qed

lemma exit_if_killed_noreturn:
  assumes "p_killed (procs s ! i) \<noteq> 0" and "cur s = Some i"
  shows "exit_if_killed s \<noteq> Inr x"
  using assms by (simp add: exit_if_killed_def bnd_def gets_def killed_def me_def kexit_noreturn)

lemma ratchet_frames [simp]:
  "procs (upd_my_tf f s) = procs s" "cur (upd_my_tf f s) = cur s"
  "procs (upd_hart g t) = procs t" "cur (upd_hart g t) = cur t"
  "procs (set_a0 v s) = procs s" "cur (set_a0 v s) = cur s"
  by (simp_all add: upd_my_tf_def upd_hart_def set_a0_def)

lemma hart_fields [simp]: "hart (upd_hart g t) = g (hart t)" "hart (upd_my_tf f t) = hart t"
  by (simp_all add: upd_my_tf_def upd_hart_def)

lemma my_fields [simp]:
  "me (upd_my_tf f s) = me s" "myproc (upd_my_tf f s) = myproc s"
  "my_tf (upd_my_tf f s) = f (my_tf s)"
  "me (upd_hart g t) = me t" "myproc (upd_hart g t) = myproc t" "my_tf (upd_hart g t) = my_tf t"
  by (simp_all add: me_def myproc_def my_tf_def upd_my_tf_def upd_hart_def)

lemma wlp_exit_if_killed: "wlp exit_if_killed Q s \<longleftrightarrow> killed (me s) s \<noteq> 0 \<or> Q () s"
proof -
  have "wlp (kexit (-1)) Q s" by (simp add: wlp_iff kexit_noreturn)
  then show ?thesis by (simp add: exit_if_killed_def wp_rules)
qed

lemma syscall_strict:
  assumes "num = c_int (tf_a7 (my_tf s))" and "unconditional num"
    and "mask_blocks (p_syscall_mask (myproc s)) num" and "p_strict_mode (myproc s) \<noteq> 0"
    and "cur s = Some i" and "i < length (procs s)" and "live (p_state (procs s ! i))"
  shows "wlp syscall (\<lambda>_ t. cur t = Some i \<and> p_killed (procs t ! i) \<noteq> 0) s"
proof -
  have "syscall s = strict_violation num s"
    using assms(1-4) by (simp add: syscall_deny violation_def bnd_def gets_def)
  then show ?thesis
    using strict_violation_killed [OF _ assms(5-7)] by (auto simp: wlp_iff)
qed

text \<open>
  C3. In strict mode a blocked call ends the process: a trap for a system call that the filter
  blocks outright never returns to user space, whatever the audit setting and even if writing
  the audit log sleeps or fails on the way.
\<close>

theorem strict_mode_kills:
  assumes "scause (hart s) = 8" and "num = c_int (tf_a7 (my_tf s))" and "unconditional num"
    and "mask_blocks (p_syscall_mask (myproc s)) num" and "p_strict_mode (myproc s) \<noteq> 0"
    and "cur s = Some i" and "i < length (procs s)" and "live (p_state (procs s ! i))"
  shows "\<nexists>x t. usertrap ev s = Inr (x, t)"
proof -
  have "wlp (usertrap ev) (\<lambda>_ _. False) s"
    unfolding usertrap_def usertrap_cause_def
    by (simp add: wp_rules wlp_exit_if_killed assms(1) hart_fields)
      (auto intro!: wlp_mono [OF syscall_strict [of num _ i]]
        simp: assms assms(3,4) [unfolded assms(2)] killed_def me_def)
  then show ?thesis by (auto simp: wlp_iff)
qed

definition strict_machine :: machine where
  "strict_machine = sample_machine
     [sample_proc\<lparr>p_pid := 2, p_syscall_mask := 0x10000, p_strict_mode := 1\<rparr>] (sample_tf\<lparr>tf_a7 := 16\<rparr>) 8"

theorem strict_mode_kills_witness:
  "\<nexists>x t. usertrap \<lparr>ev_irq = 0, ev_tx_idle = False, ev_received = []\<rparr> strict_machine = Inr (x, t)"
  using strict_mode_kills [of strict_machine 16 0 "\<lparr>ev_irq = 0, ev_tx_idle = False, ev_received = []\<rparr>"]
  by (simp add: strict_machine_def sample_machine_def sample_defs kernel.defs machine.defs c_int_def my_tf_def
      myproc_def me_def unconditional_def sys_nums mask_blocks_def live_def)


definition no_event :: devices where
  "no_event = \<lparr>ev_irq = 0, ev_tx_idle = False, ev_received = []\<rparr>"

definition clock_machine :: machine where
  "clock_machine = sample_machine [sample_proc\<lparr>p_syscall_mask := 64\<rparr>] sample_tf 0x8000000000000005"

lemma clock_machine_run: "\<exists>x t. usertrap no_event clock_machine = Inr (x, t)"
  by (simp add: clock_machine_def sample_machine_def sample_defs kernel.defs machine.defs no_event_def
      usertrap_def usertrap_cause_def devintr_def clockintr_def exit_if_killed_def killed_def
      prepare_return_def run_defs me_def my_tf_def myproc_def upd_hart_def upd_my_tf_def yield_def
      upd_proc_def wakeup_def wake_proc_def SSTATUS_SPP_def)


end
