(* ===== verification/Argfilter.thy ===== *)
theory Argfilter
  imports Sysfilter
begin

text \<open>
  The argument filters of \<^verbatim>\<open>syscall\<close> (\<^verbatim>\<open>kernel/syscall.c\<close>): what a process may still do with
  a blocked \<^verbatim>\<open>open\<close>, \<^verbatim>\<open>exec\<close>, \<^verbatim>\<open>unlink\<close>, \<^verbatim>\<open>kill\<close> or \<^verbatim>\<open>sbrk\<close>.
\<close>

section \<open>The fetched path\<close>

lemma copyinstr_scan_no_NUL: "NUL \<notin> set (fst (copyinstr_scan m p n))"
  by (induction m p n rule: copyinstr_scan.induct) (auto simp: b2c_NUL_iff [symmetric] split: prod.split)

lemma copyinstr_scan_string:
  assumes "\<And>i. i < length path \<Longrightarrow> m (p + of_nat i) = c2b (path ! i)" and "m (p + of_nat (length path)) = 0"
    and "NUL \<notin> set path" and "length path < n"
  shows "copyinstr_scan m p n = (path, True)"
  using assms
proof (induction path arbitrary: p n)
  case Nil
  then show ?case by (cases n) simp_all
next
  case (Cons c path)
  obtain k where n: "n = Suc k" using Cons.prems(4) by (cases n) auto
  have "m p = c2b c" using Cons.prems(1) [of 0] by simp
  moreover have "copyinstr_scan m (p + 1) k = (path, True)"
    using Cons.prems(1) [of "Suc i" for i] Cons.prems(2-4) n by (intro Cons.IH) (auto simp: algebra_simps)
  ultimately show ?case using Cons.prems(3) n by (auto simp: c2b_eq_0_iff)
qed

lemma copyinstr_no_NUL:
  "copyinstr pt va mx acc s = Inr ((r, path), t) \<Longrightarrow> NUL \<notin> set acc \<Longrightarrow> NUL \<notin> set path"
proof (induction pt va mx acc s rule: copyinstr.induct)
  case (1 pt va mx acc s)
  from 1(2) consider (stop) "path = acc"
    | (found) p n where "path = acc @ fst (copyinstr_scan (k_mem t) p n)"
    | (more) pa0 u where "mx \<noteq> 0" "walkaddr pt (PGROUNDDOWN va) s = Inr (pa0, u)" "pa0 \<noteq> 0"
        "\<not> snd (copyinstr_scan (k_mem u) (pa0 + (va - PGROUNDDOWN va)) (chunk va mx))"
        "copyinstr pt (PGROUNDDOWN va + PGSIZE) (mx - chunk va mx)
           (acc @ fst (copyinstr_scan (k_mem u) (pa0 + (va - PGROUNDDOWN va)) (chunk va mx))) u = Inr ((r, path), t)"
    unfolding copyinstr.simps [of pt va mx acc s]
    by (auto simp: Let_def split: if_splits sum.splits prod.splits)
  then show ?case
  proof cases
    case more
    show ?thesis
      by (rule 1(1) [OF more(1,2) _ more(3) refl refl more(4) more(5)]) (simp_all add: 1(3) copyinstr_scan_no_NUL)
  qed (simp_all add: 1(3) copyinstr_scan_no_NUL)
qed

lemma fetchstr_no_NUL: "fetchstr a mx s = Inr ((r, path), t) \<Longrightarrow> NUL \<notin> set path"
  by (auto simp: fetchstr_def bnd_Inr gets_def ret_def split: if_splits dest: copyinstr_no_NUL)

lemma strncmp_path:
  assumes "NUL \<notin> set path"
  shows "strncmp path ''secret'' 6 = 0 \<longleftrightarrow> take 6 path = ''secret''"
    and "strncmp path ''sh'' 3 = 0 \<longleftrightarrow> path = ''sh''" and "strncmp path ''rm'' 3 = 0 \<longleftrightarrow> path = ''rm''"
    and "strncmp path ''/bin/'' 5 = 0 \<longleftrightarrow> take 5 path = ''/bin/''"
    and "strncmp path ''README'' 6 = 0 \<longleftrightarrow> take 6 path = ''README''"
    and "strncmp path ''audit.log'' 9 = 0 \<longleftrightarrow> take 9 path = ''audit.log''"
  using strncmp_prefix [of "''secret''" path] strncmp_equal [of "''sh''" path] strncmp_equal [of "''rm''" path]
    strncmp_prefix [of "''/bin/''" path] strncmp_prefix [of "''README''" path] strncmp_prefix [of "''audit.log''" path]
  by (simp_all add: NUL_def numeral_eq_Suc cstr_id [OF assms])

lemma check_path_run:
  assumes "fetchstr (tf_a0 (my_tf s)) MAXPATH s = Inr ((r, path), t)"
  shows "check_path ok s = Inr (if r < 0 then Fault else if ok path then Pass else Deny, s)"
  using assms fetchstr_same [OF assms] by (simp add: check_path_def bnd_def gets_def ret_def)

section \<open>Paths\<close>

lemma syscall_checked_path:
  assumes "syscalls (c_int (tf_a7 (my_tf s))) = Some h"
    and "mask_blocks (p_syscall_mask (myproc s)) (c_int (tf_a7 (my_tf s)))"
    and "arg_filter (c_int (tf_a7 (my_tf s))) s = check_path ok s"
    and "fetchstr (tf_a0 (my_tf s)) MAXPATH s = Inr ((r, path), t)"
  shows "syscall s = (if r < 0 then Inr ((), set_a0 minus_one s)
                      else if ok path then run_handler h s
                      else violation (c_int (tf_a7 (my_tf s))) s)"
  unfolding syscall_unfold [OF assms(1)] using assms(2) check_path_run [OF assms(4), of ok]
  by (simp add: bnd_def assms(3) modify_def)


text \<open>
  C10. A process whose \<^verbatim>\<open>exec\<close> is blocked may execute any path except exactly \<^verbatim>\<open>sh\<close> and
  \<^verbatim>\<open>rm\<close>; these two are violations.
\<close>

theorem exec_filter:
  assumes "c_int (tf_a7 (my_tf s)) = SYS_exec" and "mask_blocks (p_syscall_mask (myproc s)) SYS_exec"
    and "fetchstr (tf_a0 (my_tf s)) MAXPATH s = Inr ((r, path), t)"
  shows "syscall s =
    (if r < 0 then Inr ((), set_a0 minus_one s)
     else if path \<notin> {''sh'', ''rm''} then run_handler sys_exec s
     else violation SYS_exec s)"
  using syscall_checked_path [OF _ _ _ assms(3), of sys_exec exec_arg_ok] assms(1,2)
    fetchstr_no_NUL [OF assms(3)]
  by (simp add: syscalls_def syscall_table_def sys_nums arg_filter_def exec_arg_ok_def strncmp_path)


text \<open>
  The witnesses: a process that has one page of memory, which holds the path at address 0; its
  page table is the chain of tables at 0x80100000, 0x80101000 and 0x80102000.
\<close>

definition path_mem :: "string \<Rightarrow> mem" where
  "path_mem path = st64 (st64 (st64 (wr_bytes (\<lambda>_. 0) 0x80103000 (map c2b path @ [0]))
     0x80100000 (PA2PTE 0x80101000 OR PTE_V))
     0x80101000 (PA2PTE 0x80102000 OR PTE_V))
     0x80102000 (PA2PTE 0x80103000 OR PTE_V OR PTE_R OR PTE_W OR PTE_U)"

definition path_kernel :: "u64 \<Rightarrow> u64 \<Rightarrow> u64 \<Rightarrow> string \<Rightarrow> kernel" where
  "path_kernel msk a7 a1 path =
     (sample_kernel [sample_proc\<lparr>p_syscall_mask := msk, p_pagetable := 0x80100000\<rparr>]
        (sample_tf\<lparr>tf_a7 := a7, tf_a1 := a1\<rparr>))\<lparr>k_mem := path_mem path\<rparr>"

lemma path_kernel_fields:
  "tf_a7 (my_tf (path_kernel msk a7 a1 path)) = a7" "tf_a1 (my_tf (path_kernel msk a7 a1 path)) = a1"
  "tf_a0 (my_tf (path_kernel msk a7 a1 path)) = 0"
  "p_syscall_mask (myproc (path_kernel msk a7 a1 path)) = msk"
  "p_strict_mode (myproc (path_kernel msk a7 a1 path)) = 0"
  "p_audit_enabled (myproc (path_kernel msk a7 a1 path)) = 0"
  by (simp_all add: path_kernel_def sample_defs my_tf_def myproc_def me_def)

lemma path_mem_ptes:
  "ld64 (path_mem path) 0x80100000 = PA2PTE 0x80101000 OR PTE_V"
  "ld64 (path_mem path) 0x80101000 = PA2PTE 0x80102000 OR PTE_V"
  "ld64 (path_mem path) 0x80102000 = PA2PTE 0x80103000 OR PTE_V OR PTE_R OR PTE_W OR PTE_U"
  by (simp_all add: path_mem_def ld64_st64_other aligned8_def)

lemma path_walk:
  "walk_loop 2 0x80100000 0 False (path_kernel msk a7 a1 path) = Inr (0x80102000, path_kernel msk a7 a1 path)"
  unfolding numeral_2_eq_2 by (simp add: PX_def path_kernel_def run_defs path_mem_ptes PA2PTE_def PTE2PA_def PTE_V_def)

lemma path_walkaddr:
  "walkaddr 0x80100000 0 (path_kernel msk a7 a1 path) = Inr (0x80103000, path_kernel msk a7 a1 path)"
  using path_walk [of msk a7 a1 path]
  by (simp add: walkaddr_def walk_def MAXVA_def run_defs)
    (simp add: path_kernel_def path_mem_ptes PA2PTE_def PTE2PA_def PTE_V_def PTE_R_def PTE_W_def PTE_U_def)

lemma path_kernel_fetch:
  assumes "NUL \<notin> set path" and "length path < 128"
  shows "fetchstr 0 MAXPATH (path_kernel msk a7 a1 path) = Inr ((int (length path), path), path_kernel msk a7 a1 path)"
proof -
  have "copyinstr_scan (k_mem (path_kernel msk a7 a1 path)) 0x80103000 128 = (path, True)"
  proof (rule copyinstr_scan_string)
    have mem: "k_mem (path_kernel msk a7 a1 path) (0x80103000 + of_nat i) = (map c2b path @ [0]) ! i" if "i \<le> length path" for i
    proof -
      have u: "unat (of_nat i :: u64) = i" using that assms(2) by (simp add: unat_of_nat)
      then have "8 \<le> unat (0x3000 + of_nat i :: u64)" "8 \<le> unat (0x2000 + of_nat i :: u64)" "8 \<le> unat (0x1000 + of_nat i :: u64)"
        using that assms(2) by (simp_all add: unat_plus_if')
      then show ?thesis
        using that assms(2) u by (simp add: path_kernel_def path_mem_def st64_other wr_bytes_eq)
    qed
    show "\<And>i. i < length path \<Longrightarrow> k_mem (path_kernel msk a7 a1 path) (0x80103000 + of_nat i) = c2b (path ! i)"
      using mem by (simp add: nth_append)
    show "k_mem (path_kernel msk a7 a1 path) (0x80103000 + of_nat (length path)) = 0" using mem by (simp add: nth_append)
  qed (use assms in simp_all)
  then have "copyinstr 0x80100000 0 128 [] (path_kernel msk a7 a1 path) = Inr ((0, path), path_kernel msk a7 a1 path)"
    by (simp add: copyinstr.simps [of "0x80100000" 0 128] PGROUNDDOWN_def path_walkaddr chunk_def PGSIZE_def Let_def)
  moreover have "p_pagetable (myproc (path_kernel msk a7 a1 path)) = 0x80100000"
    by (simp add: path_kernel_def sample_defs myproc_def me_def)
  ultimately show ?thesis
    using assms by (simp add: fetchstr_def run_defs MAXPATH_def strlen_cstr cstr_id)
qed


theorem exec_filter_witness:
  "syscall (path_kernel 0x80 7 0 ''sh'') = Inr ((), set_a0 minus_one (path_kernel 0x80 7 0 ''sh''))"
  using exec_filter [of "path_kernel 0x80 7 0 ''sh''" 2 "''sh''"]
  by (simp add: NUL_def path_kernel_fields path_kernel_fetch c_int_def sys_nums mask_blocks_def violation_def
      plain_violation_def run_defs)


section \<open>Process numbers\<close>

lemma find_pid_SomeD:
  "find_pid pid ps k = Some i \<Longrightarrow> k \<le> i \<and> i < k + length ps \<and> p_pid (ps ! (i - k)) = pid"
proof (induction ps arbitrary: k)
  case (Cons p ps)
  show ?case
  proof (cases "p_pid p = pid")
    case True
    then show ?thesis using Cons.prems by simp
  next
    case False
    then show ?thesis using Cons.prems Cons.IH [of "Suc k"] by (auto simp: nth_Cons')
  qed
qed simp

lemma kkill_others:
  assumes "kkill pid s = Inr (r, t)" and "p_pid (procs s ! j) \<noteq> pid"
  shows "procs t ! j = procs s ! j"
  using assms by (auto simp: kkill_def bnd_Inr andthen_def gets_def modify_def ret_def nth_upd_proc
      split: option.splits dest!: find_pid_SomeD)


definition kill_kernel :: kernel where
  "kill_kernel = sample_kernel [sample_proc\<lparr>p_pid := 3, p_syscall_mask := 64\<rparr>, sample_proc]
     (sample_tf\<lparr>tf_a7 := 6, tf_a0 := 1\<rparr>)"


section \<open>Memory\<close>

lemma keeps_procs: "mem_stable (\<lambda>s. procs s = ps \<and> cur s = c)"
  by (simp add: mem_stable_def)

lemma uvmalloc_loop_result:
  "uvmalloc_loop pt a oldsz newsz xp s = Inr (sz, t) \<Longrightarrow> sz \<in> {0, newsz}"
proof (induction pt a oldsz newsz xp s rule: uvmalloc_loop.induct)
  case (1 pt a oldsz newsz xp s)
  show ?case
    using 1(2) unfolding uvmalloc_loop.simps [of pt a oldsz newsz xp s]
    by (auto simp: andthen_def bnd_Inr ret_def split: if_splits sum.splits prod.splits dest: 1(1))
qed

lemma uvmalloc_result: "uvmalloc pt oldsz newsz xp s = Inr (sz, t) \<Longrightarrow> sz \<in> {0, oldsz, newsz}"
  by (auto simp: uvmalloc_def ret_def split: if_splits dest: uvmalloc_loop_result)

lemma uvmdealloc_result: "uvmdealloc pt oldsz newsz s = Inr (sz, t) \<Longrightarrow> sz \<in> {oldsz, newsz}"
  by (auto simp: uvmdealloc_def ret_def andthen_def bnd_Inr split: if_splits)

lemma growproc_size:
  assumes "growproc n s = Inr (r, t)" and "cur s = Some i" and "i < length (procs s)"
  shows "p_sz (procs t ! i) \<in> {p_sz (procs s ! i), p_sz (procs s ! i) + u64_of_int n}"
proof -
  have up: "procs u = procs s \<and> cur u = cur s \<and> (sz = 0 \<or> sz = a \<or> sz = b)"
    if "uvmalloc pt a b xp s = Inr (sz, u)" for pt a b xp sz u
    using keepsD [OF uvmalloc_keeps [OF keeps_procs] _ that] uvmalloc_result [OF that] by simp
  have down: "procs u = procs s \<and> cur u = cur s \<and> (sz = a \<or> sz = b)"
    if "uvmdealloc pt a b s = Inr (sz, u)" for pt a b sz u
    using keepsD [OF uvmdealloc_keeps [OF keeps_procs] _ that] uvmdealloc_result [OF that] by simp
  show ?thesis
    using assms
    by (auto simp: growproc_def Let_def bnd_Inr andthen_def gets_def modify_def ret_def nth_upd_proc
        myproc_def me_def split: if_splits dest!: up down)
qed

lemma sys_sbrk_size:
  assumes "sys_sbrk s = Inr (r, t)" and "cur s = Some i" and "i < length (procs s)"
  shows "p_sz (procs t ! i) \<in>
    {p_sz (procs s ! i), p_sz (procs s ! i) + u64_of_int (c_int (tf_a0 (my_tf s)))}"
  using assms
  by (auto simp: sys_sbrk_def argint_def argraw_def bnd_Inr andthen_def gets_def modify_def ret_def
      nth_upd_proc me_def split: if_splits dest: growproc_size)

lemma sbrk_bound:
  assumes "sbrk_arg_ok n sz" and "- (2 ^ 31) \<le> n"
  shows "uint (sz + u64_of_int n) \<le> 10 * 2 ^ 20 \<and> uint (sz + u64_of_int n) \<le> uint sz + 2 ^ 20"
proof -
  have le: "uint (sz + u64_of_int n) \<le> 10 * 2 ^ 20" and n: "n \<le> 2 ^ 20"
    using assms(1) by (simp_all add: sbrk_arg_ok_def word_le_def)
  have eq: "uint (sz + u64_of_int n) = (uint sz + n) mod 2 ^ 64"
    by (simp add: u64_of_int_def uint_word_ariths uint_word_of_int mod_simps)
  have b: "0 \<le> uint sz" "uint sz < 2 ^ 64" using uint_lt2p [of sz] by simp_all
  have "(uint sz + n) mod 2 ^ 64 \<le> uint sz + 2 ^ 20"
  proof (cases "0 \<le> uint sz + n")
    case True
    then show ?thesis using zmod_le_nonneg_dividend [OF True, of "2 ^ 64"] n by linarith
  next
    case False
    have low: "2 ^ 63 \<le> uint sz + (n + 2 ^ 64)"
      using assms(2) by (intro order_trans [OF _ add_increasing [OF b(1) order_refl]]) simp
    then have "(uint sz + n) mod 2 ^ 64 = uint sz + (n + 2 ^ 64)"
      using False mod_pos_pos_trivial [of "uint sz + (n + 2 ^ 64)" "2 ^ 64"] by (simp flip: add.assoc)
    then show ?thesis using le eq low by simp
  qed
  then show ?thesis using le eq by simp
qed


definition sbrk_kernel :: kernel where
  "sbrk_kernel = sample_kernel [sample_proc\<lparr>p_syscall_mask := 0x1000\<rparr>] (sample_tf\<lparr>tf_a7 := 12, tf_a0 := 4096\<rparr>)"

lemma sbrk_kernel_run: "\<exists>t. syscall sbrk_kernel = Inr ((), t) \<and> p_sz (procs t ! 0) = 8192"
  by (simp add: sbrk_kernel_def sample_defs syscall_def run_defs c_int_def my_tf_def myproc_def me_def
      syscalls_def syscall_table_def sys_nums mask_blocks_def run_handler_def sys_sbrk_def u64_of_int_def
      arg_filter_def sbrk_arg_ok_def argint_def argraw_def SBRK_EAGER_def upd_proc_def TRAPFRAME_def
      TRAMPOLINE_def MAXVA_def PGSIZE_def)


end
