(* ===== verification/Inherit.thy ===== *)
theory Inherit
  imports Argfilter
begin

text \<open>
  The life of a filter: how a process sets its filter, what a new process starts with, what
  \<^verbatim>\<open>fork\<close> hands to the child, and that no run of the system loosens the filter of a process
  while it lives.
\<close>

section \<open>A new process\<close>

lemma kalloc_procs: "kalloc s = Inr (r, t) \<Longrightarrow> procs t = procs s \<and> cur t = cur s \<and> nextpid t = nextpid s"
  using keepsD [OF kalloc_keeps, of "\<lambda>t. procs t = procs s \<and> cur t = cur s \<and> nextpid t = nextpid s" s r t]
  by (simp add: mem_stable_def)

lemma proc_pagetable_procs:
  "proc_pagetable i s = Inr (r, t) \<Longrightarrow> procs t = procs s \<and> cur t = cur s \<and> nextpid t = nextpid s"
  using keepsD [OF proc_pagetable_keeps, of "\<lambda>t. procs t = procs s \<and> cur t = cur s \<and> nextpid t = nextpid s" s i r t]
  by (simp add: mem_stable_def)

definition fresh_entry :: "int \<Rightarrow> proc \<Rightarrow> bool" where
  "fresh_entry pid p \<longleftrightarrow> p_state p = USED \<and> p_pid p = pid \<and> p_syscall_mask p = 0 \<and>
     p_child_syscall_mask p = 0 \<and> p_audit_enabled p = 0 \<and> p_strict_mode p = 0"

lemma alloc_found_entry:
  assumes "alloc_found i s = Inr (Some k, t)" and "i < length (procs s)"
  shows "k = i \<and> cur t = cur s \<and> length (procs t) = length (procs s) \<and> nextpid t = nextpid s + 1 \<and>
         fresh_entry (nextpid s) (procs t ! i) \<and> (\<forall>j. j \<noteq> i \<longrightarrow> procs t ! j = procs s ! j)"
  using assms
  by (auto simp: alloc_found_def allocpid_def andthen_def bnd_Inr gets_def modify_def ret_def fresh_entry_def
      nth_upd_proc upd_proc_def split: if_splits dest!: kalloc_procs proc_pagetable_procs)

text \<open>
  C7. A process table slot that is allocated starts with no filter at all and with a new pid:
  whatever the slot's previous owner had blocked, or had set for its children, is gone, and
  auditing and strict mode are off. The slot was unused, and no other entry changes.
\<close>

theorem allocproc_fresh:
  assumes "allocproc s = Inr (Some i, t)"
  shows "i < length (procs s) \<and> p_state (procs s ! i) = UNUSED \<and> nextpid t = nextpid s + 1 \<and>
         p_state (procs t ! i) = USED \<and> p_pid (procs t ! i) = nextpid s \<and>
         p_syscall_mask (procs t ! i) = 0 \<and> p_child_syscall_mask (procs t ! i) = 0 \<and>
         p_audit_enabled (procs t ! i) = 0 \<and> p_strict_mode (procs t ! i) = 0 \<and>
         (\<forall>j. j \<noteq> i \<longrightarrow> procs t ! j = procs s ! j)"
proof -
  obtain k where k: "find_unused (procs s) 0 = Some k" and al: "alloc_found k s = Inr (Some i, t)"
    using assms by (auto simp: allocproc_def bnd_Inr gets_def ret_def split: option.splits)
  show ?thesis
    using alloc_found_entry [OF al] find_unused_SomeD [OF k] by (auto simp: fresh_entry_def)
qed

text \<open>The allocations of the witness: a free list of six pages from 0x80030000 on.\<close>

definition free_mem :: mem where
  "free_mem = st64 (st64 (st64 (st64 (st64 (\<lambda>_. 0)
     0x80030000 0x80031000) 0x80031000 0x80032000) 0x80032000 0x80033000)
     0x80033000 0x80034000) 0x80034000 0x80035000"

definition fork_kernel :: "u64 \<Rightarrow> u64 \<Rightarrow> kernel" where
  "fork_kernel m c = (sample_kernel
     [sample_proc\<lparr>p_syscall_mask := m, p_child_syscall_mask := c, p_strict_mode := 1, p_sz := 0, p_cwd := Some 0\<rparr>,
      sample_proc\<lparr>p_state := UNUSED, p_pid := 0, p_syscall_mask := 7, p_audit_enabled := 1\<rparr>] sample_tf)
     \<lparr>k_mem := free_mem, k_free := 0x80030000\<rparr>"

lemma kalloc_run:
  "k_free s \<noteq> 0 \<Longrightarrow> kalloc s = Inr (k_free s, s\<lparr>k_free := ld64 (k_mem s) (k_free s),
     k_mem := memset (k_mem s) (k_free s) 5 4096\<rparr>)"
  by (simp add: kalloc_def run_defs Let_def)

lemma ld64_memset_other:
  "page_aligned p \<Longrightarrow> aligned8 a \<Longrightarrow> PGROUNDDOWN a \<noteq> p \<Longrightarrow> ld64 (memset m p c 4096) a = ld64 m a"
  by (auto intro: ld64_same_page memset_same_page)

lemmas mem_eval = kalloc_run ld64_memset0 ld64_memset_other ld64_st64_other aligned8_def page_aligned_def PGROUNDDOWN_def

lemma walk_loop_2: "walk_loop 2 = walk_loop (Suc (Suc 0))"
  by (simp add: numeral_2_eq_2)

lemmas map_eval = mappages_def walk_def walk_loop_2 TRAMPOLINE_def TRAPFRAME_def MAXVA_def PGSIZE_def
  PX_def PTE_V_def PA2PTE_def PTE2PA_def
  mappages_loop.simps [of "0x80031000" "0x3ffffff000"] mappages_loop.simps [of "0x80031000" "0x3fffffe000"]

lemma free_mem_pagetable:
  assumes "k_mem s = memset free_mem 0x80030000 5 4096" and "k_free s = 0x80031000"
  shows "\<exists>t. proc_pagetable i s = Inr (0x80031000, t)"
  by (simp add: proc_pagetable_def uvmcreate_def run_defs mem_eval map_eval assms free_mem_def)

definition ready :: "kernel \<Rightarrow> bool" where
  "ready s \<longleftrightarrow> k_mem s = free_mem \<and> k_free s = 0x80030000 \<and> nextpid s = 2 \<and> cur s = Some 0 \<and>
     length (procs s) = 2 \<and> p_state (procs s ! 0) = RUNNING \<and> p_sz (procs s ! 0) = 0 \<and>
     p_ofile (procs s ! 0) = replicate NOFILE None \<and> p_cwd (procs s ! 0) = Some 0 \<and>
     p_state (procs s ! 1) = UNUSED"

lemma ready_fork_kernel: "ready (fork_kernel m c)"
  by (simp add: ready_def fork_kernel_def sample_defs)

lemma ready_alloc:
  assumes "ready s"
  shows "\<exists>t. alloc_found 1 s = Inr (Some 1, t)"
proof -
  define u where "u = upd_proc 1 (\<lambda>p. p\<lparr>p_pid := 2, p_state := USED, p_syscall_mask := 0,
      p_child_syscall_mask := 0, p_audit_enabled := 0, p_strict_mode := 0\<rparr>) (s\<lparr>nextpid := 3\<rparr>)"
  define v where "v = upd_proc 1 (\<lambda>p. p\<lparr>p_trapframe := 0x80030000\<rparr>)
    (u\<lparr>k_free := 0x80031000, k_mem := memset free_mem 0x80030000 5 4096\<rparr>)"
  obtain t where t: "proc_pagetable 1 v = Inr (0x80031000, t)"
    using free_mem_pagetable [of v 1] by (auto simp: v_def upd_proc_def)
  have "kalloc u = Inr (0x80030000, u\<lparr>k_free := 0x80031000, k_mem := memset free_mem 0x80030000 5 4096\<rparr>)"
    using assms by (simp add: u_def upd_proc_def ready_def kalloc_run) (simp add: free_mem_def mem_eval)
  then show ?thesis
    using t assms unfolding u_def v_def by (simp add: alloc_found_def allocpid_def run_defs ready_def)
qed

lemma ready_find_unused: "ready s \<Longrightarrow> find_unused (procs s) 0 = Some 1"
  by (auto simp: ready_def length_Suc_conv numeral_2_eq_2)

lemma ready_allocproc: "ready s \<Longrightarrow> \<exists>t. allocproc s = Inr (Some 1, t)"
  using ready_alloc [of s] by (simp add: allocproc_def bnd_def gets_def ready_find_unused)

theorem allocproc_fresh_witness:
  "\<exists>t. allocproc (fork_kernel 64 0) = Inr (Some 1, t) \<and> p_syscall_mask (procs t ! 1) = 0 \<and>
     p_syscall_mask (procs (fork_kernel 64 0) ! 1) = 7 \<and> p_audit_enabled (procs t ! 1) = 0"
proof -
  obtain t where t: "allocproc (fork_kernel 64 0) = Inr (Some 1, t)" using ready_allocproc [OF ready_fork_kernel] by blast
  show ?thesis using allocproc_fresh [OF t] t by (simp add: fork_kernel_def sample_defs)
qed

section \<open>fork\<close>

definition filter_of :: "proc \<Rightarrow> int \<times> u64 \<times> u64 \<times> int \<times> int" where
  "filter_of p = (p_pid p, p_syscall_mask p, p_child_syscall_mask p, p_audit_enabled p, p_strict_mode p)"

definition inherited :: "nat \<Rightarrow> nat \<Rightarrow> proc \<Rightarrow> int \<times> u64 \<times> u64 \<times> int \<times> int \<Rightarrow> 'a kproc_scheme \<Rightarrow> bool" where
  "inherited i np p f s \<longleftrightarrow> np < length (procs s) \<and> procs s ! i = p \<and> filter_of (procs s ! np) = f"

lemma inherited_stable: "mem_stable (inherited i np p f)"
  by (simp add: mem_stable_def inherited_def)

lemma inherited_fields [simp]:
  "inherited i np p f (s\<lparr>tframes := x\<rparr>) = inherited i np p f s"
  "inherited i np p f (t\<lparr>itable := y\<rparr>) = inherited i np p f t"
  "inherited i np p f (u\<lparr>ftable := z\<rparr>) = inherited i np p f u"
  by (simp_all add: inherited_def)

lemma inherited_child:
  "i \<noteq> np \<Longrightarrow> (\<And>q. filter_of (g q) = filter_of q) \<Longrightarrow> inherited i np p f s \<Longrightarrow> inherited i np p f (upd_proc np g s)"
  by (auto simp: inherited_def nth_upd_proc)

lemma inherited_files: "i \<noteq> np \<Longrightarrow> keeps (inherited i np p f) (fork_files i np)"
  unfolding fork_files_def filedup_def
  by (intro keeps_intros keeps_modify) (auto simp: upd_file_def filter_of_def intro: inherited_child)

lemma inherited_cwd: "i \<noteq> np \<Longrightarrow> keeps (inherited i np p f) (fork_cwd i np)"
  unfolding fork_cwd_def idup_def
  by (intro keeps_intros keeps_modify) (auto simp: upd_inode_def filter_of_def intro: inherited_child)

lemma inherited_entry:
  assumes "fresh_entry pid (procs s ! np)" and "i \<noteq> np" and "np < length (procs s)" and "i < length (procs s)"
  shows "inherited i np ((procs s ! i)\<lparr>p_child_syscall_mask := 0\<rparr>)
     (pid, child_mask (procs s ! i), 0, p_audit_enabled (procs s ! i), p_strict_mode (procs s ! i)) (fork_inherit i np s)"
  using assms by (simp add: inherited_def fork_inherit_def Let_def nth_upd_proc filter_of_def fresh_entry_def)

lemma wlp_keeps: "keeps I m \<Longrightarrow> I s \<Longrightarrow> (\<And>a t. I t \<Longrightarrow> Q a t) \<Longrightarrow> wlp m Q s"
  by (auto simp: wlp_iff keeps_def)

lemma fork_child_inherits:
  assumes "fresh_entry pid (procs s ! np)" and "i \<noteq> np" and "np < length (procs s)" and "i < length (procs s)"
  shows "wlp (fork_child i np) (\<lambda>r t. r = -1 \<or> r = pid \<and> p_state (procs t ! np) = RUNNABLE \<and>
     p_parent (procs t ! np) = Some i \<and> inherited i np ((procs s ! i)\<lparr>p_child_syscall_mask := 0\<rparr>)
     (pid, child_mask (procs s ! i), 0, p_audit_enabled (procs s ! i), p_strict_mode (procs s ! i)) t) s"
proof -
  let ?p = "(procs s ! i)\<lparr>p_child_syscall_mask := 0\<rparr>"
  let ?I = "inherited i np ?p
     (pid, child_mask (procs s ! i), 0, p_audit_enabled (procs s ! i), p_strict_mode (procs s ! i))"
  let ?Q = "\<lambda>r t. r = -1 \<or> r = pid \<and> p_state (procs t ! np) = RUNNABLE \<and> p_parent (procs t ! np) = Some i \<and> ?I t"
  have upd: "?I (upd_proc np g t)" if "?I t" "\<And>q. filter_of (g q) = filter_of q" for g and t :: "'a kernel_scheme"
    using inherited_child [OF assms(2) that(2,1)] .
  have tail: "wlp (andthen (modify (\<lambda>s. upd_proc np (\<lambda>q. q\<lparr>p_name := safestrcpy (p_name q) (p_name (procs s ! i)) 16\<rparr>) s))
      (andthen (modify (upd_proc np (\<lambda>q. q\<lparr>p_parent := Some i\<rparr>)))
      (andthen (modify (upd_proc np (\<lambda>q. q\<lparr>p_state := RUNNABLE\<rparr>)))
               (gets (\<lambda>s. p_pid (procs s ! np)))))) ?Q t" if "?I t" for t :: "'a kernel_scheme"
    using that assms(2) by (auto simp: wp_rules inherited_def nth_upd_proc filter_of_def)
  have files: "wlp (andthen (fork_files i np) (andthen (fork_cwd i np) k)) ?Q t"
    if "?I t" "\<And>u. ?I u \<Longrightarrow> wlp k ?Q u" for t :: "'a kernel_scheme" and k
    unfolding wlp_andthen
    by (rule wlp_keeps [OF inherited_files [OF assms(2)] that(1)], rule wlp_keeps [OF inherited_cwd [OF assms(2)]])
      (use that(2) in auto)
  have body: "wlp (if r < 0 then andthen (freeproc np) (ret (-1)) else
       andthen (modify (upd_proc np (\<lambda>q. q\<lparr>p_sz := sz\<rparr>))) (andthen (modify (fork_tf i np)) k)) ?Q t"
    if "?I t" "\<And>u. ?I u \<Longrightarrow> wlp k ?Q u" for t :: "'a kernel_scheme" and k sz and r :: int
    using that by (auto simp: wp_rules wlp_iff [of "freeproc np"] fork_tf_def filter_of_def intro!: that(2) upd)
  show ?thesis
    unfolding fork_child_def wlp_andthen [of "modify (fork_inherit i np)"] wlp_modify wlp_bnd wlp_gets split_def
    by (rule wlp_keeps [OF uvmcopy_keeps [OF inherited_stable] inherited_entry [OF assms]])
      (rule body, assumption, rule files, assumption, rule tail)
qed

lemma kfork_child:
  fixes s :: "'a kernel_scheme"
  assumes "kfork s = Inr (r, t)" and "r \<noteq> -1" and "cur s = Some i" and "i < length (procs s)"
    and "p_state (procs s ! i) \<noteq> UNUSED"
  shows "\<exists>np < length (procs s). p_state (procs s ! np) = UNUSED \<and> r = nextpid s \<and>
     p_pid (procs t ! np) = r \<and> p_state (procs t ! np) = RUNNABLE \<and> p_parent (procs t ! np) = Some i \<and>
     p_syscall_mask (procs t ! np) =
       (if p_child_syscall_mask (procs s ! i) \<noteq> 0 then p_child_syscall_mask (procs s ! i)
        else p_syscall_mask (procs s ! i)) \<and>
     p_child_syscall_mask (procs t ! np) = 0 \<and>
     p_audit_enabled (procs t ! np) = p_audit_enabled (procs s ! i) \<and>
     p_strict_mode (procs t ! np) = p_strict_mode (procs s ! i) \<and>
     procs t ! i = (procs s ! i)\<lparr>p_child_syscall_mask := 0\<rparr>"
proof -
  obtain k np u where k: "find_unused (procs s) 0 = Some k" and al: "alloc_found k s = Inr (Some np, u)"
    and fc: "fork_child i np u = Inr (r, t)"
    using assms(1-3)
    by (auto simp: kfork_def allocproc_def bnd_Inr gets_def ret_def me_def split: option.splits)
  have np: "k = np" using alloc_found_result [OF al] by simp
  have lt: "np < length (procs s)" and un: "p_state (procs s ! np) = UNUSED"
    using find_unused_SomeD [OF k] np by auto
  have ne: "i \<noteq> np" using un assms(5) by auto
  have u: "length (procs u) = length (procs s)" "fresh_entry (nextpid s) (procs u ! np)" "procs u ! i = procs s ! i"
    using alloc_found_entry [OF al] lt np ne by auto
  show ?thesis
    using wlp_resultD [OF fork_child_inherits [OF u(2) ne] fc] assms(2,4) lt un u(1,3)
    by (auto simp: inherited_def filter_of_def child_mask_def)
qed

text \<open>
  C6. \<^verbatim>\<open>fork\<close> hands the filter on. When a fork succeeds, the child is a slot that was unused,
  it has a new pid and is runnable, its parent is the caller, its mask is the one the parent
  asked for with \<^verbatim>\<open>setfilter_child\<close> or else the parent's own, it is audited and strict exactly
  when the parent is, and it has no mask for children of its own. Of the parent's entry only
  the mask for children changes: it is used up.
\<close>

theorem fork_inherits:
  fixes s :: "'a kernel_scheme"
  assumes "kfork s = Inr (r, t)" and "r \<noteq> -1" and "cur s = Some i" and "i < length (procs s)"
    and "p_state (procs s ! i) \<noteq> UNUSED"
  shows "\<exists>np < length (procs s). p_state (procs s ! np) = UNUSED \<and> r = nextpid s \<and>
     p_pid (procs t ! np) = r \<and> p_state (procs t ! np) = RUNNABLE \<and> p_parent (procs t ! np) = Some i \<and>
     p_syscall_mask (procs t ! np) =
       (if p_child_syscall_mask (procs s ! i) \<noteq> 0 then p_child_syscall_mask (procs s ! i)
        else p_syscall_mask (procs s ! i)) \<and>
     p_child_syscall_mask (procs t ! np) = 0 \<and>
     p_audit_enabled (procs t ! np) = p_audit_enabled (procs s ! i) \<and>
     p_strict_mode (procs t ! np) = p_strict_mode (procs s ! i) \<and>
     procs t ! i = (procs s ! i)\<lparr>p_child_syscall_mask := 0\<rparr>"
  using kfork_child [OF assms] .

lemma fork_files_none:
  assumes "p_ofile (procs s ! i) = replicate NOFILE None"
  shows "fork_files i np s = Inr ((), s)"
proof -
  have "forM xs (\<lambda>fd. bnd (gets (\<lambda>s. p_ofile (procs s ! i) ! fd)) (\<lambda>f.
       case f of None \<Rightarrow> skip | Some f \<Rightarrow> bnd (filedup f) (\<lambda>f.
           modify (upd_proc np (\<lambda>q. q\<lparr>p_ofile := (p_ofile q)[fd := Some f]\<rparr>))))) s = Inr ((), s)"
    if "set xs \<subseteq> {0..<NOFILE}" for xs
    using that assms by (induction xs) (auto simp: run_defs)
  then show ?thesis by (simp add: fork_files_def)
qed

lemma fork_child_runs:
  assumes "fresh_entry 2 (procs s ! 1)" and "length (procs s) = 2" and "p_sz (procs s ! 0) = 0"
    and "p_ofile (procs s ! 0) = replicate NOFILE None" and "p_cwd (procs s ! 0) = Some 0"
  shows "\<exists>t. fork_child 0 1 s = Inr (2, t)"
  using assms
  by (simp add: fork_child_def fork_cwd_def idup_def upd_inode_def fork_tf_def fork_inherit_def Let_def
      uvmcopy_def uvmcopy_loop.simps [of _ _ 0 0] fork_files_none run_defs nth_upd_proc fresh_entry_def)

lemma ready_fork:
  assumes "ready s"
  shows "\<exists>t. kfork s = Inr (2, t)"
proof -
  obtain u where u: "alloc_found 1 s = Inr (Some 1, u)" using ready_alloc [OF assms] by blast
  then have al: "allocproc s = Inr (Some 1, u)"
    using assms by (simp add: allocproc_def bnd_def gets_def ready_find_unused)
  have "length (procs u) = 2 \<and> fresh_entry 2 (procs u ! 1) \<and> procs u ! 0 = procs s ! 0"
    using alloc_found_entry [OF u] assms by (simp add: ready_def)
  then obtain t where "fork_child 0 1 u = Inr (2, t)"
    using fork_child_runs [of u] assms by (auto simp: ready_def)
  then show ?thesis
    using al assms by (simp add: kfork_def bnd_def gets_def me_def ready_def)
qed

theorem fork_inherits_witness:
  "\<exists>t np. kfork (fork_kernel 64 0x10040) = Inr (2, t) \<and>
     p_syscall_mask (procs t ! np) = 0x10040 \<and> p_strict_mode (procs t ! np) = 1"
proof -
  obtain t where t: "kfork (fork_kernel 64 0x10040) = Inr (2, t)" using ready_fork [OF ready_fork_kernel] by blast
  show ?thesis
    using fork_inherits [OF t, of 0] t by (auto simp: fork_kernel_def sample_defs)
qed

text \<open>A handler as a user program calls it, with its first argument.\<close>

definition with_a0 :: "u64 \<Rightarrow> ('a kernel_scheme, u64) routine \<Rightarrow> ('a kernel_scheme, u64) routine" where
  "with_a0 v h = andthen (modify (set_a0 v)) h"

lemma my_simps_upd [simp]:
  "me (upd_proc i f s) = me s" "me (set_a0 v s) = me s" "myproc (set_a0 v s) = myproc s"
  "tf_a0 (my_tf (set_a0 v s)) = v"
  by (simp_all add: me_def upd_proc_def set_a0_def upd_my_tf_def myproc_def my_tf_def)

lemma setfilter_run:
  "with_a0 m sys_setfilter s = Inr (if m AND p_syscall_mask (myproc s) = p_syscall_mask (myproc s)
     then (0, upd_proc (me s) (\<lambda>p. p\<lparr>p_syscall_mask := m\<rparr>) (set_a0 m s)) else (minus_one, set_a0 m s))"
  by (simp add: with_a0_def sys_setfilter_def argaddr_def argraw_def run_defs)

lemma setfilter_child_run:
  "with_a0 m sys_setfilter_child s = Inr (if m AND p_syscall_mask (myproc s) = p_syscall_mask (myproc s)
     then (0, upd_proc (me s) (\<lambda>p. p\<lparr>p_child_syscall_mask := m\<rparr>) (set_a0 m s)) else (minus_one, set_a0 m s))"
  by (simp add: with_a0_def sys_setfilter_child_def argaddr_def argraw_def run_defs)

lemma ready_fields:
  "ready (set_a0 v s) = ready s" "ready (upd_proc i (\<lambda>p. p\<lparr>p_syscall_mask := m\<rparr>) s) = ready s"
  "ready (upd_proc i (\<lambda>p. p\<lparr>p_child_syscall_mask := m\<rparr>) s) = ready s"
  by (auto simp: ready_def nth_upd_proc) (auto simp: upd_proc_def set_a0_def upd_my_tf_def)


section \<open>Setting and reading the filter\<close>

text \<open>
  C8. \<^verbatim>\<open>setfilter(m)\<close> succeeds exactly if \<open>m\<close> contains every call that is already blocked; then
  \<^verbatim>\<open>getfilter\<close> returns \<open>m\<close>. Otherwise it returns -1 and \<^verbatim>\<open>getfilter\<close> returns the old mask.
  Neither changes any other process, nor anything but the mask of the caller.
\<close>

theorem setfilter_getfilter:
  assumes "cur s = Some i" and "i < length (procs s)"
  shows "\<exists>r t. with_a0 m sys_setfilter s = Inr (r, t) \<and>
     r = (if \<forall>n. bit (p_syscall_mask (procs s ! i)) n \<longrightarrow> bit m n then 0 else minus_one) \<and>
     sys_getfilter t = Inr (if r = 0 then m else p_syscall_mask (procs s ! i), t) \<and>
     procs t = (procs s)[i := (procs s ! i)\<lparr>p_syscall_mask := if r = 0 then m else p_syscall_mask (procs s ! i)\<rparr>]"
proof -
  have "minus_one \<noteq> 0" by (simp add: minus_one_def)
  moreover have "procs s = (procs s)[i := procs s ! i]" by simp
  moreover have "(procs s ! i)\<lparr>p_syscall_mask := p_syscall_mask (procs s ! i)\<rparr> = procs s ! i" by simp
  ultimately show ?thesis
    using assms
    by (simp add: setfilter_run word_superset_iff [symmetric] sys_getfilter_def gets_def myproc_def me_def nth_upd_proc)
      (simp add: upd_proc_def)
qed

theorem setfilter_getfilter_witness:
  "\<exists>r t. with_a0 0x60 sys_setfilter (fork_kernel 0x40 0) = Inr (r, t) \<and> r = 0 \<and> sys_getfilter t = Inr (0x60, t)"
proof -
  have sup: "\<forall>n. bit (0x40 :: u64) n \<longrightarrow> bit (0x60 :: u64) n"
    unfolding word_superset_iff [symmetric] by simp
  show ?thesis
    using setfilter_getfilter [of "fork_kernel 0x40 0" 0 "0x60"] sup
    by (auto simp: fork_kernel_def sample_defs)
qed

section \<open>Whole runs\<close>

text \<open>
  The system as a step relation. Between traps the running process computes: its registers,
  the memory and the control registers are arbitrary afterwards. A trap from user space or
  from the kernel is handled. The scheduler picks any runnable process.
\<close>

inductive kstep :: "machine \<Rightarrow> machine \<Rightarrow> bool" where
  user: "cur s = Some i \<Longrightarrow> p_state (procs s ! i) = RUNNING \<Longrightarrow>
    kstep s (s\<lparr>k_mem := m, tframes := (tframes s)(p_trapframe (procs s ! i) := tf), hart := h\<rparr>)"
| utrap: "cur s = Some i \<Longrightarrow> i < length (procs s) \<Longrightarrow> p_state (procs s ! i) = RUNNING \<Longrightarrow>
    usertrap ev s = Inr (x, t) \<Longrightarrow> kstep s t"
| ktrap: "cur s = Some i \<Longrightarrow> i < length (procs s) \<Longrightarrow> p_state (procs s ! i) = RUNNING \<Longrightarrow>
    kerneltrap ev s = Inr (y, t) \<Longrightarrow> kstep s t"
| switch: "i < length (procs s) \<Longrightarrow> p_state (procs s ! i) = RUNNABLE \<Longrightarrow>
    kstep s ((upd_proc i (\<lambda>p. p\<lparr>p_state := RUNNING\<rparr>) s)\<lparr>cur := Some i\<rparr>)"

inductive_cases kstepE: "kstep s t"

definition keeps_filter :: "nat \<Rightarrow> machine \<Rightarrow> machine \<Rightarrow> bool" where
  "keeps_filter j s t \<longleftrightarrow> j < length (procs t) \<and> live (p_state (procs t ! j)) \<and>
     p_pid (procs t ! j) = p_pid (procs s ! j) \<and>
     p_syscall_mask (procs t ! j) AND p_syscall_mask (procs s ! j) = p_syscall_mask (procs s ! j) \<and>
     (p_killed (procs s ! j) \<noteq> 0 \<longrightarrow> p_killed (procs t ! j) \<noteq> 0)"

lemma keeps_filter_run:
  assumes "\<And>L m pd kd. keeps (ratchet i L m pd kd) op" and "op s = Inr (a, t)"
    and "cur s = Some i" and "i < length (procs s)" and "p_state (procs s ! i) = RUNNING"
    and "j < length (procs s)" and "live (p_state (procs s ! j))"
  shows "keeps_filter j s t"
  using keepsD [OF assms(1) ratchet_entry [OF assms(3,4)] assms(2)] assms(5-7)
  by (simp add: ratchet_def keeps_filter_def live_def)

lemma kstep_keeps_filter:
  assumes "kstep s t" and "j < length (procs s)" and "live (p_state (procs s ! j))"
  shows "keeps_filter j s t"
  using assms
proof (cases rule: kstep.cases)
  case (utrap i ev x)
  show ?thesis by (rule keeps_filter_run [OF rk_usertrap utrap(4,1,2,3) assms(2,3)])
next
  case (ktrap i ev y)
  show ?thesis by (rule keeps_filter_run [OF rk_kerneltrap ktrap(4,1,2,3) assms(2,3)])
qed (auto simp: keeps_filter_def nth_upd_proc live_def)

lemma keeps_filter_trans:
  "keeps_filter j s t \<Longrightarrow> keeps_filter j t u \<Longrightarrow> keeps_filter j s u"
  unfolding keeps_filter_def word_superset_iff by auto

text \<open>
  C2. A filter is permanent. Along any sequence of steps, in which any processes take traps of
  any kind that return, with any registers and memory contents, and the scheduler switches
  between them at will, a live process stays the same process, every call it has blocked
  stays blocked, and once marked killed it stays so.
\<close>

theorem filter_permanent:
  assumes "kstep\<^sup>*\<^sup>* s t" and "j < length (procs s)" and "live (p_state (procs s ! j))"
  shows "p_pid (procs t ! j) = p_pid (procs s ! j) \<and>
     (\<forall>n. bit (p_syscall_mask (procs s ! j)) n \<longrightarrow> bit (p_syscall_mask (procs t ! j)) n) \<and>
     (p_killed (procs s ! j) \<noteq> 0 \<longrightarrow> p_killed (procs t ! j) \<noteq> 0)"
proof -
  have "keeps_filter j s t"
    using assms
  proof (induction rule: rtranclp_induct)
    case base
    then show ?case by (simp add: keeps_filter_def)
  next
    case (step t u)
    then have "keeps_filter j s t" by simp
    moreover have "keeps_filter j t u"
      using kstep_keeps_filter [OF step(2)] \<open>keeps_filter j s t\<close> by (simp add: keeps_filter_def)
    ultimately show ?case by (rule keeps_filter_trans)
  qed
  then show ?thesis by (simp add: keeps_filter_def word_superset_iff)
qed

theorem filter_permanent_witness:
  "\<exists>t. kstep\<^sup>*\<^sup>* clock_machine t \<and> p_syscall_mask (procs t ! 0) AND 64 = 64 \<and> p_pid (procs t ! 0) = 1"
proof -
  obtain x t where run: "usertrap no_event clock_machine = Inr (x, t)" using clock_machine_run by blast
  have m: "cur clock_machine = Some 0" "length (procs clock_machine) = 1"
    "p_state (procs clock_machine ! 0) = RUNNING" "p_syscall_mask (procs clock_machine ! 0) = 64"
    "p_pid (procs clock_machine ! 0) = 1"
    by (simp_all add: clock_machine_def sample_machine_def sample_defs kernel.defs machine.defs)
  then have "kstep\<^sup>*\<^sup>* clock_machine t" using kstep.utrap [OF _ _ _ run, of 0] by auto
  then show ?thesis
    using filter_permanent [of clock_machine t 0] m by (auto simp: live_def word_superset_iff)
qed

end
