(* ===== verification/Cache.thy ===== *)
theory Cache
  imports Bio
begin

text \<open>
  The buffer cache as a cache. \<open>content\<close> is what the file system sees of a block: the cached
  copy if there is one, else the block on disk. The invariant \<open>cache\<close> says which buffers are
  held locked by the running process and which are pinned by the log; every other cached copy
  agrees with the disk. The lemmas describe the routines of \<^verbatim>\<open>kernel/bio.c\<close> by their effect on
  contents, disk and the sequence of disk writes.
\<close>

section \<open>Contents and invariant\<close>

definition caches :: "u32 \<Rightarrow> 'a kbio_scheme \<Rightarrow> nat \<Rightarrow> u32 \<Rightarrow> bool" where
  "caches dev s i b \<longleftrightarrow> i < NBUF \<and> b_dev (bufs s ! i) = dev \<and> b_blockno (bufs s ! i) = b"

definition content :: "u32 \<Rightarrow> 'a kbio_scheme \<Rightarrow> u32 \<Rightarrow> u8 list" where
  "content dev s b =
     (case find_cached (bufs s) dev b (lru s) of Some i \<Rightarrow> b_data (bufs s ! i) | None \<Rightarrow> disk s b)"

text \<open>One buffer, when it is held or pinned or neither.\<close>

definition buf_ok :: "u32 \<Rightarrow> bool \<Rightarrow> bool \<Rightarrow> int \<Rightarrow> (u32 \<Rightarrow> u8 list) \<Rightarrow> buf \<Rightarrow> bool" where
  "buf_ok dev held pinned pid d x \<longleftrightarrow>
     b_refcnt x = of_bool held + of_bool pinned \<and>
     (sl_locked (b_lock x) \<longleftrightarrow> held) \<and> (held \<longrightarrow> sl_pid (b_lock x) = pid) \<and>
     (held \<or> pinned \<longrightarrow> b_dev x = dev) \<and>
     (b_dev x = dev \<longrightarrow> b_valid x \<and> length (b_data x) = BSIZE) \<and>
     (b_dev x = dev \<and> \<not> held \<and> \<not> pinned \<longrightarrow> b_data x = d (b_blockno x))"

definition cache :: "u32 \<Rightarrow> nat set \<Rightarrow> nat set \<Rightarrow> 'a kbio_scheme \<Rightarrow> bool" where
  "cache dev H P s \<longleftrightarrow>
     me s < length (procs s) \<and>
     length (bufs s) = NBUF \<and> distinct (lru s) \<and> set (lru s) = {..<NBUF} \<and>
     H \<subseteq> {..<NBUF} \<and> P \<subseteq> {..<NBUF} \<and> (\<forall>b. length (disk s b) = BSIZE) \<and>
     (\<forall>i < NBUF. buf_ok dev (i \<in> H) (i \<in> P) (p_pid (myproc s)) (disk s) (bufs s ! i)) \<and>
     (\<forall>i j b. caches dev s i b \<and> caches dev s j b \<longrightarrow> i = j)"

section \<open>Looking up\<close>

lemma find_cached_Some:
  "find_cached bs dev b is = Some i \<Longrightarrow> i \<in> set is \<and> b_dev (bs ! i) = dev \<and> b_blockno (bs ! i) = b"
  by (induction "is") (auto split: if_splits)

lemma find_cached_None:
  "find_cached bs dev b is = None \<longleftrightarrow> (\<forall>i \<in> set is. \<not> (b_dev (bs ! i) = dev \<and> b_blockno (bs ! i) = b))"
  by (induction "is") auto

lemma find_recyclable_Some: "find_recyclable bs is = Some i \<Longrightarrow> i \<in> set is \<and> b_refcnt (bs ! i) = 0"
  by (induction "is") (auto split: if_splits)

lemma find_recyclable_None: "find_recyclable bs is = None \<longleftrightarrow> (\<forall>i \<in> set is. b_refcnt (bs ! i) \<noteq> 0)"
  by (induction "is") auto

lemma find_cached_iff:
  assumes "cache dev H P s"
  shows "find_cached (bufs s) dev b (lru s) = Some i \<longleftrightarrow> caches dev s i b"
proof
  assume "find_cached (bufs s) dev b (lru s) = Some i"
  then show "caches dev s i b" using assms by (auto simp: cache_def caches_def dest: find_cached_Some)
next
  assume i: "caches dev s i b"
  then have "find_cached (bufs s) dev b (lru s) \<noteq> None"
    using assms by (auto simp: cache_def caches_def find_cached_None)
  then obtain j where j: "find_cached (bufs s) dev b (lru s) = Some j" by blast
  then have "caches dev s j b" using assms by (auto simp: cache_def caches_def dest: find_cached_Some)
  then show "find_cached (bufs s) dev b (lru s) = Some i" using assms i j unfolding cache_def by blast
qed

lemma find_cached_None_iff:
  assumes "cache dev H P s"
  shows "find_cached (bufs s) dev b (lru s) = None \<longleftrightarrow> (\<nexists>i. caches dev s i b)"
  using find_cached_iff [OF assms] by (metis not_None_eq)

lemma content_cached: "cache dev H P s \<Longrightarrow> caches dev s i b \<Longrightarrow> content dev s b = b_data (bufs s ! i)"
  using find_cached_iff [of dev H P s b i] by (simp add: content_def)

lemma content_disk: "cache dev H P s \<Longrightarrow> (\<nexists>i. caches dev s i b) \<Longrightarrow> content dev s b = disk s b"
  using find_cached_None_iff [of dev H P s b] by (simp add: content_def)

lemma caches_bound: "caches dev s i b \<Longrightarrow> i < NBUF"
  by (simp add: caches_def)

lemma cache_buf: "cache dev H P s \<Longrightarrow> i < NBUF \<Longrightarrow>
  buf_ok dev (i \<in> H) (i \<in> P) (p_pid (myproc s)) (disk s) (bufs s ! i)"
  unfolding cache_def by blast

lemma cache_unique: "cache dev H P s \<Longrightarrow> caches dev s i b \<Longrightarrow> caches dev s j b \<Longrightarrow> i = j"
  unfolding cache_def by blast

lemma content_length:
  assumes c: "cache dev H P s"
  shows "length (content dev s b) = BSIZE"
proof (cases "\<exists>i. caches dev s i b")
  case True
  then obtain i where i: "caches dev s i b" by blast
  then show ?thesis
    using content_cached [OF c i] cache_buf [OF c caches_bound [OF i]] by (simp add: buf_ok_def caches_def)
next
  case False
  then show ?thesis using content_disk [OF c] c by (auto simp: cache_def)
qed

text \<open>A buffer that is neither held nor pinned is clean.\<close>

lemma content_clean:
  assumes "cache dev H P s" "caches dev s i b" "i \<notin> H" "i \<notin> P"
  shows "content dev s b = disk s b"
  using content_cached [OF assms(1,2)] cache_buf [OF assms(1) caches_bound [OF assms(2)]] assms
  by (simp add: buf_ok_def caches_def)

section \<open>Replacing a buffer\<close>

lemma cache_replace:
  assumes c: "cache dev H P s" and i: "i < NBUF"
    and ok: "buf_ok dev h p (p_pid (myproc s)) (disk s) x"
    and new: "\<And>j. b_dev x = dev \<Longrightarrow> caches dev s j (b_blockno x) \<Longrightarrow> j = i"
    and H': "H' = (if h then insert i H else H - {i})" and P': "P' = (if p then insert i P else P - {i})"
    and t: "t = s\<lparr>bufs := (bufs s)[i := x]\<rparr>"
  shows "cache dev H' P' t" "content dev t b =
     (if b_dev x = dev \<and> b_blockno x = b then b_data x
      else if caches dev s i b then disk s b else content dev s b)"
proof -
  have len: "length (bufs s) = NBUF" using c by (simp add: cache_def)
  have at: "bufs t ! j = (if j = i then x else bufs s ! j)" if "j < NBUF" for j
    using that len t by (simp add: nth_list_update)
  have ct: "caches dev t j b \<longleftrightarrow> (if j = i then b_dev x = dev \<and> b_blockno x = b else caches dev s j b)" for j b
    using at i by (auto simp: caches_def)
  have my: "myproc t = myproc s" by (simp add: t myproc_def me_def)
  have "buf_ok dev (j \<in> H') (j \<in> P') (p_pid (myproc t)) (disk t) (bufs t ! j)" if "j < NBUF" for j
    using cache_buf [OF c that] ok unfolding my at [OF that] by (auto simp: t H' P')
  moreover have "j = k" if "caches dev t j b" "caches dev t k b" for j k b
    using that new cache_unique [OF c] unfolding ct by (metis (full_types))
  ultimately show ok_t: "cache dev H' P' t"
    using c i unfolding cache_def by (auto simp: t H' P' me_def)
  show "content dev t b =
     (if b_dev x = dev \<and> b_blockno x = b then b_data x
      else if caches dev s i b then disk s b else content dev s b)"
  proof (cases "b_dev x = dev \<and> b_blockno x = b")
    case True
    then have "caches dev t i b" using ct by simp
    then show ?thesis using True content_cached [OF ok_t, of i b] at [OF i] by simp
  next
    case other: False
    show ?thesis
    proof (cases "caches dev s i b")
      case True
      then have "\<nexists>j. caches dev t j b" using ct other cache_unique [OF c] by metis
      then have "content dev t b = disk s b" using content_disk [OF ok_t] by (simp add: t)
      then show ?thesis using other True by auto
    next
      case False
      then have same: "caches dev t j b = caches dev s j b" for j using ct other by auto
      have "content dev t b = content dev s b"
      proof (cases "\<exists>j. caches dev s j b")
        case True
        then obtain j where j: "caches dev s j b" by blast
        then have "bufs t ! j = bufs s ! j" using at [OF caches_bound [OF j]] False by auto
        then show ?thesis using content_cached [OF c j] content_cached [OF ok_t, of j b] same j by simp
      next
        case False
        then show ?thesis using content_disk [OF c] content_disk [OF ok_t] same by (simp add: t)
      qed
      then show ?thesis using other False by auto
    qed
  qed
qed

section \<open>The routines\<close>

text \<open>What the cache routines change of a state.\<close>

definition bio_only :: "'a kbio_scheme \<Rightarrow> 'a kbio_scheme \<Rightarrow> bool" where
  "bio_only s t \<longleftrightarrow> (\<exists>bs l d w ps. t = s\<lparr>procs := ps, disk := d, dwrites := w, bufs := bs, lru := l\<rparr>) \<and>
     p_pid (myproc t) = p_pid (myproc s)"

lemma bio_onlyI:
  "t = s\<lparr>procs := ps, disk := d, dwrites := w, bufs := bs, lru := l\<rparr> \<Longrightarrow>
   p_pid (myproc t) = p_pid (myproc s) \<Longrightarrow> bio_only s t"
  unfolding bio_only_def by blast

lemma bio_only_bufs: "bio_only s (s\<lparr>bufs := bs\<rparr>)"
  by (rule bio_onlyI [where ps = "procs s" and d = "disk s" and w = "dwrites s" and l = "lru s" and bs = bs])
    (simp_all add: myproc_def me_def)

lemma bio_only_refl: "bio_only s s"
  using bio_only_bufs [of s "bufs s"] by simp

lemma bio_only_trans:
  assumes "bio_only s t" "bio_only t u"
  shows "bio_only s u"
proof -
  obtain bs l d w ps where t: "t = s\<lparr>procs := ps, disk := d, dwrites := w, bufs := bs, lru := l\<rparr>"
    using assms(1) unfolding bio_only_def by blast
  obtain bs' l' d' w' ps' where u: "u = t\<lparr>procs := ps', disk := d', dwrites := w', bufs := bs', lru := l'\<rparr>"
    using assms(2) unfolding bio_only_def by blast
  have "u = s\<lparr>procs := ps', disk := d', dwrites := w', bufs := bs', lru := l'\<rparr>" unfolding u t by simp
  then show ?thesis using assms by (intro bio_onlyI) (auto simp: bio_only_def)
qed

text \<open>\<^verbatim>\<open>bread\<close>: the block's buffer is locked, and holds the content of the block.\<close>

definition bread_post :: "u32 \<Rightarrow> nat set \<Rightarrow> nat set \<Rightarrow> u32 \<Rightarrow> 'a kbio_scheme \<Rightarrow> nat \<Rightarrow> 'a kbio_scheme \<Rightarrow> bool" where
  "bread_post dev H P b s i t \<longleftrightarrow> cache dev (insert i H) P t \<and> i \<notin> H \<and> caches dev t i b \<and>
     b_data (bufs t ! i) = content dev s b \<and> content dev t = content dev s \<and>
     bio_only s t \<and> disk t = disk s \<and> dwrites t = dwrites s \<and> (\<forall>j. j \<noteq> i \<longrightarrow> bufs t ! j = bufs s ! j)"

lemma bread_post_replace:
  assumes c: "cache dev H P s" and i: "i < NBUF" "i \<notin> H"
    and x: "buf_ok dev True (i \<in> P) (p_pid (myproc s)) (disk s) x" "b_dev x = dev" "b_blockno x = b"
      "b_data x = content dev s b"
    and new: "\<And>j. caches dev s j b \<Longrightarrow> j = i"
    and evict: "\<And>b'. caches dev s i b' \<Longrightarrow> b' \<noteq> b \<Longrightarrow> content dev s b' = disk s b'"
    and t: "t = s\<lparr>bufs := (bufs s)[i := x]\<rparr>"
  shows "bread_post dev H P b s i t"
proof -
  have P: "P = (if i \<in> P then insert i P else P - {i})" by auto
  have new': "j = i" if "caches dev s j (b_blockno x)" for j using new that x(3) by simp
  note rep = cache_replace [OF c i(1) x(1) new' _ P t, where H' = "insert i H", simplified]
  have "content dev t b' = content dev s b'" for b'
    using rep(2) [of b'] x evict [of b'] by auto
  moreover have len: "i < length (bufs s)" using c i(1) by (simp add: cache_def)
  then have "caches dev t i b" using i x by (simp add: caches_def t)
  ultimately show ?thesis
    using rep(1) i(2) x(4) len bio_only_bufs unfolding bread_post_def by (simp add: t fun_eq_iff)
qed

lemma bread_hit:
  assumes c: "cache dev H P s" and i: "caches dev s i b" "i \<notin> H"
  shows "\<exists>t. bread dev b s = Inr (i, t) \<and> bread_post dev H P b s i t"
proof -
  let ?o = "bufs s ! i"
  define x where "x = ?o\<lparr>b_refcnt := b_refcnt ?o + 1, b_lock := \<lparr>sl_locked = True, sl_pid = p_pid (myproc s)\<rparr>\<rparr>"
  define t where "t = s\<lparr>bufs := (bufs s)[i := x]\<rparr>"
  have ok: "buf_ok dev False (i \<in> P) (p_pid (myproc s)) (disk s) ?o"
    using cache_buf [OF c caches_bound [OF i(1)]] i(2) by simp
  have "i < length (bufs s)" "find_cached (bufs s) dev b (lru s) = Some i"
    using c caches_bound [OF i(1)] find_cached_iff [OF c] i(1) by (simp_all add: cache_def)
  then have run: "bread dev b s = Inr (i, t)"
    using ok i(1)
    by (simp add: bread_def bget_def lock_buf_def acquiresleep_def virtio_disk_rw_def bnd_def andthen_def gets_def
        modify_def ret_def whenM_def skip_def upd_buf_def buf_ok_def myproc_def me_def t_def x_def caches_def)
  have x: "buf_ok dev True (i \<in> P) (p_pid (myproc s)) (disk s) x" "b_dev x = dev" "b_blockno x = b"
      "b_data x = content dev s b"
    using ok i(1) content_cached [OF c i(1)] by (auto simp: buf_ok_def x_def caches_def)
  have "bread_post dev H P b s i t"
  proof (rule bread_post_replace [OF c caches_bound [OF i(1)] i(2) x _ _ t_def])
    show "j = i" if "caches dev s j b" for j using cache_unique [OF c that i(1)] .
  qed (use i(1) in \<open>simp add: caches_def\<close>)
  then show ?thesis using run by blast
qed

lemma bread_miss:
  assumes c: "cache dev H P s" and none: "\<nexists>i. caches dev s i b" and room: "card (H \<union> P) < NBUF"
  shows "\<exists>i t. bread dev b s = Inr (i, t) \<and> bread_post dev H P b s i t \<and> i \<notin> P"
proof -
  have "\<not> (\<forall>i < NBUF. b_refcnt (bufs s ! i) \<noteq> 0)"
  proof
    assume all: "\<forall>i < NBUF. b_refcnt (bufs s ! i) \<noteq> 0"
    have "i \<in> H \<union> P" if "i < NBUF" for i using cache_buf [OF c that] all that by (auto simp: buf_ok_def)
    then have "{..<NBUF} \<subseteq> H \<union> P" by auto
    moreover have "finite (H \<union> P)" using c by (auto simp: cache_def intro: finite_subset)
    ultimately have "NBUF \<le> card (H \<union> P)" using card_mono [of "H \<union> P" "{..<NBUF}"] by simp
    then show False using room by simp
  qed
  then obtain i where rec: "find_recyclable (bufs s) (rev (lru s)) = Some i"
    using c find_recyclable_None [of "bufs s" "rev (lru s)"] by (auto simp: cache_def)
  then have i: "i < NBUF" "b_refcnt (bufs s ! i) = 0"
    using c by (auto simp: cache_def dest: find_recyclable_Some)
  then have hp: "i \<notin> H" "i \<notin> P" using cache_buf [OF c i(1)] by (auto simp: buf_ok_def of_bool_def split: if_splits)
  let ?o = "bufs s ! i"
  define x where "x = ?o\<lparr>b_dev := dev, b_blockno := b, b_refcnt := 1,
     b_lock := \<lparr>sl_locked = True, sl_pid = p_pid (myproc s)\<rparr>, b_data := disk s b, b_valid := True\<rparr>"
  define t where "t = s\<lparr>bufs := (bufs s)[i := x]\<rparr>"
  have len: "i < length (bufs s)" using c i(1) by (simp add: cache_def)
  have "\<not> sl_locked (b_lock ?o)" using cache_buf [OF c i(1)] hp by (simp add: buf_ok_def)
  moreover have "find_cached (bufs s) dev b (lru s) = None" using find_cached_None_iff [OF c] none by blast
  ultimately have run: "bread dev b s = Inr (i, t)"
    using rec len
    by (simp add: bread_def bget_def lock_buf_def acquiresleep_def virtio_disk_rw_def bnd_def andthen_def gets_def
        modify_def ret_def whenM_def skip_def upd_buf_def myproc_def me_def t_def x_def)
  have x: "buf_ok dev True (i \<in> P) (p_pid (myproc s)) (disk s) x" "b_dev x = dev" "b_blockno x = b"
      "b_data x = content dev s b"
    using c hp content_disk [OF c none] by (auto simp: buf_ok_def x_def cache_def)
  have "bread_post dev H P b s i t"
    using none content_clean [OF c _ hp]
    by (intro bread_post_replace [OF c i(1) hp(1) x _ _ t_def]) auto
  then show ?thesis using run hp by blast
qed

text \<open>Writing into a held buffer.\<close>

lemma set_data_ok:
  assumes c: "cache dev H P s" and i: "caches dev s i b" "i \<in> H" and v: "length v = BSIZE"
    and t: "t = upd_buf i (\<lambda>x. x\<lparr>b_data := v\<rparr>) s"
  shows "cache dev H P t" "content dev t = (content dev s)(b := v)" "caches dev t = caches dev s"
    "b_data (bufs t ! i) = v" "bio_only s t" "disk t = disk s" "dwrites t = dwrites s"
    "\<And>j. j \<noteq> i \<Longrightarrow> bufs t ! j = bufs s ! j"
proof -
  let ?x = "(bufs s ! i)\<lparr>b_data := v\<rparr>"
  have t': "t = s\<lparr>bufs := (bufs s)[i := ?x]\<rparr>" by (simp add: t upd_buf_def)
  have len: "i < length (bufs s)" using c caches_bound [OF i(1)] by (simp add: cache_def)
  have x: "buf_ok dev True (i \<in> P) (p_pid (myproc s)) (disk s) ?x"
    using cache_buf [OF c caches_bound [OF i(1)]] i(2) v by (simp add: buf_ok_def)
  have P: "P = (if i \<in> P then insert i P else P - {i})" by auto
  have new: "j = i" if "caches dev s j (b_blockno ?x)" for j
    using cache_unique [OF c that, of i] i(1) by (simp add: caches_def)
  have H: "H = insert i H" using i(2) by auto
  note rep = cache_replace [OF c caches_bound [OF i(1)] x new _ P t', where H' = H, simplified, OF H]
  show "cache dev H P t" by (rule rep(1))
  show "content dev t = (content dev s)(b := v)"
    using rep(2) i(1) by (auto simp: fun_eq_iff caches_def)
  show "caches dev t = caches dev s" using len by (auto simp: t' caches_def fun_eq_iff nth_list_update)
  show "b_data (bufs t ! i) = v" "disk t = disk s" "dwrites t = dwrites s" using len by (simp_all add: t')
  show "bio_only s t" unfolding t' by (rule bio_only_bufs)
  show "bufs t ! j = bufs s ! j" if "j \<noteq> i" for j using that by (simp add: t')
qed

lemma bwrite_ok:
  assumes c: "cache dev H P s" and i: "caches dev s i b" "i \<in> H"
    and t: "t = s\<lparr>disk := (disk s)(b := b_data (bufs s ! i)), dwrites := dwrites s @ [(b, b_data (bufs s ! i))]\<rparr>"
  shows "bwrite i s = Inr ((), t)" "cache dev H P t" "content dev t = content dev s" "bio_only s t"
    "caches dev t = caches dev s"
proof -
  note ok = cache_buf [OF c caches_bound [OF i(1)]]
  have pid: "myproc t = myproc s" "me t = me s" by (simp_all add: t myproc_def me_def)
  show "bwrite i s = Inr ((), t)"
    using ok i by (simp add: bwrite_def holdingsleep_def virtio_disk_rw_def bnd_def andthen_def gets_def panic_if_def
        skip_def ret_def modify_def buf_ok_def caches_def t)
  show caches: "caches dev t = caches dev s" by (simp add: fun_eq_iff caches_def t)
  have "buf_ok dev (j \<in> H) (j \<in> P) (p_pid (myproc t)) (disk t) (bufs t ! j)" if j: "j < NBUF" for j
  proof -
    have "b_blockno (bufs s ! j) \<noteq> b" if "b_dev (bufs s ! j) = dev" "j \<notin> H"
      using cache_unique [OF c i(1), of j] that j i(2) by (auto simp: caches_def)
    then show ?thesis using cache_buf [OF c j] unfolding pid by (auto simp: buf_ok_def t)
  qed
  moreover have "length (disk t b') = BSIZE" for b'
    using c ok i by (auto simp: t cache_def buf_ok_def caches_def)
  ultimately show cache: "cache dev H P t"
    using c unfolding cache_def caches pid by (simp add: t)
  show "content dev t = content dev s"
  proof
    fix b'
    show "content dev t b' = content dev s b'"
    proof (cases "\<exists>j. caches dev s j b'")
      case True
      then obtain j where "caches dev s j b'" by blast
      then show ?thesis using content_cached [OF c] content_cached [OF cache] caches by (simp add: t)
    next
      case False
      then show ?thesis using content_disk [OF c] content_disk [OF cache] caches i(1) by (auto simp: t)
    qed
  qed
  show "bio_only s t"
    by (rule bio_onlyI [where ps = "procs s" and bs = "bufs s" and l = "lru s"]) (simp_all add: t pid myproc_def me_def)
qed

text \<open>The order of the list and the process table do not matter for the contents.\<close>

lemma cache_reorder:
  assumes c: "cache dev H P s" and t: "t = s\<lparr>procs := ps, lru := l\<rparr>"
    and "distinct l" "set l = {..<NBUF}" "p_pid (myproc t) = p_pid (myproc s)" "length ps = length (procs s)"
  shows "cache dev H P t" "content dev t = content dev s" "caches dev t = caches dev s"
proof -
  show caches: "caches dev t = caches dev s" by (simp add: fun_eq_iff caches_def t)
  show cache: "cache dev H P t"
    using c assms(3-6) unfolding cache_def caches by (simp add: t me_def)
  show "content dev t = content dev s"
  proof
    fix b
    show "content dev t b = content dev s b"
    proof (cases "\<exists>j. caches dev s j b")
      case True
      then obtain j where "caches dev s j b" by blast
      then show ?thesis using content_cached [OF c] content_cached [OF cache] caches by (simp add: t)
    next
      case False
      then show ?thesis using content_disk [OF c] content_disk [OF cache] caches by (simp add: t)
    qed
  qed
qed

lemma wakeup_pid:
  assumes "me s < length (procs s)"
  shows "p_pid (procs (wakeup ch s) ! me s) = p_pid (myproc s)" "length (procs (wakeup ch s)) = length (procs s)"
  using assms by (auto simp: wakeup_def wake_proc_def myproc_def nth_enumerate_eq)

lemma brelse_ok:
  assumes c: "cache dev H P s" and i: "caches dev s i b" "i \<in> H" and clean: "i \<notin> P \<Longrightarrow> b_data (bufs s ! i) = disk s b"
  obtains t where "brelse i s = Inr ((), t)" "cache dev (H - {i}) P t" "content dev t = content dev s"
    "caches dev t = caches dev s" "bio_only s t" "disk t = disk s" "dwrites t = dwrites s"
    "\<And>j. j \<noteq> i \<Longrightarrow> bufs t ! j = bufs s ! j"
proof -
  let ?o = "bufs s ! i"
  define x where "x = ?o\<lparr>b_lock := \<lparr>sl_locked = False, sl_pid = 0\<rparr>, b_refcnt := b_refcnt ?o - 1\<rparr>"
  define u where "u = s\<lparr>bufs := (bufs s)[i := x]\<rparr>"
  define ps where "ps = procs (wakeup (ChBuf i) s)"
  define l where "l = (if b_refcnt x = 0 then i # remove1 i (lru s) else lru s)"
  define t where "t = u\<lparr>procs := ps, lru := l\<rparr>"
  note ok = cache_buf [OF c caches_bound [OF i(1)]]
  have len: "i < length (bufs s)" "i < NBUF" using c caches_bound [OF i(1)] by (simp_all add: cache_def)
  have run: "brelse i s = Inr ((), t)"
    using ok i len
    by (simp add: brelse_def releasesleep_def holdingsleep_def bnd_def andthen_def gets_def panic_if_def skip_def ret_def
        modify_def buf_ok_def upd_buf_def wakeup_def t_def u_def x_def ps_def l_def)
  have x: "buf_ok dev False (i \<in> P) (p_pid (myproc s)) (disk s) x"
    using ok i clean by (auto simp: buf_ok_def x_def caches_def)
  have P: "P = (if i \<in> P then insert i P else P - {i})" by auto
  have new: "j = i" if "caches dev s j (b_blockno x)" for j
    using cache_unique [OF c that, of i] i(1) by (simp add: caches_def x_def)
  note rep = cache_replace [OF c len(2) x new _ P u_def, where H' = "H - {i}", simplified]
  have cu: "content dev u = content dev s"
    using rep(2) i(1) content_cached [OF c i(1)] by (auto simp: fun_eq_iff caches_def x_def)
  have caches_u: "caches dev u = caches dev s"
    using len i(1) by (auto simp: u_def x_def caches_def fun_eq_iff nth_list_update)
  have l: "distinct l" "set l = {..<NBUF}" using c len by (auto simp: l_def cache_def set_remove1_eq)
  have me: "me s < length (procs s)" using c by (simp add: cache_def)
  then have pid: "p_pid (myproc t) = p_pid (myproc u)" "length ps = length (procs u)"
    using wakeup_pid [OF me, of "ChBuf i"] by (simp_all add: t_def u_def ps_def myproc_def me_def)
  note reo = cache_reorder [OF rep(1) t_def l pid]
  have "bio_only s t"
    using pid(1)
    by (intro bio_onlyI [where ps = ps and l = l and bs = "(bufs s)[i := x]" and d = "disk s" and w = "dwrites s"])
      (simp_all add: t_def u_def myproc_def me_def)
  then show thesis
    using that [OF run reo(1)] reo(2,3) cu caches_u by (simp add: t_def u_def)
qed

lemma bunpin_ok:
  assumes c: "cache dev H P s" and i: "caches dev s i b" "i \<in> H" "i \<in> P" and t: "t = bunpin i s"
  shows "cache dev H (P - {i}) t" "content dev t = content dev s" "caches dev t = caches dev s" "bio_only s t"
    "disk t = disk s" "dwrites t = dwrites s" "b_data (bufs t ! j) = b_data (bufs s ! j)"
proof -
  let ?x = "(bufs s ! i)\<lparr>b_refcnt := b_refcnt (bufs s ! i) - 1\<rparr>"
  have t': "t = s\<lparr>bufs := (bufs s)[i := ?x]\<rparr>" by (simp add: t bunpin_def upd_buf_def)
  have len: "i < length (bufs s)" "i < NBUF" using c caches_bound [OF i(1)] by (simp_all add: cache_def)
  have x: "buf_ok dev True False (p_pid (myproc s)) (disk s) ?x"
    using cache_buf [OF c len(2)] i by (auto simp: buf_ok_def)
  have new: "j = i" if "caches dev s j (b_blockno ?x)" for j
    using cache_unique [OF c that, of i] i(1) by (simp add: caches_def)
  have H: "H = insert i H" using i(2) by auto
  note rep = cache_replace [OF c len(2) x new _ _ t', where H' = H and P' = "P - {i}", simplified, OF H]
  show "cache dev H (P - {i}) t" by (rule rep(1))
  show "content dev t = content dev s"
    using rep(2) i(1) content_cached [OF c i(1)] by (auto simp: fun_eq_iff caches_def)
  show "caches dev t = caches dev s" using len by (auto simp: t' caches_def fun_eq_iff nth_list_update)
  show "bio_only s t" unfolding t' by (rule bio_only_bufs)
  show "disk t = disk s" "dwrites t = dwrites s" by (simp_all add: t')
  show "b_data (bufs t ! j) = b_data (bufs s ! j)" using len by (cases "j = i") (simp_all add: t')
qed

end
