(* ===== verification/Logdisk.thy ===== *)
theory Logdisk
  imports Log Cache
begin

text \<open>
  What the routines of the log (\<^verbatim>\<open>kernel/log.c\<close>) do to the disk. Over a buffer cache that satisfies its
  invariant, every copy between the log and a home location, and every write of the header, is one
  block write, and a commit is the sequence of its block writes.
\<close>

section \<open>Copying a block\<close>

text \<open>\<open>P\<close> are exactly the buffers of the blocks \<open>B\<close>: the blocks the log has pinned.\<close>

definition home :: "u32 \<Rightarrow> 'a kbio_scheme \<Rightarrow> nat set \<Rightarrow> u32 set \<Rightarrow> bool" where
  "home dev s P B \<longleftrightarrow> (\<forall>b \<in> B. \<exists>i \<in> P. caches dev s i b) \<and> (\<forall>i \<in> P. \<exists>b \<in> B. caches dev s i b)"

lemma home_cong: "home dev s P B \<Longrightarrow> (\<And>i b. i \<in> P \<Longrightarrow> caches dev t i b = caches dev s i b) \<Longrightarrow> home dev t P B"
  unfolding home_def by metis

lemma bread_ok:
  assumes c: "cache dev H P s" and free: "\<And>i. caches dev s i b \<Longrightarrow> i \<notin> H"
    and room: "(\<exists>i. caches dev s i b) \<or> card (H \<union> P) < NBUF"
  shows "\<exists>i t. bread dev b s = Inr (i, t) \<and> bread_post dev H P b s i t \<and> (i \<in> P \<longrightarrow> caches dev s i b) \<and>
     (i \<notin> P \<longrightarrow> content dev s b = disk s b)"
proof (cases "\<exists>i. caches dev s i b")
  case True
  then obtain i where i: "caches dev s i b" by blast
  then show ?thesis using bread_hit [OF c i free [OF i]] content_clean [OF c i free [OF i]] by blast
next
  case False
  then show ?thesis using bread_miss [OF c False] room content_disk [OF c False] by blast
qed

lemma bread_post_caches:
  assumes "bread_post dev H P b s i t" "j \<noteq> i"
  shows "caches dev t j b' = caches dev s j b'"
  using assms by (simp add: bread_post_def caches_def)

lemma bread_post_home:
  assumes p: "bread_post dev H P b s i t" and i: "i \<in> P \<longrightarrow> caches dev s i b" and h: "home dev s P B"
  shows "home dev t P B"
proof (rule home_cong [OF h])
  fix j b' assume j: "j \<in> P"
  show "caches dev t j b' = caches dev s j b'"
  proof (cases "j = i")
    case True
    then have "caches dev s i b" "caches dev t i b" using i j p by (auto simp: bread_post_def)
    then show ?thesis using True by (auto simp: caches_def)
  qed (rule bread_post_caches [OF p])
qed

text \<open>Reading two blocks.\<close>

lemma two_breads:
  assumes c: "cache dev {} P s" and h: "home dev s P B" and ne: "b1 \<noteq> b2"
    and room: "card P + 1 < NBUF \<or> card P < NBUF \<and> b2 \<in> B"
  obtains i1 i2 t1 t where "bread dev b1 s = Inr (i1, t1)" "bread dev b2 t1 = Inr (i2, t)" "i1 \<noteq> i2"
    "cache dev {i1, i2} P t" "home dev t P B" "caches dev t i1 b1" "caches dev t i2 b2"
    "b_data (bufs t ! i1) = content dev s b1" "b_data (bufs t ! i2) = content dev s b2"
    "content dev t = content dev s" "disk t = disk s" "dwrites t = dwrites s" "bio_only s t"
    "i1 \<notin> P \<longrightarrow> content dev s b1 = disk s b1" "i2 \<notin> P \<longrightarrow> content dev s b2 = disk s b2"
proof -
  have fin: "finite P" using c by (auto simp: cache_def intro: finite_subset)
  obtain i1 t1 where 1: "bread dev b1 s = Inr (i1, t1)" "bread_post dev {} P b1 s i1 t1"
      "i1 \<in> P \<longrightarrow> caches dev s i1 b1" "i1 \<notin> P \<longrightarrow> content dev s b1 = disk s b1"
    using bread_ok [OF c, of b1] room by auto
  have c1: "cache dev {i1} P t1" "caches dev t1 i1 b1" using 1(2) by (auto simp: bread_post_def)
  have h1: "home dev t1 P B" by (rule bread_post_home [OF 1(2,3) h])
  have free: "i \<notin> {i1}" if "caches dev t1 i b2" for i using that c1(2) ne by (auto simp: caches_def)
  have "card ({i1} \<union> P) \<le> Suc (card P)" using fin by (simp add: card_insert_if)
  moreover have "\<exists>i. caches dev t1 i b2" if "b2 \<in> B" using h1 that unfolding home_def by blast
  ultimately have "(\<exists>i. caches dev t1 i b2) \<or> card ({i1} \<union> P) < NBUF" using room by fastforce
  then obtain i2 t where 2: "bread dev b2 t1 = Inr (i2, t)" "bread_post dev {i1} P b2 t1 i2 t"
      "i2 \<in> P \<longrightarrow> caches dev t1 i2 b2" "i2 \<notin> P \<longrightarrow> content dev t1 b2 = disk t1 b2"
    using bread_ok [OF c1(1) free] by blast
  note p1 = 1(2) [unfolded bread_post_def] and p2 = 2(2) [unfolded bread_post_def]
  have ne': "i1 \<noteq> i2" using p2 by auto
  have "cache dev {i1, i2} P t" using p2 by (simp add: insert_commute)
  moreover have "caches dev t i1 b1" using bread_post_caches [OF 2(2) ne'] c1(2) by simp
  moreover have "bufs t ! i1 = bufs t1 ! i1" using p2 ne' by blast
  moreover have "bio_only s t" using p1 p2 bio_only_trans by blast
  ultimately show thesis
    using that [OF 1(1) 2(1) ne'] bread_post_home [OF 2(2,3) h1] p1 p2 1(4) 2(4) by simp
qed

text \<open>
  Copying the held source buffer \<open>l\<close> over the held buffer \<open>d\<close>, writing it to disk and letting both
  go; \<open>unpin\<close> says whether the destination is unpinned, too.
\<close>

lemma copy_finish:
  assumes c: "cache dev {d, l} P t" and ne: "d \<noteq> l" and d: "caches dev t d bd" and l: "caches dev t l bl"
    and clean: "l \<notin> P \<longrightarrow> b_data (bufs t ! l) = disk t bl" and v: "v = b_data (bufs t ! l)"
    and up: "unpin \<longrightarrow> d \<in> P" and P': "P' = (if unpin then P - {d} else P)"
  obtains t2 t3 t4 where "bwrite d (upd_buf d (\<lambda>x. x\<lparr>b_data := v\<rparr>) t) = Inr ((), t2)"
    "brelse l (if unpin then bunpin d t2 else t2) = Inr ((), t3)" "brelse d t3 = Inr ((), t4)"
    "cache dev {} P' t4" "content dev t4 = (content dev t)(bd := v)" "caches dev t4 = caches dev t"
    "disk t4 = (disk t)(bd := v)" "dwrites t4 = dwrites t @ [(bd, v)]" "bio_only t t4"
proof -
  have vlen: "length v = BSIZE" using cache_buf [OF c caches_bound [OF l]] l by (simp add: v buf_ok_def caches_def)
  note s1 = set_data_ok [OF c d _ vlen refl, simplified]
  let ?t1 = "upd_buf d (\<lambda>x. x\<lparr>b_data := v\<rparr>) t"
  have d1: "caches dev ?t1 d bd" using d s1(3) by simp
  define t2 where "t2 = ?t1\<lparr>disk := (disk ?t1)(bd := b_data (bufs ?t1 ! d)), dwrites := dwrites ?t1 @ [(bd, b_data (bufs ?t1 ! d))]\<rparr>"
  note s2 = bwrite_ok [OF s1(1) d1 _ t2_def, simplified]
  define u where "u = (if unpin then bunpin d t2 else t2)"
  have d2: "caches dev t2 d bd" "caches dev t2 l bl" using s2(5) s1(3) d l by simp_all
  have u: "cache dev {d, l} P' u" "content dev u = content dev t2" "caches dev u = caches dev t2" "bio_only t2 u"
      "disk u = disk t2" "dwrites u = dwrites t2" "\<And>j. b_data (bufs u ! j) = b_data (bufs t2 ! j)"
    using bunpin_ok [OF s2(2) d2(1) _ _ refl] s2(2) up P' bio_only_refl by (auto simp: u_def)
  have "b_data (bufs u ! l) = disk u bl" if "l \<notin> P'"
  proof -
    have "l \<notin> P" using that ne P' by (auto split: if_splits)
    moreover have "bl \<noteq> bd" using cache_unique [OF c d] l ne by auto
    ultimately show ?thesis using clean s1(6,8) ne u(5,7) by (simp add: t2_def)
  qed
  moreover have lu: "caches dev u l bl" "caches dev u d bd" using u(3) d2 by simp_all
  ultimately obtain t3 where t3: "brelse l u = Inr ((), t3)" "cache dev ({d, l} - {l}) P' t3" "content dev t3 = content dev u"
      "caches dev t3 = caches dev u" "bio_only u t3" "disk t3 = disk u" "dwrites t3 = dwrites u"
      "\<And>j. j \<noteq> l \<Longrightarrow> bufs t3 ! j = bufs u ! j"
    using brelse_ok [OF u(1), of l bl] by auto
  have c3: "cache dev {d} P' t3" using t3(2) ne by (metis Diff_insert_absorb empty_iff insert_commute insert_iff)
  have "b_data (bufs t3 ! d) = disk t3 bd" using t3(6,8) ne u(5,7) s1(4) by (simp add: t2_def)
  then obtain t4 where t4: "brelse d t3 = Inr ((), t4)" "cache dev {} P' t4" "content dev t4 = content dev t3"
      "caches dev t4 = caches dev t3" "bio_only t3 t4" "disk t4 = disk t3" "dwrites t4 = dwrites t3"
    using brelse_ok [OF c3, of d bd] lu t3(4) by auto
  have "bio_only t t4"
    using s1(5) s2(4) u(4) t3(5) t4(5) bio_only_trans by blast
  then show thesis
    using that [OF s2(1) t3(1) [unfolded u_def] t4(1,2)] t4 t3 u s1 s2 by (simp add: t2_def)
qed

section \<open>The steps of a commit\<close>

text \<open>One block written to disk, with the cache at rest before and after.\<close>

definition wrote :: "nat set \<Rightarrow> u32 \<Rightarrow> u8 list \<Rightarrow> 'a klog_scheme \<Rightarrow> 'a klog_scheme \<Rightarrow> bool" where
  "wrote P' b v s t \<longleftrightarrow> cache (lg_dev s) {} P' t \<and>
     content (lg_dev s) t = (content (lg_dev s) s)(b := v) \<and> disk t = (disk s)(b := v) \<and>
     dwrites t = dwrites s @ [(b, v)] \<and> lh t = lh s \<and> lg_start t = lg_start s \<and> lg_dev t = lg_dev s"

lemma bio_only_log:
  fixes s t :: "'a klog_scheme"
  assumes "bio_only s t"
  shows "lh t = lh s" "lg_start t = lg_start s" "lg_dev t = lg_dev s"
  using assms unfolding bio_only_def by auto

lemma log_block_ok:
  assumes c: "cache (lg_dev s) {} P s" and h: "home (lg_dev s) s P B" and room: "card P < NBUF"
    and hb: "lh s ! k \<in> B" and lb: "lg_start s + of_nat k + 1 \<notin> B"
  shows "\<exists>t. log_block k s = Inr ((), t) \<and> home (lg_dev s) t P B \<and>
     wrote P (lg_start s + of_nat k + 1) (content (lg_dev s) s (lh s ! k)) s t"
proof -
  let ?dev = "lg_dev s" and ?lb = "lg_start s + of_nat k + 1" and ?hb = "lh s ! k"
  have "?lb \<noteq> ?hb" using hb lb by auto
  then obtain i j t1 t where r: "bread ?dev ?lb s = Inr (i, t1)" "bread ?dev ?hb t1 = Inr (j, t)" "i \<noteq> j"
      "cache ?dev {i, j} P t" "home ?dev t P B" "caches ?dev t i ?lb" "caches ?dev t j ?hb"
      "b_data (bufs t ! j) = content ?dev s ?hb" "content ?dev t = content ?dev s" "disk t = disk s" "dwrites t = dwrites s"
      "bio_only s t" "j \<notin> P \<longrightarrow> content ?dev s ?hb = disk s ?hb"
    using two_breads [OF c h, of ?lb ?hb] room hb by metis
  have clean: "j \<notin> P \<longrightarrow> b_data (bufs t ! j) = disk t ?hb" using r by simp
  obtain t2 t3 t4 where f: "bwrite i (upd_buf i (\<lambda>x. x\<lparr>b_data := b_data (bufs t ! j)\<rparr>) t) = Inr ((), t2)"
    "brelse j t2 = Inr ((), t3)" "brelse i t3 = Inr ((), t4)"
    "cache ?dev {} P t4" "content ?dev t4 = (content ?dev t)(?lb := b_data (bufs t ! j))" "caches ?dev t4 = caches ?dev t"
    "disk t4 = (disk t)(?lb := b_data (bufs t ! j))" "dwrites t4 = dwrites t @ [(?lb, b_data (bufs t ! j))]" "bio_only t t4"
    using copy_finish [OF r(4,3,6,7) clean refl, where unpin = False and P' = P] by auto
  have "log_block k s = Inr ((), t4)"
    using r(1,2) f(1-3) by (simp add: log_block_def bnd_def andthen_def gets_def modify_def)
  moreover have "home ?dev t4 P B" using r(5) f(6) by (simp add: home_def)
  moreover have "wrote P ?lb (content ?dev s ?hb) s t4"
    using f r bio_only_log [OF bio_only_trans [OF r(12) f(9)]] by (simp add: wrote_def)
  ultimately show ?thesis by blast
qed

lemma install_block_ok:
  assumes c: "cache (lg_dev s) {} P s" and h: "home (lg_dev s) s P B" and room: "card P < NBUF"
    and hb: "lh s ! k \<in> B" and lb: "lg_start s + of_nat k + 1 \<notin> B"
  shows "\<exists>t P'. install_block False k s = Inr ((), t) \<and> home (lg_dev s) t P' (B - {lh s ! k}) \<and> P' \<subseteq> P \<and>
     wrote P' (lh s ! k) (content (lg_dev s) s (lg_start s + of_nat k + 1)) s t"
proof -
  let ?dev = "lg_dev s" and ?lb = "lg_start s + of_nat k + 1" and ?hb = "lh s ! k"
  have "?lb \<noteq> ?hb" using hb lb by auto
  then obtain i j t1 t where r: "bread ?dev ?lb s = Inr (i, t1)" "bread ?dev ?hb t1 = Inr (j, t)" "i \<noteq> j"
      "cache ?dev {i, j} P t" "home ?dev t P B" "caches ?dev t i ?lb" "caches ?dev t j ?hb"
      "b_data (bufs t ! i) = content ?dev s ?lb" "content ?dev t = content ?dev s" "disk t = disk s" "dwrites t = dwrites s"
      "bio_only s t" "i \<notin> P \<longrightarrow> content ?dev s ?lb = disk s ?lb"
    using two_breads [OF c h, of ?lb ?hb] room hb by metis
  obtain j' where "j' \<in> P" "caches ?dev t j' ?hb" using r(5) hb unfolding home_def by blast
  then have jP: "j \<in> P" using cache_unique [OF r(4) r(7)] by auto
  have clean: "i \<notin> P \<longrightarrow> b_data (bufs t ! i) = disk t ?lb" using r by simp
  have ji: "cache ?dev {j, i} P t" using r(4) by (simp add: insert_commute)
  obtain t2 t3 t4 where f: "bwrite j (upd_buf j (\<lambda>x. x\<lparr>b_data := b_data (bufs t ! i)\<rparr>) t) = Inr ((), t2)"
    "brelse i (bunpin j t2) = Inr ((), t3)" "brelse j t3 = Inr ((), t4)"
    "cache ?dev {} (P - {j}) t4" "content ?dev t4 = (content ?dev t)(?hb := b_data (bufs t ! i))" "caches ?dev t4 = caches ?dev t"
    "disk t4 = (disk t)(?hb := b_data (bufs t ! i))" "dwrites t4 = dwrites t @ [(?hb, b_data (bufs t ! i))]" "bio_only t t4"
    using copy_finish [OF ji r(3) [symmetric] r(7,6) clean refl, where unpin = True and P' = "P - {j}"] jP by auto
  have "install_block False k s = Inr ((), t4)"
    using r(1,2) f(1-3) by (simp add: install_block_def bnd_def andthen_def gets_def modify_def whenM_def skip_def ret_def)
  moreover have "home ?dev t4 (P - {j}) (B - {?hb})"
  proof -
    have "b \<noteq> ?hb" if "i' \<in> P - {j}" "caches ?dev t i' b" for i' b
      using cache_unique [OF r(4) r(7)] that by auto
    moreover have "i' \<noteq> j" if "caches ?dev t i' b" "b \<noteq> ?hb" for i' b using r(7) that by (auto simp: caches_def)
    ultimately show ?thesis using r(5) unfolding home_def f(6) by blast
  qed
  moreover have "wrote (P - {j}) ?hb (content ?dev s ?lb) s t4"
    using f r bio_only_log [OF bio_only_trans [OF r(12) f(9)]] by (simp add: wrote_def)
  ultimately show ?thesis by blast
qed

text \<open>Recovery copies in the same way, but nothing is pinned.\<close>

lemma cache_other [simp]:
  "cache dev H P (s\<lparr>console := x\<rparr>) = cache dev H P s" "content dev (s\<lparr>console := x\<rparr>) = content dev s"
  "cache dev H P (s'\<lparr>lh := y\<rparr>) = cache dev H P s'" "content dev (s'\<lparr>lh := y\<rparr>) = content dev s'"
  by (auto simp: cache_def caches_def myproc_def me_def content_def fun_eq_iff split: option.split)

lemma home_empty [simp]: "home dev s {} {}"
  by (simp add: home_def)

lemma recover_block_ok:
  assumes c: "cache (lg_dev s) {} {} s" and lb: "lg_start s + of_nat k + 1 \<noteq> lh s ! k"
  shows "\<exists>t. install_block True k s = Inr ((), t) \<and>
     wrote {} (lh s ! k) (content (lg_dev s) s (lg_start s + of_nat k + 1)) s t"
proof -
  define u where "u = s\<lparr>console := console s @
    (case printf_str (''recovering tail %d dst %d'' @ nl) [AInt (int k), AInt (sint (lh s ! k))] of None \<Rightarrow> [] | Some t \<Rightarrow> t)\<rparr>"
  let ?dev = "lg_dev u" and ?lb = "lg_start u + of_nat k + 1" and ?hb = "lh u ! k"
  have cu: "cache ?dev {} {} u" using c by (simp add: u_def)
  have "?lb \<noteq> ?hb" "card {} + 1 < NBUF" using lb by (simp_all add: u_def layout_defs)
  then obtain i j t1 t where r: "bread ?dev ?lb u = Inr (i, t1)" "bread ?dev ?hb t1 = Inr (j, t)" "i \<noteq> j"
      "cache ?dev {i, j} {} t" "caches ?dev t i ?lb" "caches ?dev t j ?hb"
      "b_data (bufs t ! i) = content ?dev u ?lb" "content ?dev t = content ?dev u" "disk t = disk u" "dwrites t = dwrites u"
      "bio_only u t" "i \<notin> {} \<longrightarrow> content ?dev u ?lb = disk u ?lb"
    using two_breads [OF cu home_empty, of ?lb ?hb] by metis
  have clean: "i \<notin> {} \<longrightarrow> b_data (bufs t ! i) = disk t ?lb" using r by simp
  have ji: "cache ?dev {j, i} {} t" using r(4) by (simp add: insert_commute)
  obtain t2 t3 t4 where f: "bwrite j (upd_buf j (\<lambda>x. x\<lparr>b_data := b_data (bufs t ! i)\<rparr>) t) = Inr ((), t2)"
    "brelse i t2 = Inr ((), t3)" "brelse j t3 = Inr ((), t4)"
    "cache ?dev {} {} t4" "content ?dev t4 = (content ?dev t)(?hb := b_data (bufs t ! i))" "caches ?dev t4 = caches ?dev t"
    "disk t4 = (disk t)(?hb := b_data (bufs t ! i))" "dwrites t4 = dwrites t @ [(?hb, b_data (bufs t ! i))]" "bio_only t t4"
    using copy_finish [OF ji r(3) [symmetric] r(6,5) clean refl, where unpin = False and P' = "{}"] by auto
  have "install_block True k s = Inr ((), t4)"
    using r(1,2) f(1-3)
    by (simp add: install_block_def kprintf_def bnd_def andthen_def gets_def modify_def whenM_def skip_def ret_def u_def)
  moreover have "wrote {} ?hb (content ?dev u ?lb) u t4"
    using f r bio_only_log [OF bio_only_trans [OF r(11) f(9)]] by (simp add: wrote_def)
  ultimately show ?thesis by (auto simp: wrote_def u_def)
qed

lemma length_put_header:
  assumes "length d = BSIZE" "length bl \<le> LOGBLOCKS"
  shows "length (put_header d bl) = BSIZE"
proof -
  have "length (foldl (\<lambda>d i. put32 d (4 + 4 * i) (bl ! i)) d' [0..<k]) = BSIZE"
    if "length d' = BSIZE" "k \<le> length bl" for d' k
    using that(2) by (induction k) (use that(1) assms(2) in \<open>auto simp: layout_defs\<close>)
  moreover have "length (put32 d 0 (of_nat (length bl))) = BSIZE" using assms by (simp add: layout_defs)
  ultimately show ?thesis by (simp add: put_header_def)
qed

text \<open>What is written as a header is read as a header.\<close>

lemma get_put_header:
  assumes d: "length d = BSIZE" and bl: "length bl \<le> LOGBLOCKS"
  shows "get_header (put_header d bl) = bl"
proof -
  define D where "D k = foldl (\<lambda>d i. put32 d (4 + 4 * i) (bl ! i)) (put32 d 0 (of_nat (length bl))) [0..<k]" for k
  have D_Suc: "D (Suc k) = put32 (D k) (4 + 4 * k) (bl ! k)" for k by (simp add: D_def)
  have len: "length (D k) = BSIZE" if "k \<le> length bl" for k
    using that by (induction k) (use d bl in \<open>auto simp: D_Suc layout_defs, simp add: D_def layout_defs\<close>)
  have n: "get32 (D k) 0 = of_nat (length bl)" if "k \<le> length bl" for k
    using that
  proof (induction k)
    case 0
    then show ?case using d by (simp add: D_def layout_defs)
  next
    case (Suc k)
    then show ?case using len [of k] bl by (simp add: D_Suc get32_put32_other layout_defs)
  qed
  have e: "get32 (D k) (4 + 4 * i) = bl ! i" if "i < k" "k \<le> length bl" for i k
    using that
  proof (induction k)
    case (Suc k)
    then show ?case using len [of k] bl
      by (cases "i = k") (auto simp: D_Suc get32_put32_other layout_defs)
  qed simp
  have "sint (of_nat (length bl) :: u32) = int (length bl)"
    using bl by (simp add: signed_of_nat signed_take_bit_int_eq_self layout_defs)
  then show ?thesis
    using n [of "length bl"] e [of _ "length bl"]
    by (auto simp: get_header_def put_header_def D_def [symmetric] intro!: nth_equalityI)
qed

text \<open>The header block.\<close>

lemma write_head_ok:
  assumes c: "cache (lg_dev s) {} P s" and h: "home (lg_dev s) s P B" and room: "card P < NBUF"
    and n: "length (lh s) \<le> LOGBLOCKS"
  shows "\<exists>t. write_head s = Inr ((), t) \<and> home (lg_dev s) t P B \<and>
     wrote P (lg_start s) (put_header (content (lg_dev s) s (lg_start s)) (lh s)) s t"
proof -
  let ?dev = "lg_dev s" and ?b = "lg_start s"
  define v where "v = put_header (content ?dev s ?b) (lh s)"
  obtain i t1 where r: "bread ?dev ?b s = Inr (i, t1)" "bread_post ?dev {} P ?b s i t1" "i \<in> P \<longrightarrow> caches ?dev s i ?b"
    using bread_ok [OF c, of ?b] room by auto
  note p = r(2) [unfolded bread_post_def]
  have v: "length v = BSIZE" using content_length [OF c] n by (simp add: v_def length_put_header)
  note l = bio_only_log [of s t1]
  define t2 where "t2 = upd_buf i (\<lambda>x. x\<lparr>b_data := v\<rparr>) t1"
  have c1: "cache ?dev {i} P t1" "caches ?dev t1 i ?b" using p by auto
  note s2 = set_data_ok [OF c1 _ v t2_def, simplified]
  have d2: "caches ?dev t2 i ?b" using s2(3) c1(2) by simp
  define t3 where "t3 = t2\<lparr>disk := (disk t2)(?b := b_data (bufs t2 ! i)), dwrites := dwrites t2 @ [(?b, b_data (bufs t2 ! i))]\<rparr>"
  note s3 = bwrite_ok [OF s2(1) d2 _ t3_def, simplified]
  have "b_data (bufs t3 ! i) = disk t3 ?b" using s2(4) by (simp add: t3_def)
  then obtain t4 where s4: "brelse i t3 = Inr ((), t4)" "cache ?dev {} P t4" "content ?dev t4 = content ?dev t3"
      "caches ?dev t4 = caches ?dev t3" "bio_only t3 t4" "disk t4 = disk t3" "dwrites t4 = dwrites t3"
    using brelse_ok [OF s3(2), of i ?b] s3(5) d2 by auto
  have "bio_only s t4" using p s2(5) s3(4) s4(5) bio_only_trans by blast
  then have "wrote P ?b v s t4"
    using s4 s3 s2 p bio_only_log [of s t4] by (simp add: wrote_def t3_def)
  moreover have "upd_buf i (\<lambda>x. x\<lparr>b_data := put_header (b_data x) (lh t1)\<rparr>) t1 = t2"
    using p l by (simp add: t2_def v_def upd_buf_def)
  then have "write_head s = Inr ((), t4)"
    using r(1) s3(1) s4(1) by (simp add: write_head_def bnd_def andthen_def gets_def modify_def)
  moreover have "home ?dev t4 P B"
    using bread_post_home [OF r(2,3) h] s4(4) s3(5) s2(3) by (simp add: home_def)
  ultimately show ?thesis unfolding v_def by blast
qed

lemma read_head_ok:
  assumes c: "cache (lg_dev s) {} {} s"
  shows "\<exists>t. read_head s = Inr ((), t) \<and> cache (lg_dev s) {} {} t \<and> content (lg_dev s) t = content (lg_dev s) s \<and>
     disk t = disk s \<and> dwrites t = dwrites s \<and> lh t = get_header (content (lg_dev s) s (lg_start s)) \<and>
     lg_start t = lg_start s \<and> lg_dev t = lg_dev s"
proof -
  let ?dev = "lg_dev s" and ?b = "lg_start s"
  obtain i t1 where r: "bread ?dev ?b s = Inr (i, t1)" "bread_post ?dev {} {} ?b s i t1"
      "i \<notin> {} \<longrightarrow> content ?dev s ?b = disk s ?b"
    using bread_ok [OF c, of ?b] by (auto simp: layout_defs)
  note p = r(2) [unfolded bread_post_def]
  define t2 where "t2 = t1\<lparr>lh := get_header (b_data (bufs t1 ! i))\<rparr>"
  have "cache ?dev {i} {} t2" "caches ?dev t2 i ?b" "b_data (bufs t2 ! i) = disk t2 ?b"
    using p r(3) by (auto simp: t2_def caches_def)
  then obtain t3 where s3: "brelse i t2 = Inr ((), t3)" "cache ?dev {} {} t3" "content ?dev t3 = content ?dev t2"
      "bio_only t2 t3" "disk t3 = disk t2" "dwrites t3 = dwrites t2"
    using brelse_ok [of ?dev "{i}" "{}" t2 i ?b] by auto
  have "read_head s = Inr ((), t3)"
    using r(1) s3(1) by (simp add: read_head_def bnd_def andthen_def gets_def modify_def t2_def)
  then show ?thesis
    using s3 p bio_only_log [of s t1] bio_only_log [of t2 t3] by (simp add: t2_def)
qed

section \<open>Sequences of writes\<close>

definition apply_writes :: "(u32 \<times> u8 list) list \<Rightarrow> (u32 \<Rightarrow> u8 list) \<Rightarrow> u32 \<Rightarrow> u8 list" where
  "apply_writes W d = foldl (\<lambda>d (b, v). d(b := v)) d W"

lemma apply_writes_simps [simp]:
  "apply_writes [] d = d" "apply_writes ((b, v) # W) d = apply_writes W (d(b := v))"
  "apply_writes (V @ W) d = apply_writes W (apply_writes V d)"
  by (simp_all add: apply_writes_def)

lemma apply_writes_other: "b \<notin> fst ` set W \<Longrightarrow> apply_writes W d b = d b"
  by (induction W arbitrary: d) (auto simp: apply_writes_def)

text \<open>Writes to different blocks, the contents given by a function of the block.\<close>

lemma apply_writes_map:
  assumes "x \<in> set xs" and "\<forall>y \<in> set xs. f y = f x \<longrightarrow> g y = g x"
  shows "apply_writes (map (\<lambda>x. (f x, g x)) xs) d (f x) = g x"
  using assms
proof (induction xs arbitrary: d rule: rev_induct)
  case (snoc y xs)
  show ?case
  proof (cases "f y = f x")
    case True
    moreover have "g y = g x" using snoc.prems(2) True by (metis in_set_conv_decomp)
    ultimately show ?thesis by simp
  next
    case False
    have "x \<in> set xs" using snoc.prems(1) False by auto
    then have "apply_writes (map (\<lambda>x. (f x, g x)) xs) d (f x) = g x"
      using snoc.IH snoc.prems(2) unfolding set_append by blast
    then show ?thesis using False by simp
  qed
qed simp

definition wrote_all :: "nat set \<Rightarrow> (u32 \<times> u8 list) list \<Rightarrow> 'a klog_scheme \<Rightarrow> 'a klog_scheme \<Rightarrow> bool" where
  "wrote_all P' W s t \<longleftrightarrow> cache (lg_dev s) {} P' t \<and>
     content (lg_dev s) t = apply_writes W (content (lg_dev s) s) \<and> disk t = apply_writes W (disk s) \<and>
     dwrites t = dwrites s @ W \<and> lh t = lh s \<and> lg_start t = lg_start s \<and> lg_dev t = lg_dev s"

lemma wrote_all_one: "wrote_all P [(b, v)] s t \<longleftrightarrow> wrote P b v s t"
  by (simp add: wrote_all_def wrote_def)

lemma wrote_all_none: "cache (lg_dev s) {} P s \<Longrightarrow> wrote_all P [] s s"
  by (simp add: wrote_all_def)

lemma wrote_all_trans: "wrote_all P V s t \<Longrightarrow> wrote_all P' W t u \<Longrightarrow> wrote_all P' (V @ W) s u"
  by (simp add: wrote_all_def)

lemma write_log_loop:
  assumes "cache (lg_dev s) {} P s" and "home (lg_dev s) s P B" and "card P < NBUF"
    and "\<forall>k \<in> set xs. lh s ! k \<in> B \<and> lg_start s + of_nat k + 1 \<notin> B"
  shows "\<exists>t. forM xs log_block s = Inr ((), t) \<and> home (lg_dev s) t P B \<and>
     wrote_all P (map (\<lambda>k. (lg_start s + of_nat k + 1, content (lg_dev s) s (lh s ! k))) xs) s t"
  using assms
proof (induction xs arbitrary: s)
  case Nil
  then show ?case by (auto simp: skip_def ret_def intro: wrote_all_none)
next
  case (Cons k xs)
  obtain t where t: "log_block k s = Inr ((), t)" "home (lg_dev s) t P B"
      "wrote P (lg_start s + of_nat k + 1) (content (lg_dev s) s (lh s ! k)) s t"
    using log_block_ok [OF Cons.prems(1-3)] Cons.prems(4) by auto
  note w = t(3) [unfolded wrote_def]
  obtain u where u: "forM xs log_block t = Inr ((), u)" "home (lg_dev t) u P B"
      "wrote_all P (map (\<lambda>k. (lg_start t + of_nat k + 1, content (lg_dev t) t (lh t ! k))) xs) t u"
    using Cons.IH [of t] Cons.prems(3,4) t(2) w by auto
  have "content (lg_dev t) t (lh t ! j) = content (lg_dev s) s (lh s ! j)" if "j \<in> set xs" for j
    using Cons.prems(4) that w by auto
  then have eq: "map (\<lambda>k. (lg_start t + of_nat k + 1, content (lg_dev t) t (lh t ! k))) xs =
      map (\<lambda>k. (lg_start s + of_nat k + 1, content (lg_dev s) s (lh s ! k))) xs" using w by simp
  have "wrote_all P ([(lg_start s + of_nat k + 1, content (lg_dev s) s (lh s ! k))] @
      map (\<lambda>k. (lg_start s + of_nat k + 1, content (lg_dev s) s (lh s ! k))) xs) s u"
    using t(3) u(3) [unfolded eq] by (intro wrote_all_trans) (simp_all only: wrote_all_one)
  then show ?case using t(1) u(1,2) w by (simp add: andthen_def bnd_def)
qed

lemma install_loop:
  assumes "cache (lg_dev s) {} P s" and "home (lg_dev s) s P B" and "card P < NBUF"
    and "\<forall>k \<in> set xs. lh s ! k \<in> B" and "distinct (map (\<lambda>k. lh s ! k) xs)"
    and "\<forall>k \<in> set xs. lg_start s + of_nat k + 1 \<notin> B"
  shows "\<exists>t P'. forM xs (install_block False) s = Inr ((), t) \<and>
     home (lg_dev s) t P' (B - (\<lambda>k. lh s ! k) ` set xs) \<and> P' \<subseteq> P \<and>
     wrote_all P' (map (\<lambda>k. (lh s ! k, content (lg_dev s) s (lg_start s + of_nat k + 1))) xs) s t"
  using assms
proof (induction xs arbitrary: s P B)
  case Nil
  then show ?case by (auto simp: skip_def ret_def intro: wrote_all_none)
next
  case (Cons k xs)
  obtain t P1 where t: "install_block False k s = Inr ((), t)" "home (lg_dev s) t P1 (B - {lh s ! k})" "P1 \<subseteq> P"
      "wrote P1 (lh s ! k) (content (lg_dev s) s (lg_start s + of_nat k + 1)) s t"
    using install_block_ok [OF Cons.prems(1-3)] Cons.prems(4,6) by (metis list.set_intros(1))
  note w = t(4) [unfolded wrote_def]
  have fin: "finite P" using Cons.prems(1) by (auto simp: cache_def intro: finite_subset)
  then have room: "card P1 < NBUF" using card_mono [OF fin t(3)] Cons.prems(3) by simp
  have "lh s ! k \<notin> (\<lambda>j. lh s ! j) ` set xs" using Cons.prems(5) by simp
  then have ne: "\<forall>j \<in> set xs. lh s ! j \<noteq> lh s ! k" by (metis imageI)
  obtain u P2 where u: "forM xs (install_block False) t = Inr ((), u)"
      "home (lg_dev t) u P2 (B - {lh s ! k} - (\<lambda>k. lh t ! k) ` set xs)" "P2 \<subseteq> P1"
      "wrote_all P2 (map (\<lambda>k. (lh t ! k, content (lg_dev t) t (lg_start t + of_nat k + 1))) xs) t u"
  proof -
    have "\<exists>u P2. forM xs (install_block False) t = Inr ((), u) \<and>
        home (lg_dev t) u P2 (B - {lh s ! k} - (\<lambda>k. lh t ! k) ` set xs) \<and> P2 \<subseteq> P1 \<and>
        wrote_all P2 (map (\<lambda>k. (lh t ! k, content (lg_dev t) t (lg_start t + of_nat k + 1))) xs) t u"
      by (rule Cons.IH) (use Cons.prems(4-6) t(2) w room ne in auto)
    then show ?thesis using that by blast
  qed
  have "content (lg_dev t) t (lg_start t + of_nat j + 1) = content (lg_dev s) s (lg_start s + of_nat j + 1)"
    if "j \<in> set xs" for j
    using Cons.prems(4,6) that w by auto
  then have eq: "map (\<lambda>k. (lh t ! k, content (lg_dev t) t (lg_start t + of_nat k + 1))) xs =
      map (\<lambda>k. (lh s ! k, content (lg_dev s) s (lg_start s + of_nat k + 1))) xs" using w by simp
  have "wrote_all P2 ([(lh s ! k, content (lg_dev s) s (lg_start s + of_nat k + 1))] @
      map (\<lambda>k. (lh s ! k, content (lg_dev s) s (lg_start s + of_nat k + 1))) xs) s u"
    using t(4) u(4) [unfolded eq] by (intro wrote_all_trans) (simp_all only: wrote_all_one)
  moreover have "B - {lh s ! k} - (\<lambda>k. lh t ! k) ` set xs = B - (\<lambda>k. lh s ! k) ` set (k # xs)" using w by auto
  ultimately show ?case using t(1,3) u(1-3) w by (auto simp: andthen_def bnd_def)
qed

lemma recover_loop:
  assumes "cache (lg_dev s) {} {} s"
    and "\<forall>k \<in> set xs. \<forall>j \<in> set xs. lg_start s + of_nat k + 1 \<noteq> lh s ! j"
  shows "\<exists>t. forM xs (install_block True) s = Inr ((), t) \<and>
     wrote_all {} (map (\<lambda>k. (lh s ! k, content (lg_dev s) s (lg_start s + of_nat k + 1))) xs) s t"
  using assms
proof (induction xs arbitrary: s)
  case Nil
  then show ?case by (auto simp: skip_def ret_def intro: wrote_all_none)
next
  case (Cons k xs)
  obtain t where t: "install_block True k s = Inr ((), t)"
      "wrote {} (lh s ! k) (content (lg_dev s) s (lg_start s + of_nat k + 1)) s t"
    using recover_block_ok [OF Cons.prems(1)] Cons.prems(2) by (metis list.set_intros(1))
  note w = t(2) [unfolded wrote_def]
  obtain u where u: "forM xs (install_block True) t = Inr ((), u)"
      "wrote_all {} (map (\<lambda>k. (lh t ! k, content (lg_dev t) t (lg_start t + of_nat k + 1))) xs) t u"
    using Cons.IH [of t] Cons.prems(2) w by auto
  have "content (lg_dev t) t (lg_start t + of_nat j + 1) = content (lg_dev s) s (lg_start s + of_nat j + 1)"
    if "j \<in> set xs" for j
    using Cons.prems(2) that w by auto
  then have eq: "map (\<lambda>k. (lh t ! k, content (lg_dev t) t (lg_start t + of_nat k + 1))) xs =
      map (\<lambda>k. (lh s ! k, content (lg_dev s) s (lg_start s + of_nat k + 1))) xs" using w by simp
  have "wrote_all {} ([(lh s ! k, content (lg_dev s) s (lg_start s + of_nat k + 1))] @
      map (\<lambda>k. (lh s ! k, content (lg_dev s) s (lg_start s + of_nat k + 1))) xs) s u"
    using t(2) u(2) [unfolded eq] by (intro wrote_all_trans) (simp_all only: wrote_all_one)
  then show ?case using t(1) u(1) by (simp add: andthen_def bnd_def)
qed

section \<open>A commit\<close>

text \<open>
  A transaction that is ready to commit: its blocks are pinned in the cache, no other process
  holds a buffer, one buffer is left for the log, and the blocks are not those of the log.
\<close>

definition log_ready :: "'a klog_scheme \<Rightarrow> nat set \<Rightarrow> bool" where
  "log_ready s P \<longleftrightarrow> cache (lg_dev s) {} P s \<and> home (lg_dev s) s P (set (lh s)) \<and> distinct (lh s) \<and>
     length (lh s) < NBUF \<and> (\<forall>k \<le> length (lh s). lg_start s + of_nat k \<notin> set (lh s))"

definition commit_writes :: "u32 \<Rightarrow> u32 list \<Rightarrow> (u32 \<Rightarrow> u8 list) \<Rightarrow> (u32 \<times> u8 list) list" where
  "commit_writes start bl c =
     map (\<lambda>k. (start + of_nat k + 1, c (bl ! k))) [0..<length bl] @
     [(start, put_header (c start) bl)] @
     map (\<lambda>k. (bl ! k, c (bl ! k))) [0..<length bl] @
     [(start, put_header (put_header (c start) bl) [])]"

lemma home_card:
  assumes c: "cache dev {} P s" and h: "home dev s P B" and "finite B"
  shows "card P \<le> card B"
proof (rule card_inj_on_le)
  show "inj_on (\<lambda>i. b_blockno (bufs s ! i)) P"
  proof (rule inj_onI)
    fix i j assume ij: "i \<in> P" "j \<in> P" "b_blockno (bufs s ! i) = b_blockno (bufs s ! j)"
    then have "caches dev s i (b_blockno (bufs s ! i))" "caches dev s j (b_blockno (bufs s ! i))"
      using h by (auto simp: home_def caches_def)
    then show "i = j" by (rule cache_unique [OF c])
  qed
  show "(\<lambda>i. b_blockno (bufs s ! i)) ` P \<subseteq> B" using h by (auto simp: home_def caches_def)
qed fact

lemma log_block_number:
  assumes "j < n" "k < n" "n \<le> 30" and "(start :: u32) + of_nat j + 1 = start + of_nat k + 1"
  shows "j = k"
proof -
  have "(of_nat j :: u32) = of_nat k" using assms(4) by simp
  then have "unat (of_nat j :: u32) = unat (of_nat k :: u32)" by simp
  then show ?thesis using assms(1-3) by (simp add: unat_of_nat)
qed

lemma log_start_other: "k < 30 \<Longrightarrow> (start :: u32) + of_nat k + 1 \<noteq> start"
proof
  assume k: "k < 30" and "start + of_nat k + 1 = start"
  then have "(of_nat (Suc k) :: u32) = 0" by (simp add: add.assoc add.commute)
  then have "unat (of_nat (Suc k) :: u32) = 0" by simp
  then show False using k by (simp add: unat_of_nat del: of_nat_Suc)
qed

lemma commit_ok:
  assumes r: "log_ready s P" and ne: "lh s \<noteq> []"
  shows "\<exists>t. commit s = Inr ((), t) \<and> cache (lg_dev s) {} {} t \<and> lh t = [] \<and> lg_start t = lg_start s \<and> lg_dev t = lg_dev s \<and>
     disk t = apply_writes (commit_writes (lg_start s) (lh s) (content (lg_dev s) s)) (disk s) \<and>
     dwrites t = dwrites s @ commit_writes (lg_start s) (lh s) (content (lg_dev s) s)"
proof -
  let ?st = "lg_start s" and ?bl = "lh s" and ?c = "content (lg_dev s) s" and ?B = "set (lh s)"
  note R = r [unfolded log_ready_def]
  have n: "length ?bl < 30" "length ?bl \<le> LOGBLOCKS" using R by (simp_all add: layout_defs)
  have room: "card P < NBUF" using home_card [of "lg_dev s" P s ?B] R by (simp add: distinct_card)
  have off: "?st + of_nat k + 1 \<notin> ?B" if "k < length ?bl" for k
  proof -
    have "?st + of_nat (Suc k) \<notin> ?B" using R that by (metis Suc_leI)
    then show ?thesis by (simp add: ac_simps)
  qed
  let ?W1 = "map (\<lambda>k. (?st + of_nat k + 1, ?c (?bl ! k))) [0..<length ?bl]"
  obtain t1 where t1: "forM [0..<length ?bl] log_block s = Inr ((), t1)" "home (lg_dev s) t1 P ?B" "wrote_all P ?W1 s t1"
    using write_log_loop [of s P ?B "[0..<length ?bl]"] R room off by auto
  note w1 = t1(3) [unfolded wrote_all_def]
  obtain t2 where t2: "write_head t1 = Inr ((), t2)" "home (lg_dev t1) t2 P ?B"
      "wrote P (lg_start t1) (put_header (content (lg_dev t1) t1 (lg_start t1)) (lh t1)) t1 t2"
    using write_head_ok [of t1 P ?B] w1 t1(2) room n by auto
  have "?st \<notin> fst ` set ?W1" using log_start_other n(1) by fastforce
  then have st1: "content (lg_dev s) t1 ?st = ?c ?st" using w1 by (simp add: apply_writes_other)
  let ?h1 = "put_header (?c ?st) ?bl"
  have w2: "wrote_all P (?W1 @ [(?st, ?h1)]) s t2"
    using wrote_all_trans [OF t1(3)] t2(3) w1 st1 by (simp add: wrote_all_one)
  note w2' = w2 [unfolded wrote_all_def]
  obtain t3 P3 where t3: "forM [0..<length ?bl] (install_block False) t2 = Inr ((), t3)"
      "home (lg_dev t2) t3 P3 (?B - (\<lambda>k. lh t2 ! k) ` set [0..<length ?bl])"
      "wrote_all P3 (map (\<lambda>k. (lh t2 ! k, content (lg_dev t2) t2 (lg_start t2 + of_nat k + 1))) [0..<length ?bl]) t2 t3"
    using install_loop [of t2 P ?B "[0..<length ?bl]"] w2' t2(2) w1 room R off by (auto simp: map_nth)
  let ?W2 = "map (\<lambda>k. (?bl ! k, ?c (?bl ! k))) [0..<length ?bl]"
  have "content (lg_dev s) t2 (?st + of_nat k + 1) = ?c (?bl ! k)" if k: "k < length ?bl" for k
  proof -
    have inj: "\<forall>j \<in> set [0..<length ?bl]. ?st + of_nat j + 1 = ?st + of_nat k + 1 \<longrightarrow> ?c (?bl ! j) = ?c (?bl ! k)"
    proof (intro ballI impI)
      fix j assume "j \<in> set [0..<length ?bl]" "?st + of_nat j + 1 = ?st + of_nat k + 1"
      then have "j = k" using log_block_number [of j "length ?bl" k ?st] k n(1) by simp
      then show "?c (?bl ! j) = ?c (?bl ! k)" by simp
    qed
    have "apply_writes ?W1 ?c (?st + of_nat k + 1) = ?c (?bl ! k)"
      by (rule apply_writes_map [OF _ inj]) (use k in simp)
    then show ?thesis using w2' log_start_other [of k ?st] k n(1) by simp
  qed
  then have "map (\<lambda>k. (lh t2 ! k, content (lg_dev t2) t2 (lg_start t2 + of_nat k + 1))) [0..<length ?bl] = ?W2"
    using w2' by simp
  then have t3': "wrote_all P3 ?W2 t2 t3" using t3(3) by metis
  note w3 = wrote_all_trans [OF w2 t3']
  note w3' = w3 [unfolded wrote_all_def]
  have "P3 = {}"
  proof -
    have "lh t2 = ?bl" using w2' by blast
    then have "(\<lambda>k. lh t2 ! k) ` set [0..<length ?bl] = ?B" by (metis list.set_map map_nth)
    then show ?thesis using t3(2) by (auto simp: home_def)
  qed
  then have c4: "cache (lg_dev s) {} {} (t3\<lparr>lh := []\<rparr>)" using w3' by simp
  obtain t5 where t5: "write_head (t3\<lparr>lh := []\<rparr>) = Inr ((), t5)"
      "wrote {} ?st (put_header (content (lg_dev s) t3 ?st) []) (t3\<lparr>lh := []\<rparr>) t5"
    using write_head_ok [of "t3\<lparr>lh := []\<rparr>" "{}" "{}"] c4 w3' by (auto simp: layout_defs)
  have "?st \<notin> fst ` set ?W2" using R by (fastforce dest: spec [of _ 0])
  then have "content (lg_dev s) t3 ?st = ?h1" using w3' by (simp add: apply_writes_other)
  then have fin: "cache (lg_dev s) {} {} t5" "lh t5 = []" "lg_start t5 = ?st" "lg_dev t5 = lg_dev s"
      "disk t5 = apply_writes (commit_writes ?st ?bl ?c) (disk s)" "dwrites t5 = dwrites s @ commit_writes ?st ?bl ?c"
    using t5(2) w3' by (simp_all add: wrote_def commit_writes_def)
  have "commit s = Inr ((), t5)"
    using ne t1(1) t2(1) t3(1) t5(1) w2'
    by (simp add: commit_def write_log_def install_trans_def bnd_def andthen_def gets_def whenM_def modify_def)
  then show ?thesis using fin by blast
qed

end
