(* ===== verification/Crash.thy ===== *)
theory Crash
  imports Logdisk Sample
begin

text \<open>
  Crash safety of the log (\<^verbatim>\<open>kernel/log.c\<close>). A crash during a commit, or during a recovery, leaves
  on the disk any prefix of its block writes; recovery then restores either the state before the
  transaction or the state after it.
\<close>

section \<open>Recovery\<close>

definition rebooted :: "'a klog_scheme \<Rightarrow> 'a klog_scheme \<Rightarrow> bool" where
  "rebooted s r \<longleftrightarrow> cache (lg_dev s) {} {} r \<and> lg_dev r = lg_dev s \<and> lg_start r = lg_start s"

definition recover_writes :: "u32 \<Rightarrow> (u32 \<Rightarrow> u8 list) \<Rightarrow> (u32 \<times> u8 list) list" where
  "recover_writes start d =
     map (\<lambda>k. (get_header (d start) ! k, d (start + of_nat k + 1))) [0..<length (get_header (d start))] @
     [(start, put_header (d start) [])]"

lemma content_at_rest: "cache dev {} {} s \<Longrightarrow> content dev s = disk s"
proof
  fix b assume c: "cache dev {} {} s"
  show "content dev s b = disk s b"
  proof (cases "\<exists>i. caches dev s i b")
    case True
    then show ?thesis using content_clean [OF c] by blast
  next
    case False
    then show ?thesis using content_disk [OF c] by blast
  qed
qed

lemma recover_ok:
  assumes c: "cache (lg_dev r) {} {} r" and bl: "bl = get_header (disk r (lg_start r))"
    and off: "\<forall>k < length bl. \<forall>j < length bl. lg_start r + of_nat k + 1 \<noteq> bl ! j" and st: "lg_start r \<notin> set bl"
  shows "\<exists>t. recover_from_log r = Inr ((), t) \<and> cache (lg_dev r) {} {} t \<and>
     disk t = apply_writes (recover_writes (lg_start r) (disk r)) (disk r) \<and>
     dwrites t = dwrites r @ recover_writes (lg_start r) (disk r)"
proof -
  let ?st = "lg_start r" and ?d = "disk r"
  obtain t1 where t1: "read_head r = Inr ((), t1)" "cache (lg_dev r) {} {} t1" "content (lg_dev r) t1 = ?d"
      "disk t1 = ?d" "dwrites t1 = dwrites r" "lh t1 = bl" "lg_start t1 = ?st" "lg_dev t1 = lg_dev r"
    using read_head_ok [OF c] content_at_rest [OF c] bl by auto
  obtain t2 where t2: "forM [0..<length bl] (install_block True) t1 = Inr ((), t2)"
      "wrote_all {} (map (\<lambda>k. (lh t1 ! k, content (lg_dev t1) t1 (lg_start t1 + of_nat k + 1))) [0..<length bl]) t1 t2"
    using recover_loop [of t1 "[0..<length bl]"] t1 off by auto
  let ?W = "map (\<lambda>k. (bl ! k, ?d (?st + of_nat k + 1))) [0..<length bl]"
  have w: "cache (lg_dev r) {} {} t2" "content (lg_dev r) t2 = apply_writes ?W ?d" "disk t2 = apply_writes ?W ?d"
      "dwrites t2 = dwrites r @ ?W" "lg_start t2 = ?st" "lg_dev t2 = lg_dev r"
    using t2(2) t1 by (simp_all add: wrote_all_def)
  obtain t3 where t3: "write_head (t2\<lparr>lh := []\<rparr>) = Inr ((), t3)"
      "wrote {} ?st (put_header (content (lg_dev r) t2 ?st) []) (t2\<lparr>lh := []\<rparr>) t3"
    using write_head_ok [of "t2\<lparr>lh := []\<rparr>" "{}" "{}"] w by (auto simp: layout_defs)
  have "?st \<notin> fst ` set ?W" using st by force
  then have "content (lg_dev r) t2 ?st = ?d ?st" using w(2) by (simp add: apply_writes_other)
  then have "cache (lg_dev r) {} {} t3" "disk t3 = apply_writes (recover_writes ?st ?d) ?d"
      "dwrites t3 = dwrites r @ recover_writes ?st ?d"
    using t3(2) w by (simp_all add: wrote_def recover_writes_def bl)
  moreover have "recover_from_log r = Inr ((), t3)"
    using t1(1,6) t2(1) t3(1)
    by (simp add: recover_from_log_def install_trans_def bnd_def andthen_def gets_def modify_def)
  ultimately show ?thesis by blast
qed

section \<open>Crashes\<close>

text \<open>The blocks of a log with \<open>n\<close> entries, its header included.\<close>

definition log_area :: "u32 \<Rightarrow> nat \<Rightarrow> u32 set" where
  "log_area start n = (\<lambda>k. start + of_nat k) ` {..n}"

text \<open>The blocks outside the log are as before the transaction, or as after it.\<close>

definition old_state :: "u32 \<Rightarrow> u32 list \<Rightarrow> (u32 \<Rightarrow> u8 list) \<Rightarrow> (u32 \<Rightarrow> u8 list) \<Rightarrow> bool" where
  "old_state start bl d0 d \<longleftrightarrow> (\<forall>b. b \<notin> log_area start (length bl) \<longrightarrow> d b = d0 b)"

definition new_state ::
  "u32 \<Rightarrow> u32 list \<Rightarrow> (u32 \<Rightarrow> u8 list) \<Rightarrow> (u32 \<Rightarrow> u8 list) \<Rightarrow> (u32 \<Rightarrow> u8 list) \<Rightarrow> bool" where
  "new_state start bl c d0 d \<longleftrightarrow>
     (\<forall>b. b \<notin> log_area start (length bl) \<longrightarrow> d b = (if b \<in> set bl then c b else d0 b))"

text \<open>The transaction is in the log, and its home blocks may be in any state.\<close>

definition committed ::
  "u32 \<Rightarrow> u32 list \<Rightarrow> (u32 \<Rightarrow> u8 list) \<Rightarrow> (u32 \<Rightarrow> u8 list) \<Rightarrow> (u32 \<Rightarrow> u8 list) \<Rightarrow> bool" where
  "committed start bl c d0 d \<longleftrightarrow> get_header (d start) = bl \<and>
     (\<forall>k < length bl. d (start + of_nat k + 1) = c (bl ! k)) \<and>
     (\<forall>b. b \<notin> log_area start (length bl) \<and> b \<notin> set bl \<longrightarrow> d b = d0 b)"

definition recoverable ::
  "u32 \<Rightarrow> u32 list \<Rightarrow> (u32 \<Rightarrow> u8 list) \<Rightarrow> (u32 \<Rightarrow> u8 list) \<Rightarrow> (u32 \<Rightarrow> u8 list) \<Rightarrow> bool" where
  "recoverable start bl c d0 d \<longleftrightarrow> length (d start) = BSIZE \<and>
     (committed start bl c d0 d \<or>
      get_header (d start) = [] \<and> (old_state start bl d0 d \<or> new_state start bl c d0 d))"

lemma log_area_block: "k < n \<Longrightarrow> start + of_nat k + 1 \<in> log_area start n"
  unfolding log_area_def by (rule image_eqI [of _ _ "Suc k"]) simp_all

lemma log_area_start: "start \<in> log_area start n"
  unfolding log_area_def by (rule image_eqI [of _ _ 0]) simp_all

text \<open>Installing home blocks in a committed state, completely or not.\<close>

lemma install_writes:
  "apply_writes (map (\<lambda>k. (bl ! k, c (bl ! k))) [0..<length bl]) d b = (if b \<in> set bl then c b else d b)"
proof (cases "b \<in> set bl")
  case True
  then obtain k where k: "k < length bl" "b = bl ! k" by (auto simp: in_set_conv_nth)
  then show ?thesis using True unfolding k(2)
    by (simp add: apply_writes_map [of k "[0..<length bl]" "(!) bl" "\<lambda>k. c (bl ! k)"])
next
  case False
  then have "b \<notin> fst ` set (map (\<lambda>k. (bl ! k, c (bl ! k))) [0..<length bl])" by auto
  then show ?thesis using False by (simp add: apply_writes_other)
qed

lemma committed_install:
  assumes d: "committed start bl c d0 d" and off: "log_area start (length bl) \<inter> set bl = {}"
    and W: "W = map (\<lambda>k. (bl ! k, c (bl ! k))) [0..<length bl]"
  shows "committed start bl c d0 (apply_writes (take k W) d)"
    and "apply_writes (take k W) d start = d start"
    and "new_state start bl c d0 ((apply_writes W d)(start := h))"
proof -
  have sub: "fst ` set (take k W) \<subseteq> set bl" for k
    unfolding W by (auto dest!: in_set_takeD)
  have same: "apply_writes (take k W) d b = d b" if "b \<notin> set bl" for b k
    using sub that by (intro apply_writes_other) auto
  show st: "apply_writes (take k W) d start = d start" using same off log_area_start by blast
  have log: "apply_writes (take k W) d (start + of_nat j + 1) = d (start + of_nat j + 1)" if "j < length bl" for j
    using same off log_area_block [OF that, of start] by blast
  show "committed start bl c d0 (apply_writes (take k W) d)"
    using d unfolding committed_def st by (simp add: log same)
  show "new_state start bl c d0 ((apply_writes W d)(start := h))"
    using d log_area_start unfolding new_state_def committed_def W by (auto simp: install_writes)
qed

text \<open>
  The block writes of a recovery are those of the installation and the clearing of the header,
  or only the clearing.
\<close>

lemma recover_step:
  assumes d: "recoverable start bl c d0 d" and off: "log_area start (length bl) \<inter> set bl = {}"
  shows "recoverable start bl c d0 (apply_writes (take k (recover_writes start d)) d)"
proof (cases "committed start bl c d0 d")
  case True
  let ?W = "map (\<lambda>k. (bl ! k, c (bl ! k))) [0..<length bl]"
  let ?h = "put_header (d start) []"
  have len: "length (d start) = BSIZE" using d by (simp add: recoverable_def)
  have W: "recover_writes start d = ?W @ [(start, ?h)]"
    using True by (simp add: recover_writes_def committed_def)
  show ?thesis
  proof (cases "k \<le> length bl")
    case k: True
    then show ?thesis using committed_install [OF True off refl] len W by (simp add: recoverable_def)
  next
    case False
    then have "apply_writes (take k (recover_writes start d)) d = (apply_writes ?W d)(start := ?h)"
      by (simp add: W)
    moreover have "get_header ?h = []" "length ?h = BSIZE"
      using len by (simp_all add: get_put_header length_put_header)
    ultimately show ?thesis using committed_install(3) [OF True off refl] by (simp add: recoverable_def)
  qed
next
  case False
  then have h: "get_header (d start) = []" "length (d start) = BSIZE"
      and o: "old_state start bl d0 d \<or> new_state start bl c d0 d"
    using d by (auto simp: recoverable_def)
  have "k = 0 \<or> apply_writes (take k (recover_writes start d)) d = d(start := put_header (d start) [])"
    using h by (cases k) (simp_all add: recover_writes_def)
  then show ?thesis
  proof
    assume "k = 0"
    then show ?thesis using d by simp
  next
    assume e: "apply_writes (take k (recover_writes start d)) d = d(start := put_header (d start) [])"
    have "old_state start bl d0 (d(start := v)) \<or> new_state start bl c d0 (d(start := v))" for v
      using o log_area_start [of start "length bl"] unfolding old_state_def new_state_def by (metis fun_upd_other)
    then show ?thesis using h unfolding e
      by (simp add: recoverable_def get_put_header length_put_header)
  qed
qed

lemma recover_all:
  assumes d: "recoverable start bl c d0 d" and off: "log_area start (length bl) \<inter> set bl = {}"
  shows "get_header (apply_writes (recover_writes start d) d start) = []"
    and "old_state start bl d0 (apply_writes (recover_writes start d) d) \<or>
         new_state start bl c d0 (apply_writes (recover_writes start d) d)"
proof -
  let ?d = "apply_writes (recover_writes start d) d"
  have len: "length (d start) = BSIZE" using d by (simp add: recoverable_def)
  show h: "get_header (?d start) = []"
    using len by (simp add: recover_writes_def get_put_header)
  have r: "recoverable start bl c d0 ?d"
    using recover_step [OF d off, of "length (recover_writes start d)"] by simp
  show "old_state start bl d0 ?d \<or> new_state start bl c d0 ?d"
  proof (cases "bl = []")
    case True
    then show ?thesis using r h unfolding recoverable_def committed_def old_state_def by auto
  next
    case False
    then show ?thesis using r h unfolding recoverable_def committed_def by simp
  qed
qed

text \<open>The block writes of a commit: the log blocks, then what recovery does, with the header before it.\<close>

lemma commit_step:
  assumes h0: "get_header (d0 start) = []" "length (d0 start) = BSIZE" and cl: "length (c start) = BSIZE"
    and n: "length bl \<le> LOGBLOCKS" and off: "log_area start (length bl) \<inter> set bl = {}"
  shows "recoverable start bl c d0 (apply_writes (take k (commit_writes start bl c)) d0)"
proof -
  let ?L = "map (\<lambda>k. (start + of_nat k + 1, c (bl ! k))) [0..<length bl]"
  let ?W = "map (\<lambda>k. (bl ! k, c (bl ! k))) [0..<length bl]"
  let ?h = "put_header (c start) bl"
  let ?d = "(apply_writes ?L d0)(start := ?h)"
  have n30: "length bl \<le> 30" using n by (simp add: layout_defs)
  have st: "start + of_nat k + 1 \<noteq> start" if "k < length bl" for k
    using log_start_other [of k start] that n30 by linarith
  have area: "fst ` set (take j ?L) \<subseteq> log_area start (length bl)" "start \<notin> fst ` set (take j ?L)" for j
    using log_area_block st by (force dest!: in_set_takeD)+
  have logd: "apply_writes ?L d0 (start + of_nat k + 1) = c (bl ! k)" if "k < length bl" for k
  proof (intro apply_writes_map ballI impI)
    show "k \<in> set [0..<length bl]" using that by simp
    fix j assume "j \<in> set [0..<length bl]" and "start + of_nat j + 1 = start + of_nat k + 1"
    then show "c (bl ! j) = c (bl ! k)" using log_block_number [OF _ that n30] by auto
  qed
  have other: "apply_writes (take j ?L) d0 b = d0 b" if "b \<notin> log_area start (length bl)" for b j
    using area(1) [of j] that by (intro apply_writes_other) blast
  have comm: "committed start bl c d0 ?d"
    using other [of _ "length bl"] logd st log_area_start [of start "length bl"] cl n
    by (auto simp: committed_def get_put_header)
  consider "k \<le> length bl" | "k > length bl" by linarith
  then show ?thesis
  proof cases
    case 1
    have "apply_writes (take k ?L) d0 start = d0 start" by (intro apply_writes_other area)
    then show ?thesis using 1 h0 other
      by (simp add: commit_writes_def recoverable_def old_state_def)
  next
    case 2
    then obtain j where j: "k = Suc (length bl + j)" by (metis less_iff_Suc_add)
    have "recover_writes start ?d = ?W @ [(start, put_header ?h [])]"
      using comm by (simp add: recover_writes_def committed_def)
    then have "apply_writes (take k (commit_writes start bl c)) d0 = apply_writes (take j (recover_writes start ?d)) ?d"
      unfolding j commit_writes_def by (simp add: take_Cons')
    moreover have "recoverable start bl c d0 ?d"
      using comm cl n by (simp add: recoverable_def length_put_header)
    ultimately show ?thesis using recover_step [OF _ off] by simp
  qed
qed

lemma commit_installs:
  assumes "log_ready s P"
  shows "new_state (lg_start s) (lh s) c (disk s) (apply_writes (commit_writes (lg_start s) (lh s) c) (disk s))"
proof -
  let ?st = "lg_start s" and ?bl = "lh s" and ?d = "disk s"
  let ?L = "map (\<lambda>k. (?st + of_nat k + 1, c (?bl ! k))) [0..<length ?bl] @ [(?st, put_header (c ?st) ?bl)]"
  let ?W = "map (\<lambda>k. (?bl ! k, c (?bl ! k))) [0..<length ?bl]"
  have W: "apply_writes (commit_writes ?st ?bl c) ?d =
     (apply_writes ?W (apply_writes ?L ?d))(?st := put_header (put_header (c ?st) ?bl) [])"
    by (simp add: commit_writes_def)
  have L: "apply_writes ?L ?d b = ?d b" if "b \<notin> log_area ?st (length ?bl)" for b
    using that log_area_block log_area_start by (intro apply_writes_other) force
  show ?thesis unfolding W new_state_def
  proof (intro allI impI)
    fix b assume b: "b \<notin> log_area ?st (length ?bl)"
    then have "b \<noteq> ?st" using log_area_start by blast
    then show "((apply_writes ?W (apply_writes ?L ?d))(?st := put_header (put_header (c ?st) ?bl) [])) b =
        (if b \<in> set ?bl then c b else ?d b)"
      using L [OF b] by (simp add: install_writes)
  qed
qed

text \<open>
  The disks that crashes of a commit from \<open>s\<close> leave behind: a crash after some of the block writes of
  the commit, and crashes after some of the block writes of the recoveries that follow.
\<close>

inductive crashed :: "'a klog_scheme \<Rightarrow> (u32 \<Rightarrow> u8 list) \<Rightarrow> bool" for s where
  in_commit: "commit s = Inr ((), t) \<Longrightarrow> dwrites t = dwrites s @ W \<Longrightarrow>
     crashed s (apply_writes (take k W) (disk s))"
| in_recovery: "crashed s (disk r) \<Longrightarrow> rebooted s r \<Longrightarrow> recover_from_log r = Inr ((), t) \<Longrightarrow>
     dwrites t = dwrites r @ W \<Longrightarrow> crashed s (apply_writes (take k W) (disk r))"

lemma log_ready_area:
  assumes "log_ready s P"
  shows "log_area (lg_start s) (length (lh s)) \<inter> set (lh s) = {}"
  using assms unfolding log_ready_def log_area_def by auto

lemma recover_runs:
  assumes d: "recoverable (lg_start s) bl c d0 (disk r)" and off: "log_area (lg_start s) (length bl) \<inter> set bl = {}"
    and r: "rebooted s r"
  shows "\<exists>t. recover_from_log r = Inr ((), t) \<and>
     disk t = apply_writes (recover_writes (lg_start s) (disk r)) (disk r) \<and>
     dwrites t = dwrites r @ recover_writes (lg_start s) (disk r)"
proof -
  let ?st = "lg_start s" and ?h = "get_header (disk r (lg_start s))"
  have h: "?h = bl \<or> ?h = []" using d by (auto simp: recoverable_def committed_def)
  have "?st + of_nat k + 1 \<noteq> ?h ! j" if "k < length ?h" "j < length ?h" for k j
  proof -
    have "?h = bl" using h that(1) by auto
    then show ?thesis using off log_area_block [of k "length bl" ?st] that nth_mem [of j bl] by force
  qed
  moreover have "?st \<notin> set ?h" using h off log_area_start by auto
  ultimately show ?thesis using r recover_ok [of r ?h] by (auto simp: rebooted_def)
qed

lemma crashed_recoverable:
  assumes c: "crashed s d" and r: "log_ready s P" and ne: "lh s \<noteq> []" and h0: "get_header (disk s (lg_start s)) = []"
  shows "recoverable (lg_start s) (lh s) (content (lg_dev s) s) (disk s) d"
  using c
proof induction
  case (in_commit t W k)
  have ca: "cache (lg_dev s) {} P s" and n: "length (lh s) \<le> LOGBLOCKS"
    using r by (simp_all add: log_ready_def layout_defs)
  have "W = commit_writes (lg_start s) (lh s) (content (lg_dev s) s)"
    using in_commit commit_ok [OF r ne] by auto
  moreover have "length (disk s (lg_start s)) = BSIZE" using ca by (simp add: cache_def)
  ultimately show ?case
    using commit_step [of "disk s" "lg_start s" "content (lg_dev s) s" "lh s", OF h0 _ content_length [OF ca] n
        log_ready_area [OF r]] by blast
next
  case (in_recovery r' t W k)
  have "W = recover_writes (lg_start s) (disk r')"
    using in_recovery recover_runs [OF in_recovery.IH log_ready_area [OF r]] by auto
  then show ?case using recover_step [OF in_recovery.IH log_ready_area [OF r]] by simp
qed

section \<open>A full log\<close>

text \<open>
  \<^verbatim>\<open>LOGBLOCKS\<close> and \<^verbatim>\<open>NBUF\<close> are the same number: a transaction that fills the log pins every buffer.
\<close>

lemma bread_full:
  assumes c: "cache dev {} P s" and none: "\<nexists>i. caches dev s i b" and full: "P = {..<NBUF}"
  shows "bread dev b s = Inl (Panic ''bget: no buffers'')"
proof -
  have "\<forall>i < NBUF. b_refcnt (bufs s ! i) \<noteq> 0"
    using cache_buf [OF c] full by (simp add: buf_ok_def)
  then have "find_recyclable (bufs s) (rev (lru s)) = None"
    using c find_recyclable_None [of "bufs s" "rev (lru s)"] by (auto simp: cache_def)
  moreover have "find_cached (bufs s) dev b (lru s) = None" using find_cached_None_iff [OF c] none by blast
  ultimately show ?thesis by (simp add: bread_def bget_def bnd_def gets_def panic_def)
qed

lemma home_full:
  assumes c: "cache dev {} P s" and h: "home dev s P (set bl)" and bl: "distinct bl" "length bl = NBUF"
  shows "P = {..<NBUF}"
proof (rule card_subset_eq)
  show "finite {..<NBUF}" by simp
  show sub: "P \<subseteq> {..<NBUF}" using c by (simp add: cache_def)
  have "set bl \<subseteq> (\<lambda>i. b_blockno (bufs s ! i)) ` P" using h by (force simp: home_def caches_def)
  then have "card (set bl) \<le> card P"
    using surj_card_le [of P] sub finite_subset by blast
  then show "card P = card {..<NBUF}"
    using bl card_mono [OF _ sub] by (simp add: distinct_card)
qed

section \<open>A transaction to run\<close>

text \<open>A file system whose log has pinned the \<open>n\<close> blocks from block 100 on, all of them dirty.\<close>

definition txn_kernel :: "nat \<Rightarrow> kernel" where
  "txn_kernel n = (sample_kernel [sample_proc] sample_tf)
     \<lparr>bufs := map (\<lambda>i. \<lparr>b_valid = (i < n), b_dev = (if i < n then 1 else 0), b_blockno = 100 + of_nat i,
                    b_lock = \<lparr>sl_locked = False, sl_pid = 0\<rparr>, b_refcnt = (if i < n then 1 else 0),
                    b_data = replicate BSIZE (of_nat i + 1)\<rparr>) [0..<NBUF],
      lru := [0..<NBUF], lh := map (\<lambda>i. 100 + of_nat i) [0..<n]\<rparr>"

lemma of_nat_small: "i < 30 \<Longrightarrow> j < 30 \<Longrightarrow> (of_nat i :: u32) = of_nat j \<longleftrightarrow> i = j"
  using log_block_number [of i 30 j 0] by auto

lemma txn_caches:
  assumes "n \<le> 30"
  shows "caches 1 (txn_kernel n) i b \<longleftrightarrow> i < n \<and> b = 100 + of_nat i"
  using assms by (auto simp: caches_def txn_kernel_def layout_defs split: if_splits)

lemma txn_cache:
  assumes n: "n \<le> 30"
  shows "cache 1 {} {..<n} (txn_kernel n)"
proof -
  have b: "buf_ok 1 False (i < n) 1 (disk (txn_kernel n)) (bufs (txn_kernel n) ! i)" if "i < NBUF" for i
    using that by (simp add: txn_kernel_def buf_ok_def)
  have u: "i = j" if "caches 1 (txn_kernel n) i b" "caches 1 (txn_kernel n) j b" for i j b
    using that of_nat_small [of i j] n by (simp add: txn_caches [OF n])
  have m: "me (txn_kernel n) < length (procs (txn_kernel n))" "p_pid (myproc (txn_kernel n)) = 1"
    by (simp_all add: txn_kernel_def sample_kernel_def myproc_def me_def sample_proc_def)
  have l: "length (bufs (txn_kernel n)) = NBUF" "lru (txn_kernel n) = [0..<NBUF]"
    "disk (txn_kernel n) = (\<lambda>_. replicate BSIZE 0)"
    by (simp_all add: txn_kernel_def sample_kernel_def)
  have "{..<n} \<subseteq> {..<NBUF}" using n by (auto simp: layout_defs)
  then show ?thesis
    unfolding cache_def using b u m l by (simp add: atLeast0LessThan) blast
qed

lemma txn_home:
  assumes n: "n \<le> 30"
  shows "home 1 (txn_kernel n) {..<n} (set (lh (txn_kernel n)))" and "distinct (lh (txn_kernel n))"
proof -
  have l: "lh (txn_kernel n) = map (\<lambda>i. 100 + of_nat i) [0..<n]" by (simp add: txn_kernel_def)
  show "home 1 (txn_kernel n) {..<n} (set (lh (txn_kernel n)))"
    unfolding home_def l txn_caches [OF n] by auto
  show "distinct (lh (txn_kernel n))"
    unfolding l distinct_map using n of_nat_small by (auto intro!: inj_onI)
qed

lemma txn_ready: "log_ready (txn_kernel 2) {..<2}"
proof -
  have "lh (txn_kernel 2) = [100, 101]" "lg_start (txn_kernel 2) = 2" "lg_dev (txn_kernel 2) = 1"
    by (simp_all add: txn_kernel_def sample_kernel_def numeral_2_eq_2)
  moreover have "2 + of_nat k \<notin> {100, 101 :: u32}" if "k \<le> 2" for k
  proof -
    have "k = 0 \<or> k = 1 \<or> k = 2" using that by linarith
    then show ?thesis by auto
  qed
  ultimately show ?thesis
    using txn_cache [of 2] txn_home [of 2] unfolding log_ready_def by (simp add: layout_defs)
qed

lemma apply_writes_length:
  "\<forall>w \<in> set W. length (snd w) = n \<Longrightarrow> length (d b) = n \<Longrightarrow> length (apply_writes W d b) = n"
  by (induction W arbitrary: d) (auto simp: apply_writes_def)

lemma commit_writes_length:
  assumes "\<And>b. length (c b) = BSIZE" "length bl \<le> LOGBLOCKS" "w \<in> set (commit_writes start bl c)"
  shows "length (snd w) = BSIZE"
  using assms by (auto simp: commit_writes_def length_put_header)

lemma txn_rebooted:
  assumes "\<And>b. length (d b) = BSIZE"
  shows "rebooted (txn_kernel n) ((txn_kernel 0)\<lparr>disk := d\<rparr>)"
proof -
  let ?r = "(txn_kernel 0)\<lparr>disk := d\<rparr>"
  have "caches 1 ?r i b \<longleftrightarrow> caches 1 (txn_kernel 0) i b" for i b by (simp add: caches_def)
  then have "\<not> caches 1 ?r i b" for i b by (simp add: txn_caches)
  moreover have "buf_ok 1 False False (p_pid (myproc ?r)) d (bufs ?r ! i)" if "i < NBUF" for i
    using that by (simp add: txn_kernel_def buf_ok_def)
  ultimately have "cache 1 {} {} ?r"
    using txn_cache [of 0] assms unfolding cache_def by (simp add: me_def)
  moreover have "lg_dev (txn_kernel n) = 1" "lg_start (txn_kernel n) = 2" "lg_dev ?r = 1" "lg_start ?r = 2"
    by (simp_all add: txn_kernel_def sample_kernel_def)
  ultimately show ?thesis by (simp add: rebooted_def)
qed

section \<open>Properties\<close>

text \<open>
  C17. A commit is atomic under crashes. With the modified blocks of a transaction pinned in the
  buffer cache and an empty log on the disk, \<^verbatim>\<open>commit\<close> returns and puts all of them in place. When it
  is interrupted instead after any number of its block writes, and the recoveries that follow are
  interrupted any number of times as well, the next \<^verbatim>\<open>recover_from_log\<close> that runs to its end returns
  without a panic, leaves the log empty, and leaves the blocks outside the log either all as
  they were before the transaction or all as the transaction made them.
\<close>

theorem commit_crash_safe:
  assumes "log_ready s P" and "lh s \<noteq> []" and "get_header (disk s (lg_start s)) = []"
  shows "(\<exists>t. commit s = Inr ((), t) \<and> new_state (lg_start s) (lh s) (content (lg_dev s) s) (disk s) (disk t)) \<and>
    (\<forall>r. crashed s (disk r) \<and> rebooted s r \<longrightarrow>
      (\<exists>t. recover_from_log r = Inr ((), t) \<and> get_header (disk t (lg_start s)) = [] \<and>
        (old_state (lg_start s) (lh s) (disk s) (disk t) \<or>
         new_state (lg_start s) (lh s) (content (lg_dev s) s) (disk s) (disk t))))"
proof (intro conjI allI impI)
  show "\<exists>t. commit s = Inr ((), t) \<and> new_state (lg_start s) (lh s) (content (lg_dev s) s) (disk s) (disk t)"
    using commit_ok [OF assms(1,2)] commit_installs [OF assms(1)] by auto
  fix r assume r: "crashed s (disk r) \<and> rebooted s r"
  note d = crashed_recoverable [OF conjunct1 [OF r] assms] and off = log_ready_area [OF assms(1)]
  show "\<exists>t. recover_from_log r = Inr ((), t) \<and> get_header (disk t (lg_start s)) = [] \<and>
        (old_state (lg_start s) (lh s) (disk s) (disk t) \<or>
         new_state (lg_start s) (lh s) (content (lg_dev s) s) (disk s) (disk t))"
    using recover_runs [OF d off conjunct2 [OF r]] recover_all [OF d off] by auto
qed

theorem commit_crash_safe_witness:
  "\<forall>k. \<exists>(r :: kernel) t. disk r = apply_writes (take k (commit_writes 2 [100, 101] (content 1 (txn_kernel 2)))) (disk (txn_kernel 2)) \<and>
     recover_from_log r = Inr ((), t) \<and>
     (old_state 2 [100, 101] (disk (txn_kernel 2)) (disk t) \<or>
      new_state 2 [100, 101] (content 1 (txn_kernel 2)) (disk (txn_kernel 2)) (disk t))"
proof
  fix k
  let ?s = "txn_kernel 2" and ?c = "content 1 (txn_kernel 2)"
  let ?W = "commit_writes 2 [100, 101] ?c"
  let ?r = "(txn_kernel 0)\<lparr>disk := apply_writes (take k ?W) (disk ?s)\<rparr>"
  have s: "lh ?s = [100, 101]" "lg_start ?s = 2" "lg_dev ?s = 1" "disk ?s = (\<lambda>_. replicate BSIZE 0)"
    by (simp_all add: txn_kernel_def sample_kernel_def numeral_2_eq_2)
  have "replicate 4 0 = [0, 0, 0, 0 :: u8]" by (simp add: numeral_eq_Suc)
  then have h: "get_header (disk ?s 2) = []" by (simp add: s(4) get_header_def get32_def layout_defs)
  have "length (snd w) = BSIZE" if "w \<in> set ?W" for w
    using commit_writes_length [OF content_length [OF txn_cache [of 2]] _ that] by (simp add: layout_defs)
  then have "length (apply_writes (take k ?W) (disk ?s) b) = BSIZE" for b
    by (intro apply_writes_length) (auto simp: s(4) dest: in_set_takeD)
  then have r: "rebooted ?s ?r" by (rule txn_rebooted)
  have "crashed ?s (apply_writes (take k ?W) (disk ?s))"
    using commit_ok [OF txn_ready] s(1-3) by (auto intro: crashed.in_commit)
  then have "\<exists>t. recover_from_log ?r = Inr ((), t) \<and>
     (old_state 2 [100, 101] (disk ?s) (disk t) \<or> new_state 2 [100, 101] ?c (disk ?s) (disk t))"
    using commit_crash_safe [OF txn_ready, THEN conjunct2, THEN spec, of ?r] s(1-3) h r by auto
  then show "\<exists>(r :: kernel) t. disk r = apply_writes (take k ?W) (disk ?s) \<and> recover_from_log r = Inr ((), t) \<and>
     (old_state 2 [100, 101] (disk ?s) (disk t) \<or> new_state 2 [100, 101] ?c (disk ?s) (disk t))"
    by - (rule exI [of _ ?r], simp)
qed

text \<open>
  C32. A transaction that fills the log cannot be committed. With \<^verbatim>\<open>LOGBLOCKS\<close> blocks in the log,
  which \<^verbatim>\<open>log_write\<close> admits, every one of the \<^verbatim>\<open>NBUF\<close> buffers is pinned, and the first log block that
  \<^verbatim>\<open>commit\<close> reads finds no buffer: the kernel panics.
\<close>

theorem full_log_panics:
  assumes "cache (lg_dev s) {} P s" and "home (lg_dev s) s P (set (lh s))" and "distinct (lh s)"
    and "length (lh s) = LOGBLOCKS" and "lg_start s + 1 \<notin> set (lh s)"
  shows "commit s = Inl (Panic ''bget: no buffers'')"
proof -
  have P: "P = {..<NBUF}" using home_full [OF assms(1-3)] assms(4) by (simp add: layout_defs)
  have "\<nexists>i. caches (lg_dev s) s i (lg_start s + 1)"
    using assms(2,5) P unfolding home_def by (metis caches_bound caches_def lessThan_iff)
  then have b: "bread (lg_dev s) (lg_start s + 1) s = Inl (Panic ''bget: no buffers'')"
    by (rule bread_full [OF assms(1) _ P])
  have "[0..<length (lh s)] = 0 # [1..<length (lh s)]" using assms(4) by (simp add: upt_rec layout_defs)
  then show ?thesis
    using b assms(4) by (simp add: commit_def write_log_def log_block_def bnd_def andthen_def gets_def whenM_def layout_defs)
qed

theorem full_log_panics_witness: "commit (txn_kernel 30) = Inl (Panic ''bget: no buffers'')"
proof (rule full_log_panics)
  have s: "lh (txn_kernel 30) = map (\<lambda>i. 100 + of_nat i) [0..<30]" "lg_start (txn_kernel 30) = 2" "lg_dev (txn_kernel 30) = 1"
    by (simp_all add: txn_kernel_def sample_kernel_def)
  show "cache (lg_dev (txn_kernel 30)) {} {..<30} (txn_kernel 30)" using txn_cache [of 30] s by simp
  show "home (lg_dev (txn_kernel 30)) (txn_kernel 30) {..<30} (set (lh (txn_kernel 30)))"
    "distinct (lh (txn_kernel 30))" using txn_home [of 30] s by simp_all
  show "length (lh (txn_kernel 30)) = LOGBLOCKS" by (simp add: s layout_defs)
  show "lg_start (txn_kernel 30) + 1 \<notin> set (lh (txn_kernel 30))" by (simp add: s upt_rec)
qed

text \<open>
  C22. The buffer cache is well formed and behaves like the disk it caches. In a well-formed cache
  every buffer is counted and locked exactly as the held and pinned buffers say, no block has two
  buffers, and a buffer that nobody has in use agrees with the disk. While this holds:
  \<^item> \<^verbatim>\<open>bread\<close> of a block that is not held returns a buffer with the current content of the block, if
    the block is cached or some buffer is neither held nor pinned; the buffer is held then;
  \<^item> \<^verbatim>\<open>bwrite\<close> of a held buffer writes exactly its block;
  \<^item> \<^verbatim>\<open>brelse\<close> of a held buffer that is pinned or agrees with the disk gives it back.
  All three keep the cache well formed and no block changes its content.
\<close>

theorem cache_well_formed:
  fixes s :: "'a kbio_scheme"
  assumes "cache dev H P s"
  shows "(\<forall>b. (\<forall>i \<in> H. \<not> caches dev s i b) \<and> ((\<exists>i. caches dev s i b) \<or> card (H \<union> P) < NBUF) \<longrightarrow>
      (\<exists>i t. bread dev b s = Inr (i, t) \<and> cache dev (insert i H) P t \<and> caches dev t i b \<and>
        b_data (bufs t ! i) = content dev s b \<and> content dev t = content dev s \<and> disk t = disk s)) \<and>
    (\<forall>i \<in> H. \<forall>b. caches dev s i b \<longrightarrow> (\<exists>t. bwrite i s = Inr ((), t) \<and> cache dev H P t \<and>
        content dev t = content dev s \<and> disk t = (disk s)(b := content dev s b))) \<and>
    (\<forall>i \<in> H. \<forall>b. caches dev s i b \<and> (i \<in> P \<or> content dev s b = disk s b) \<longrightarrow>
      (\<exists>t. brelse i s = Inr ((), t) \<and> cache dev (H - {i}) P t \<and> content dev t = content dev s \<and> disk t = disk s))"
proof (intro conjI allI ballI impI)
  fix b assume "(\<forall>i \<in> H. \<not> caches dev s i b) \<and> ((\<exists>i. caches dev s i b) \<or> card (H \<union> P) < NBUF)"
  then show "\<exists>i t. bread dev b s = Inr (i, t) \<and> cache dev (insert i H) P t \<and> caches dev t i b \<and>
        b_data (bufs t ! i) = content dev s b \<and> content dev t = content dev s \<and> disk t = disk s"
    using bread_ok [OF assms, of b] unfolding bread_post_def by blast
next
  fix i b assume i: "i \<in> H" "caches dev s i b"
  show "\<exists>t. bwrite i s = Inr ((), t) \<and> cache dev H P t \<and> content dev t = content dev s \<and>
        disk t = (disk s)(b := content dev s b)"
    using bwrite_ok [OF assms i(2,1) refl] content_cached [OF assms i(2)] by auto
next
  fix i b assume i: "i \<in> H" and b: "caches dev s i b \<and> (i \<in> P \<or> content dev s b = disk s b)"
  then have "i \<notin> P \<Longrightarrow> b_data (bufs s ! i) = disk s b" using content_cached [OF assms, of i b] by simp
  then show "\<exists>t. brelse i s = Inr ((), t) \<and> cache dev (H - {i}) P t \<and> content dev t = content dev s \<and> disk t = disk s"
    using brelse_ok [OF assms conjunct1 [OF b] i] by blast
qed

theorem cache_well_formed_witness:
  "\<exists>i t. bread 1 100 (txn_kernel 2) = Inr (i, t) \<and> cache 1 {i} {..<2} t \<and> b_data (bufs t ! i) = content 1 (txn_kernel 2) 100"
  using cache_well_formed [OF txn_cache [of 2], THEN conjunct1, THEN spec, of 100]
  by (auto simp: layout_defs)

end
