(* ===== verification/Filedata.thy ===== *)
theory Filedata
  imports Crash
begin

text \<open>
  The content of a file (\<^verbatim>\<open>kernel/fs.c\<close>): the bytes in the blocks that the direct and indirect block
  numbers of its inode name. Over a well-formed buffer cache \<^verbatim>\<open>readi\<close> returns these bytes, and
  \<^verbatim>\<open>writei\<close> changes exactly the ones it is asked to change.
\<close>

section \<open>The bytes of a file\<close>

definition block_of :: "(u32 \<Rightarrow> u8 list) \<Rightarrow> inode \<Rightarrow> nat \<Rightarrow> u32" where
  "block_of c ip bn =
     (if bn < NDIRECT then i_addrs ip ! bn else get32 (c (i_addrs ip ! NDIRECT)) (4 * (bn - NDIRECT)))"

definition file_byte :: "(u32 \<Rightarrow> u8 list) \<Rightarrow> inode \<Rightarrow> nat \<Rightarrow> u8" where
  "file_byte c ip k = c (block_of c ip (k div BSIZE)) ! (k mod BSIZE)"

text \<open>The block that holds byte \<open>k\<close> of the file exists.\<close>

definition allocated :: "(u32 \<Rightarrow> u8 list) \<Rightarrow> inode \<Rightarrow> nat \<Rightarrow> bool" where
  "allocated c ip k \<longleftrightarrow> k div BSIZE < MAXFILE \<and> block_of c ip (k div BSIZE) \<noteq> 0 \<and>
     (NDIRECT \<le> k div BSIZE \<longrightarrow> i_addrs ip ! NDIRECT \<noteq> 0)"

section \<open>Reading blocks\<close>

definition at_rest :: "u32 \<Rightarrow> nat set \<Rightarrow> 'a kbio_scheme \<Rightarrow> 'a kbio_scheme \<Rightarrow> bool" where
  "at_rest dev P s t \<longleftrightarrow> cache dev {} P t \<and> content dev t = content dev s \<and> disk t = disk s \<and> bio_only s t \<and>
     (\<forall>B. home dev s P B \<longrightarrow> home dev t P B)"

lemma at_rest_refl: "cache dev {} P s \<Longrightarrow> at_rest dev P s s"
  by (simp add: at_rest_def bio_only_refl)

lemma at_rest_trans: "at_rest dev P s t \<Longrightarrow> at_rest dev P t u \<Longrightarrow> at_rest dev P s u"
  unfolding at_rest_def using bio_only_trans by auto

lemma bio_only_fs:
  fixes s t :: "'a kfs_scheme"
  assumes "bio_only s t"
  shows "itable t = itable s" "sb t = sb s" "lg_dev t = lg_dev s" "lh t = lh s" "lg_start t = lg_start s"
    "lg_outstanding t = lg_outstanding s" "k_mem t = k_mem s"
  using assms unfolding bio_only_def by auto

lemma read_block:
  fixes s :: "'a kfs_scheme"
  assumes c: "cache dev {} P s" and room: "card P < NBUF"
  shows "\<exists>i t u. bread dev b s = Inr (i, t) \<and> b_data (bufs t ! i) = content dev s b \<and>
     itable t = itable s \<and> brelse i t = Inr ((), u) \<and> at_rest dev P s u"
proof -
  obtain i t where r: "bread dev b s = Inr (i, t)" "bread_post dev {} P b s i t" "i \<in> P \<longrightarrow> caches dev s i b"
      "i \<notin> P \<longrightarrow> content dev s b = disk s b"
    using bread_ok [OF c, of b] room by auto
  note p = r(2) [unfolded bread_post_def]
  have clean: "i \<notin> P \<Longrightarrow> b_data (bufs t ! i) = disk t b" using p r(4) by simp
  have held: "cache dev {i} P t" "caches dev t i b" using p by simp_all
  obtain u where u: "brelse i t = Inr ((), u)" "cache dev ({i} - {i}) P u" "content dev u = content dev t"
      "caches dev u = caches dev t" "bio_only t u" "disk u = disk t"
    by (rule brelse_ok [OF held insertI1 clean])
  have "home dev u P B" if "home dev s P B" for B
    using bread_post_home [OF r(2,3) that] u(4) by (simp add: home_def)
  then have "at_rest dev P s u" using u p bio_only_trans [of s t u] by (simp add: at_rest_def)
  then show ?thesis using r(1) p u(1) bio_only_fs(1) [of s t] by blast
qed

lemma bmap_ok:
  fixes s :: "'a kfs_scheme"
  assumes c: "cache dev {} P s" and room: "card P < NBUF" and dev: "i_dev (itable s ! i) = dev"
    and a: "allocated (content dev s) (itable s ! i) k"
  shows "\<exists>t. bmap i (k div BSIZE) s = Inr (block_of (content dev s) (itable s ! i) (k div BSIZE), t) \<and> at_rest dev P s t"
proof (cases "k div BSIZE < NDIRECT")
  case True
  then show ?thesis
    using a at_rest_refl [OF c] by (auto simp: bmap_def bmap_direct_def run_defs allocated_def block_of_def)
next
  case False
  let ?ip = "itable s ! i" and ?bn = "k div BSIZE"
  let ?ind = "i_addrs ?ip ! NDIRECT"
  obtain j t u where r: "bread dev ?ind s = Inr (j, t)" "b_data (bufs t ! j) = content dev s ?ind"
      "brelse j t = Inr ((), u)" "at_rest dev P s u"
    using read_block [OF c room, of ?ind] by blast
  have "?bn - NDIRECT < NINDIRECT" "?ind \<noteq> 0" "get32 (content dev s ?ind) (4 * (?bn - NDIRECT)) \<noteq> 0"
    using a False by (auto simp: allocated_def MAXFILE_def block_of_def)
  then have "bmap i ?bn s = Inr (block_of (content dev s) ?ip ?bn, u)"
    using False r(1-3) dev by (simp add: bmap_def bmap_direct_def bmap_entry_def run_defs block_of_def)
  then show ?thesis using r(4) by blast
qed

lemma file_block:
  fixes s :: "'a kfs_scheme"
  assumes "cache dev {} P s" and "card P < NBUF" and "i_dev (itable s ! i) = dev"
    and "allocated (content dev s) (itable s ! i) k" and b: "b = block_of (content dev s) (itable s ! i) (k div BSIZE)"
  shows "\<exists>t1 j t2 t3. bmap i (k div BSIZE) s = Inr (b, t1) \<and> itable t1 = itable s \<and> bread dev b t1 = Inr (j, t2) \<and>
     b_data (bufs t2 ! j) = content dev s b \<and> brelse j t2 = Inr ((), t3) \<and> at_rest dev P s t3 \<and> itable t3 = itable s"
proof -
  obtain t1 where t1: "bmap i (k div BSIZE) s = Inr (b, t1)" "at_rest dev P s t1"
    using bmap_ok [OF assms(1-4)] b by blast
  note r1 = t1(2) [unfolded at_rest_def]
  obtain j t2 t3 where t2: "bread dev b t1 = Inr (j, t2)" "b_data (bufs t2 ! j) = content dev t1 b"
      "brelse j t2 = Inr ((), t3)" "at_rest dev P t1 t3"
    using read_block [of dev P t1 b] r1 assms(2) by blast
  have r3: "at_rest dev P s t3" using at_rest_trans [OF t1(2) t2(4)] .
  moreover have "itable t1 = itable s" "itable t3 = itable s"
    using r1 r3 bio_only_fs(1) [of s t1] bio_only_fs(1) [of s t3] by (simp_all add: at_rest_def)
  ultimately show ?thesis using t1(1) t2 r1 by auto
qed

lemma within_block:
  assumes "off mod BSIZE + k < BSIZE"
  shows "(off + k) div BSIZE = off div BSIZE" and "(off + k) mod BSIZE = off mod BSIZE + k"
proof -
  have e: "off = BSIZE * (off div BSIZE) + off mod BSIZE" by simp
  have "BSIZE * (off div BSIZE) \<le> off + k" "off + k < BSIZE * (off div BSIZE) + BSIZE" using e assms by linarith+
  then show d: "(off + k) div BSIZE = off div BSIZE" by (intro div_nat_eqI) simp_all
  show "(off + k) mod BSIZE = off mod BSIZE + k"
    using mult_div_mod_eq [of BSIZE "off + k", unfolded d] e by linarith
qed

lemma chunk_bytes:
  assumes "m = blk_chunk left off" and "length (c (block_of c ip (off div BSIZE))) = BSIZE"
  shows "take m (drop (off mod BSIZE) (c (block_of c ip (off div BSIZE)))) = map (file_byte c ip) [off..<off + m]"
proof (rule nth_equalityI)
  have m: "m \<le> BSIZE - off mod BSIZE" using assms(1) by (simp add: blk_chunk_def)
  then show "length (take m (drop (off mod BSIZE) (c (block_of c ip (off div BSIZE))))) = length (map (file_byte c ip) [off..<off + m])"
    using assms(2) by simp
  fix k assume "k < length (take m (drop (off mod BSIZE) (c (block_of c ip (off div BSIZE)))))"
  then have k: "k < m" "off mod BSIZE + k < BSIZE" using assms(2) by (simp_all add: less_diff_conv add.commute)
  then show "take m (drop (off mod BSIZE) (c (block_of c ip (off div BSIZE)))) ! k = map (file_byte c ip) [off..<off + m] ! k"
    using k assms(2) within_block [OF k(2)] by (simp add: file_byte_def)
qed

section \<open>Reading a file\<close>

lemma readi_loop_ok:
  fixes s :: "'a kfs_scheme"
  assumes "cache dev {} P s" and "card P < NBUF" and "i_dev (itable s ! i) = dev" and "itable s ! i = ip" and "content dev s = c"
    and "\<And>k. k < n - tot \<Longrightarrow> allocated c ip (off + k)" and "tot \<le> n"
  shows "\<exists>t. readi_loop i ToKernel off n tot acc s =
     Inr ((int n, acc @ map (file_byte c ip) [off..<off + (n - tot)]), t) \<and> at_rest dev P s t"
  using assms
proof (induction "n - tot" arbitrary: off tot acc s rule: less_induct)
  case less
  show ?case
  proof (cases "tot < n")
    case False
    then show ?thesis using less.prems(7) at_rest_refl [OF less.prems(1)] by (auto simp: readi_loop.simps [of i] ret_def)
  next
    case True
    let ?m = "blk_chunk (n - tot) off" and ?b = "block_of c ip (off div BSIZE)"
    have a: "allocated c ip off" using less.prems(6) [of 0] True by simp
    obtain t1 j t2 t3 where t1: "bmap i (off div BSIZE) s = Inr (?b, t1)" "itable t1 = itable s"
        and t2: "bread dev ?b t1 = Inr (j, t2)" "b_data (bufs t2 ! j) = c ?b" "brelse j t2 = Inr ((), t3)"
        and r3: "at_rest dev P s t3" "itable t3 = itable s"
      using file_block [OF less.prems(1-3), of off] a less.prems(4,5) by auto
    note q3 = r3(1) [unfolded at_rest_def]
    have m: "0 < ?m" "?m \<le> n - tot" using True blk_chunk_pos [of "n - tot" off] by (simp_all add: blk_chunk_def)
    have data: "take ?m (drop (off mod BSIZE) (c ?b)) = map (file_byte c ip) [off..<off + ?m]"
      using chunk_bytes [OF refl, of c ip off] content_length [OF less.prems(1)] less.prems(5) by blast
    have step: "readi_loop i ToKernel off n tot acc s =
        readi_loop i ToKernel (off + ?m) n (tot + ?m) (acc @ map (file_byte c ip) [off..<off + ?m]) t3"
      using True a t1 t2 less.prems(3) data
      by (simp add: readi_loop.simps [of i ToKernel off] run_defs either_copyout_def dst_add_def allocated_def Let_def)
    have d: "n - (tot + ?m) < n - tot" "tot + ?m \<le> n" using m by linarith+
    have al: "allocated c ip (off + ?m + k)" if "k < n - (tot + ?m)" for k
      using less.prems(6) [of "?m + k"] that by (simp add: add.assoc)
    obtain t where t: "readi_loop i ToKernel (off + ?m) n (tot + ?m) (acc @ map (file_byte c ip) [off..<off + ?m]) t3 =
        Inr ((int n, (acc @ map (file_byte c ip) [off..<off + ?m]) @ map (file_byte c ip) [off + ?m..<off + ?m + (n - (tot + ?m))]), t)"
        "at_rest dev P t3 t"
      using less.hyps [of "tot + ?m" t3 "off + ?m" "acc @ map (file_byte c ip) [off..<off + ?m]"] d q3 less.prems(2-5) r3(2) al
      by auto
    have "[off..<off + (n - tot)] = [off..<off + ?m] @ [off + ?m..<off + ?m + (n - (tot + ?m))]"
      using m upt_add_eq_append [of off "off + ?m" "n - tot - ?m"] by (simp add: diff_diff_eq)
    then show ?thesis using step t at_rest_trans [OF r3(1) t(2)] by auto
  qed
qed

section \<open>Writing in a transaction\<close>

text \<open>Inside a transaction: the pinned buffers are those of the blocks in the log.\<close>

definition in_txn :: "'a klog_scheme \<Rightarrow> nat set \<Rightarrow> nat set \<Rightarrow> bool" where
  "in_txn s H P \<longleftrightarrow> cache (lg_dev s) H P s \<and> home (lg_dev s) s P (set (lh s)) \<and> distinct (lh s) \<and> 1 \<le> lg_outstanding s"

text \<open>What a write of block \<open>b\<close> does to the log and what it leaves alone.\<close>

definition logs :: "u32 \<Rightarrow> 'a kfs_scheme \<Rightarrow> 'a kfs_scheme \<Rightarrow> bool" where
  "logs b s t \<longleftrightarrow> set (lh t) = insert b (set (lh s)) \<and> length (lh t) \<le> Suc (length (lh s)) \<and> disk t = disk s \<and>
     itable t = itable s \<and> sb t = sb s \<and> lg_dev t = lg_dev s \<and> k_mem t = k_mem s"

lemma pin_ok:
  assumes c: "cache dev {i} P s" and b: "caches dev s i b" and p: "i \<notin> P"
  shows "cache dev {i} (insert i P) (bpin i s)" "content dev (bpin i s) = content dev s" "caches dev (bpin i s) = caches dev s"
    "bio_only s (bpin i s)" "b_data (bufs (bpin i s) ! j) = b_data (bufs s ! j)"
proof -
  let ?x = "(bufs s ! i)\<lparr>b_refcnt := b_refcnt (bufs s ! i) + 1\<rparr>"
  have i: "i < NBUF" "i < length (bufs s)" using c caches_bound [OF b] by (simp_all add: cache_def)
  have x: "buf_ok dev True True (p_pid (myproc s)) (disk s) ?x"
    using cache_buf [OF c i(1)] p by (simp add: buf_ok_def)
  have new: "j = i" if "caches dev s j (b_blockno ?x)" for j
    using cache_unique [OF c that, of i] b by (simp add: caches_def)
  have t: "bpin i s = s\<lparr>bufs := (bufs s)[i := ?x]\<rparr>" by (simp add: bpin_def upd_buf_def)
  note rep = cache_replace [OF c i(1) x new _ _ t, where H' = "{i}" and P' = "insert i P", simplified]
  show "cache dev {i} (insert i P) (bpin i s)" by (rule rep(1))
  show caches: "caches dev (bpin i s) = caches dev s"
    using i by (auto simp: fun_eq_iff caches_def t nth_list_update)
  show "content dev (bpin i s) = content dev s"
    using rep(2) content_cached [OF c b] b by (auto simp: fun_eq_iff caches_def)
  show "bio_only s (bpin i s)" unfolding t by (rule bio_only_bufs)
  show "b_data (bufs (bpin i s) ! j) = b_data (bufs s ! j)" using i by (simp add: t nth_list_update)
qed

lemma log_write_ok:
  fixes s :: "'a kfs_scheme"
  assumes t: "in_txn s {i} P" and b: "caches (lg_dev s) s i b" and n: "length (lh s) < LOGBLOCKS"
  shows "\<exists>t P'. log_write i s = Inr ((), t) \<and> in_txn t {i} P' \<and> i \<in> P' \<and> content (lg_dev s) t = content (lg_dev s) s \<and>
     caches (lg_dev s) t = caches (lg_dev s) s \<and> logs b s t"
proof (cases "b \<in> set (lh s)")
  case True
  note T = t [unfolded in_txn_def]
  have "i \<in> P" using T True b cache_unique [of "lg_dev s" "{i}" P s] by (metis home_def)
  moreover have "log_write i s = Inr ((), s)"
    using True n T b by (simp add: log_write_def run_defs caches_def)
  ultimately show ?thesis using t True by (auto simp: logs_def)
next
  case False
  note T = t [unfolded in_txn_def]
  let ?t = "(bpin i s)\<lparr>lh := lh s @ [b]\<rparr>" and ?dev = "lg_dev s"
  have i: "i \<notin> P" using T False b by (metis home_def caches_def)
  have c: "cache ?dev {i} P s" using T by simp
  note p = pin_ok [OF c b i]
  have f: "lg_dev ?t = ?dev" "lg_outstanding ?t = lg_outstanding s" "disk ?t = disk s" "itable ?t = itable s" "sb ?t = sb s"
      "k_mem ?t = k_mem s"
    by (simp_all add: bpin_def upd_buf_def)
  have caches: "caches ?dev ?t = caches ?dev s" using p(3) by (simp add: fun_eq_iff caches_def)
  have "home ?dev ?t (insert i P) (insert b (set (lh s)))"
    using T b unfolding home_def caches by auto
  then have "in_txn ?t {i} (insert i P)"
    using p(1) T False f by (simp add: in_txn_def)
  moreover have "log_write i s = Inr ((), ?t)"
    using False n T b by (simp add: log_write_def run_defs caches_def)
  moreover have "content ?dev ?t = content ?dev s" using p(2) by (simp add: content_def fun_eq_iff)
  ultimately show ?thesis using caches f by (intro exI [of _ ?t] exI [of _ "insert i P"]) (simp add: logs_def)
qed

lemma txn_room:
  assumes "in_txn s {} P" and "length (lh s) < LOGBLOCKS"
  shows "card P < NBUF"
proof -
  have "card P \<le> card (set (lh s))" using assms(1) home_card [of "lg_dev s" P s "set (lh s)"] by (simp add: in_txn_def)
  also have "\<dots> = length (lh s)" using assms(1) by (simp add: in_txn_def distinct_card)
  finally show ?thesis using assms(2) by (simp add: layout_defs)
qed

lemma write_block:
  fixes s :: "'a kfs_scheme"
  assumes t: "in_txn s {} P" and n: "length (lh s) < LOGBLOCKS" and v: "length (f (content (lg_dev s) s b)) = BSIZE"
  shows "\<exists>j t1 t3 t4 P'. bread (lg_dev s) b s = Inr (j, t1) \<and> itable t1 = itable s \<and>
     log_write j (upd_buf j (\<lambda>x. x\<lparr>b_data := f (b_data x)\<rparr>) t1) = Inr ((), t3) \<and> brelse j t3 = Inr ((), t4) \<and>
     in_txn t4 {} P' \<and> content (lg_dev s) t4 = (content (lg_dev s) s)(b := f (content (lg_dev s) s b)) \<and> logs b s t4"
proof -
  let ?dev = "lg_dev s" and ?v = "f (content (lg_dev s) s b)"
  note T = t [unfolded in_txn_def]
  obtain j t1 where r: "bread ?dev b s = Inr (j, t1)" "bread_post ?dev {} P b s j t1" "j \<in> P \<longrightarrow> caches ?dev s j b"
    using bread_ok [of ?dev "{}" P s b] T txn_room [OF t n] by auto
  note p = r(2) [unfolded bread_post_def]
  note f1 = bio_only_fs [of s t1]
  define t2 where "t2 = upd_buf j (\<lambda>x. x\<lparr>b_data := ?v\<rparr>) t1"
  have e: "upd_buf j (\<lambda>x. x\<lparr>b_data := f (b_data x)\<rparr>) t1 = t2" using p by (simp add: upd_buf_def t2_def)
  have "cache ?dev {j} P t1" "caches ?dev t1 j b" using p by simp_all
  note d = set_data_ok [OF this(1,2) _ v t2_def, simplified]
  note f2 = bio_only_fs [OF d(5)]
  have dev: "lg_dev t2 = ?dev" "lh t2 = lh s" "lg_outstanding t2 = lg_outstanding s" using f1 f2 p by simp_all
  have "home ?dev t1 P (set (lh s))" using bread_post_home [OF r(2,3)] T by simp
  then have "home ?dev t2 P (set (lh s))" using d(3) by (simp add: home_def)
  then have t2: "in_txn t2 {j} P" using d(1) T unfolding in_txn_def dev by simp
  have c2: "caches ?dev t2 j b" using p d(3) by simp
  obtain t3 P' where t3: "log_write j t2 = Inr ((), t3)" "in_txn t3 {j} P'" "j \<in> P'" "content ?dev t3 = content ?dev t2"
      "caches ?dev t3 = caches ?dev t2" "logs b t2 t3"
    using log_write_ok [OF t2, unfolded dev, OF c2 n] by blast
  note l3 = t3(6) [unfolded logs_def]
  have dev3: "lg_dev t3 = ?dev" using l3 dev by simp
  note T3 = t3(2) [unfolded in_txn_def dev3]
  have c3: "cache ?dev {j} P' t3" "caches ?dev t3 j b" using T3 c2 t3(5) by simp_all
  have clean: "j \<notin> P' \<Longrightarrow> b_data (bufs t3 ! j) = disk t3 b" using t3(3) by simp
  obtain t4 where t4: "brelse j t3 = Inr ((), t4)" "cache ?dev ({j} - {j}) P' t4" "content ?dev t4 = content ?dev t3"
      "caches ?dev t4 = caches ?dev t3" "bio_only t3 t4" "disk t4 = disk t3"
    by (rule brelse_ok [OF c3 insertI1 clean])
  note f4 = bio_only_fs [OF t4(5)]
  have "in_txn t4 {} P'" using t4 T3 f4 dev3 by (simp add: in_txn_def home_def)
  moreover have "content ?dev t4 = (content ?dev s)(b := ?v)" using t4(3) t3(4) d(2) p by simp
  moreover have "logs b s t4" using l3 f1 f2 f4 t4(6) d(6) p by (simp add: logs_def)
  moreover have "itable t1 = itable s" using f1 p by simp
  ultimately show ?thesis using r(1) t3(1) [folded e] t4(1) by blast
qed

section \<open>Writing a file\<close>

text \<open>The blocks of the file are different, and none of them is its indirect block.\<close>

definition file_blocks_ok :: "(u32 \<Rightarrow> u8 list) \<Rightarrow> inode \<Rightarrow> bool" where
  "file_blocks_ok c ip \<longleftrightarrow>
     (\<forall>j k. allocated c ip j \<and> allocated c ip k \<and> block_of c ip (j div BSIZE) = block_of c ip (k div BSIZE) \<longrightarrow>
        j div BSIZE = k div BSIZE) \<and>
     (\<forall>k. allocated c ip k \<longrightarrow> block_of c ip (k div BSIZE) \<noteq> i_addrs ip ! NDIRECT)"

text \<open>The contents \<open>d\<close> differ from \<open>c\<close> in the bytes of the file from \<open>off\<close> on, which are \<open>bs\<close>.\<close>

definition file_written :: "(u32 \<Rightarrow> u8 list) \<Rightarrow> inode \<Rightarrow> nat \<Rightarrow> u8 list \<Rightarrow> (u32 \<Rightarrow> u8 list) \<Rightarrow> bool" where
  "file_written c ip off bs d \<longleftrightarrow> block_of d ip = block_of c ip \<and>
     (\<forall>k. allocated c ip k \<longrightarrow> file_byte d ip k =
        (if off \<le> k \<and> k < off + length bs then bs ! (k - off) else file_byte c ip k)) \<and>
     (\<forall>b. (\<forall>k. allocated c ip k \<longrightarrow> block_of c ip (k div BSIZE) \<noteq> b) \<longrightarrow> d b = c b)"

lemma file_written_refl: "file_written c ip off [] c"
  by (auto simp: file_written_def)

lemma block_of_allocated: "block_of d ip = block_of c ip \<Longrightarrow> allocated d ip = allocated c ip"
  by (simp add: fun_eq_iff allocated_def)

lemma file_written_trans:
  assumes 1: "file_written c ip off xs d" and 2: "file_written d ip (off + length xs) ys e"
  shows "file_written c ip off (xs @ ys) e"
proof -
  have b: "block_of d ip = block_of c ip" using 1 by (simp add: file_written_def)
  note a = block_of_allocated [OF b]
  show ?thesis using assms unfolding file_written_def a b
    by (auto simp: nth_append)
qed

lemma nth_put_bytes:
  assumes "off + length bs \<le> length d" and "k < length d"
  shows "put_bytes d off bs ! k = (if off \<le> k \<and> k < off + length bs then bs ! (k - off) else d ! k)"
  using assms by (auto simp: put_bytes_def nth_append min_def)

lemma file_written_chunk:
  assumes ok: "file_blocks_ok c ip" and a: "allocated c ip off" and b: "b = block_of c ip (off div BSIZE)"
    and len: "length (c b) = BSIZE" "off mod BSIZE + length xs \<le> BSIZE"
  shows "file_written c ip off xs (c(b := put_bytes (c b) (off mod BSIZE) xs))"
proof -
  let ?d = "c(b := put_bytes (c b) (off mod BSIZE) xs)"
  have ind: "i_addrs ip ! NDIRECT \<noteq> b" using ok a b unfolding file_blocks_ok_def by metis
  have blocks: "block_of ?d ip = block_of c ip" using ind by (simp add: fun_eq_iff block_of_def)
  have "file_byte ?d ip k = (if off \<le> k \<and> k < off + length xs then xs ! (k - off) else file_byte c ip k)"
    if k: "allocated c ip k" for k
  proof (cases "k div BSIZE = off div BSIZE")
    case True
    have e: "k = BSIZE * (off div BSIZE) + k mod BSIZE" "off = BSIZE * (off div BSIZE) + off mod BSIZE"
      using True mult_div_mod_eq [of BSIZE k] by simp_all
    then have r: "off \<le> k \<and> k < off + length xs \<longleftrightarrow> off mod BSIZE \<le> k mod BSIZE \<and> k mod BSIZE < off mod BSIZE + length xs"
      "k - off = k mod BSIZE - off mod BSIZE" by linarith+
    have "k mod BSIZE < length (c b)" using len(1) by (simp add: layout_defs)
    then show ?thesis
      unfolding file_byte_def blocks True r using len
      by (simp add: nth_put_bytes flip: b)
  next
    case False
    then have "block_of c ip (k div BSIZE) \<noteq> b" using ok a k b unfolding file_blocks_ok_def by metis
    moreover have "\<not> (off \<le> k \<and> k < off + length xs)"
    proof
      assume "off \<le> k \<and> k < off + length xs"
      then have "off mod BSIZE + (k - off) < BSIZE" "off + (k - off) = k" using len(2) by linarith+
      then show False using within_block(1) [of off "k - off"] False by simp
    qed
    ultimately show ?thesis by (auto simp: file_byte_def blocks)
  qed
  then show ?thesis using a b unfolding file_written_def blocks by auto
qed

text \<open>The number of blocks that \<open>n\<close> bytes from \<open>off\<close> on touch.\<close>

definition spans :: "nat \<Rightarrow> nat \<Rightarrow> nat" where
  "spans off n = (if n = 0 then 0 else (off + n - 1) div BSIZE - off div BSIZE + 1)"

lemma spans_chunk:
  assumes "0 < left" and m: "m = blk_chunk left off"
  shows "Suc (spans (off + m) (left - m)) \<le> spans off left"
proof (cases "left - m = 0")
  case True
  then show ?thesis using assms(1) by (simp add: spans_def)
next
  case False
  then have e: "m = BSIZE - off mod BSIZE" using m by (simp add: blk_chunk_def min_def split: if_splits)
  have "off mod BSIZE < BSIZE" by (simp add: layout_defs)
  then have "off + m = BSIZE * Suc (off div BSIZE)" using e mult_div_mod_eq [of BSIZE off] unfolding mult_Suc_right by linarith
  then have d: "(off + m) div BSIZE = Suc (off div BSIZE)" by (simp add: layout_defs)
  moreover have "(off + m) div BSIZE \<le> (off + left - 1) div BSIZE" using False by (intro div_le_mono) simp
  moreover have "off + m + (left - m) - 1 = off + left - 1" using False by simp
  ultimately show ?thesis using False assms(1) by (simp add: spans_def)
qed

lemma file_blocks_ok_cong:
  assumes b: "block_of d ip = block_of c ip"
  shows "file_blocks_ok d ip = file_blocks_ok c ip"
  unfolding file_blocks_ok_def block_of_allocated [OF b] b ..

text \<open>One round of the loop of \<^verbatim>\<open>writei\<close>.\<close>

lemma writei_round:
  fixes s :: "'a kfs_scheme"
  assumes t: "in_txn s {} P" and ip: "itable s ! i = ip" "i_dev ip = lg_dev s" and c: "content (lg_dev s) s = c"
    and ok: "file_blocks_ok c ip" and a: "allocated c ip off" and tot: "tot < n" and bs: "length bs = n - tot"
    and n: "length (lh s) < LOGBLOCKS" and m: "m = blk_chunk (n - tot) off"
  shows "\<exists>t P'. writei_loop i (FromKernel bs) off n tot s = writei_loop i (FromKernel (drop m bs)) (off + m) n (tot + m) t \<and>
     in_txn t {} P' \<and> file_written c ip off (take m bs) (content (lg_dev s) t) \<and> itable t = itable s \<and> sb t = sb s \<and>
     lg_dev t = lg_dev s \<and> disk t = disk s \<and> length (lh t) \<le> Suc (length (lh s))"
proof -
  let ?b = "block_of c ip (off div BSIZE)" and ?dev = "lg_dev s"
  have ca: "cache ?dev {} P s" using t by (simp add: in_txn_def)
  obtain t1 where t1: "bmap i (off div BSIZE) s = Inr (?b, t1)" "at_rest ?dev P s t1"
    using bmap_ok [OF ca txn_room [OF t n], of i off] a ip c by auto
  note r1 = t1(2) [unfolded at_rest_def] and f1 = bio_only_fs [of s t1]
  have x1: "in_txn t1 {} P" "content ?dev t1 = c" "itable t1 = itable s" "lg_dev t1 = ?dev" "lh t1 = lh s" "sb t1 = sb s" "disk t1 = disk s"
    using r1 f1 t c by (simp_all add: in_txn_def)
  have m': "m \<le> n - tot" "off mod BSIZE + m \<le> BSIZE" unfolding m by (auto simp: blk_chunk_def layout_defs)
  have len: "length (c ?b) = BSIZE" using content_length [OF ca] c by blast
  let ?f = "\<lambda>d. put_bytes d (off mod BSIZE) (take m bs)"
  have "length (?f (c ?b)) = BSIZE" using len m' bs by simp
  then obtain j t2 t3 t4 P' where w: "bread ?dev ?b t1 = Inr (j, t2)" "itable t2 = itable s"
      "log_write j (upd_buf j (\<lambda>x. x\<lparr>b_data := ?f (b_data x)\<rparr>) t2) = Inr ((), t3)" "brelse j t3 = Inr ((), t4)"
      "in_txn t4 {} P'" "content ?dev t4 = c(?b := ?f (c ?b))" "logs ?b t1 t4"
    using write_block [OF x1(1), of ?f ?b] n unfolding x1 by auto
  note l4 = w(7) [unfolded logs_def x1]
  have "file_written c ip off (take m bs) (content ?dev t4)"
    unfolding w(6) using m' bs by (intro file_written_chunk [OF ok a refl len]) simp
  moreover have "writei_loop i (FromKernel bs) off n tot s = writei_loop i (FromKernel (drop m bs)) (off + m) n (tot + m) t4"
    using tot a t1(1) x1(3) ip w(1-4)
    by (simp add: writei_loop.simps [of i "FromKernel bs" off] run_defs either_copyin_def src_add_def allocated_def Let_def m)
  ultimately show ?thesis using w(5) l4 by auto
qed

lemma writei_loop_ok:
  fixes s :: "'a kfs_scheme"
  assumes "in_txn s {} P" and "itable s ! i = ip" and "i_dev ip = lg_dev s" and "content (lg_dev s) s = c"
    and "file_blocks_ok c ip" and "\<And>k. k < n - tot \<Longrightarrow> allocated c ip (off + k)" and "tot \<le> n" and "length bs = n - tot"
    and "length (lh s) + spans off (n - tot) < LOGBLOCKS"
  shows "\<exists>t P'. writei_loop i (FromKernel bs) off n tot s = Inr ((n, off + (n - tot)), t) \<and> in_txn t {} P' \<and>
     file_written c ip off bs (content (lg_dev s) t) \<and> itable t = itable s \<and> sb t = sb s \<and> lg_dev t = lg_dev s \<and>
     disk t = disk s \<and> length (lh t) \<le> length (lh s) + spans off (n - tot)"
  using assms
proof (induction "n - tot" arbitrary: off tot bs s c P rule: less_induct)
  case less
  show ?case
  proof (cases "tot < n")
    case False
    then show ?thesis using less.prems file_written_refl by (auto simp: writei_loop.simps [of i] ret_def)
  next
    case True
    define m where "m = blk_chunk (n - tot) off"
    have a: "allocated c ip off" and n: "length (lh s) < LOGBLOCKS" using less.prems(6) [of 0] less.prems(9) True by simp_all
    obtain t1 P1 where t1: "writei_loop i (FromKernel bs) off n tot s = writei_loop i (FromKernel (drop m bs)) (off + m) n (tot + m) t1"
        "in_txn t1 {} P1" "file_written c ip off (take m bs) (content (lg_dev s) t1)"
        and f1: "itable t1 = itable s" "sb t1 = sb s" "lg_dev t1 = lg_dev s" "disk t1 = disk s" "length (lh t1) \<le> Suc (length (lh s))"
      using writei_round [OF less.prems(1-5) a True less.prems(8) n m_def] by blast
    have m: "0 < m" "m \<le> n - tot" using True blk_chunk_pos [of "n - tot" off] unfolding m_def by (simp_all add: blk_chunk_def)
    have d: "n - (tot + m) < n - tot" "tot + m \<le> n" using m by linarith+
    have sp: "Suc (spans (off + m) (n - (tot + m))) \<le> spans off (n - tot)"
      using spans_chunk [OF _ m_def] True by (simp add: diff_diff_eq)
    let ?d = "content (lg_dev s) t1"
    have b: "block_of ?d ip = block_of c ip" using t1(3) by (simp add: file_written_def)
    have al: "allocated ?d ip (off + m + k)" if "k < n - (tot + m)" for k
      using less.prems(6) [of "m + k"] that by (simp add: block_of_allocated [OF b] add.assoc)
    have fb: "file_blocks_ok ?d ip" using less.prems(5) by (simp add: file_blocks_ok_cong [OF b])
    obtain t P' where t: "writei_loop i (FromKernel (drop m bs)) (off + m) n (tot + m) t1 = Inr ((n, off + m + (n - (tot + m))), t)"
        "in_txn t {} P'" "file_written ?d ip (off + m) (drop m bs) (content (lg_dev s) t)"
        and f: "itable t = itable t1" "sb t = sb t1" "lg_dev t = lg_dev t1" "disk t = disk t1"
        "length (lh t) \<le> length (lh t1) + spans (off + m) (n - (tot + m))"
      using less.hyps [of "tot + m" t1 P1 ?d "off + m" "drop m bs"] d t1(2) f1 al fb less.prems(2,3,8,9) sp by auto
    have "file_written c ip off bs (content (lg_dev s) t)"
      using file_written_trans [OF t1(3), of "drop m bs"] t(3) m less.prems(8) by simp
    moreover have "off + m + (n - (tot + m)) = off + (n - tot)" using m by simp
    moreover have "length (lh t) \<le> length (lh s) + spans off (n - tot)" using f(5) f1(5) sp by linarith
    ultimately show ?thesis using t1(1) t(1,2) f1 f by - (rule exI [of _ t], rule exI [of _ P'], simp)
  qed
qed

section \<open>The whole operations\<close>

lemma length_dinode:
  assumes "length (di_addrs di) = NDIRECT + 1" and "length d = BSIZE"
  shows "length (put_dinode d (dinode_off inum) di) = BSIZE"
proof -
  have "length (concat (map (le_enc 4) xs)) = 4 * length xs" for xs :: "u32 list" by (induction xs) simp_all
  moreover have "dinode_off inum + 64 \<le> BSIZE"
    using mod_less_divisor [of 16 "unat inum"] by (simp add: dinode_off_def layout_defs)
  ultimately show ?thesis using assms by (simp add: put_dinode_def layout_defs)
qed

lemma iupdate_ok:
  fixes s :: "'a kfs_scheme"
  assumes t: "in_txn s {} P" and n: "length (lh s) < LOGBLOCKS" and ip: "itable s ! i = ip" "i_dev ip = lg_dev s"
    "length (i_addrs ip) = NDIRECT + 1" and b: "b = IBLOCK (i_inum ip) (sb s)"
  shows "\<exists>t P'. iupdate i s = Inr ((), t) \<and> in_txn t {} P' \<and> (\<forall>a. a \<noteq> b \<longrightarrow> content (lg_dev s) t a = content (lg_dev s) s a) \<and>
     logs b s t"
proof -
  let ?f = "\<lambda>d. put_dinode d (dinode_off (i_inum ip)) (dinode_of ip)"
  have "cache (lg_dev s) {} P s" using t by (simp add: in_txn_def)
  then have "length (?f (content (lg_dev s) s b)) = BSIZE"
    using content_length ip(3) by (intro length_dinode) (auto simp: dinode_of_def)
  then obtain j t1 t3 t4 P' where w: "bread (lg_dev s) b s = Inr (j, t1)"
      "log_write j (upd_buf j (\<lambda>x. x\<lparr>b_data := ?f (b_data x)\<rparr>) t1) = Inr ((), t3)" "brelse j t3 = Inr ((), t4)"
      "in_txn t4 {} P'" "content (lg_dev s) t4 = (content (lg_dev s) s)(b := ?f (content (lg_dev s) s b))" "logs b s t4"
    using write_block [OF t n, of ?f b] by blast
  have "iupdate i s = Inr ((), t4)" using w(1-3) ip b by (simp add: iupdate_def run_defs)
  then show ?thesis using w(4-6) by auto
qed

text \<open>A change outside the blocks of a file does not change the file.\<close>

lemma file_byte_other:
  assumes "\<And>a. a \<noteq> b \<Longrightarrow> d a = c a" and "i_addrs ip ! NDIRECT \<noteq> b" and "block_of c ip (k div BSIZE) \<noteq> b"
    and "i_addrs ip' = i_addrs ip"
  shows "file_byte d ip' k = file_byte c ip k" and "allocated d ip' k = allocated c ip k"
proof -
  have "block_of d ip' bn = block_of c ip bn" for bn using assms(1,2,4) by (simp add: block_of_def)
  then show "file_byte d ip' k = file_byte c ip k" and "allocated d ip' k = allocated c ip k"
    using assms by (simp_all add: file_byte_def allocated_def)
qed

lemma upd_inode_txn [simp]:
  fixes s :: "'a kfs_scheme"
  shows "in_txn (upd_inode i f s) H P = in_txn s H P" "content dev (upd_inode i f s) = content dev s"
    "lg_dev (upd_inode i f s) = lg_dev s" "lh (upd_inode i f s) = lh s" "sb (upd_inode i f s) = sb s"
    "itable (upd_inode i f s) = (itable s)[i := f (itable s ! i)]"
  by (simp_all add: in_txn_def cache_def home_def caches_def content_def fun_eq_iff upd_inode_def myproc_def me_def
      split: option.split)

lemma writei_ok:
  fixes s :: "'a kfs_scheme"
  assumes t: "in_txn s {} P" and ip: "itable s ! i = ip" "i < length (itable s)" "i_dev ip = lg_dev s" "length (i_addrs ip) = NDIRECT + 1"
    and c: "content (lg_dev s) s = c" and ok: "file_blocks_ok c ip" and al: "\<And>k. k < length bs \<Longrightarrow> allocated c ip (unat off + k)"
    and off: "off \<le> i_size ip" "unat off + length bs \<le> MAXFILE * BSIZE"
    and log: "length (lh s) + spans (unat off) (length bs) + 1 < LOGBLOCKS" and ib: "ib = IBLOCK (i_inum ip) (sb s)"
  shows "\<exists>t P' d ip'. writei i (FromKernel bs) off (of_nat (length bs)) s = Inr (int (length bs), t) \<and> in_txn t {} P' \<and>
     file_written c ip (unat off) bs d \<and> (\<forall>a. a \<noteq> ib \<longrightarrow> content (lg_dev s) t a = d a) \<and>
     itable t = (itable s)[i := ip'] \<and> ip' = ip\<lparr>i_size := of_nat (max (unat (i_size ip)) (unat off + length bs))\<rparr> \<and>
     lg_dev t = lg_dev s \<and> disk t = disk s \<and> length (lh t) < LOGBLOCKS"
proof -
  let ?n = "length bs" and ?upto = "unat off + length bs"
  have big: "?upto < 2 ^ 32" using off(2) by (simp add: layout_defs)
  have u: "unat (of_nat ?n :: u32) = ?n" "unat (off + of_nat ?n) = ?upto"
    using big by (simp_all add: unat_of_nat unat_word_ariths)
  obtain t1 P1 where t1: "writei_loop i (FromKernel bs) (unat off) ?n 0 s = Inr ((?n, ?upto), t1)" "in_txn t1 {} P1"
      "file_written c ip (unat off) bs (content (lg_dev s) t1)"
      and f1: "itable t1 = itable s" "sb t1 = sb s" "lg_dev t1 = lg_dev s" "disk t1 = disk s"
      "length (lh t1) \<le> length (lh s) + spans (unat off) ?n"
    using writei_loop_ok [OF t ip(1,3) c ok, of ?n 0 "unat off" bs] al log by auto
  define ip' where "ip' = ip\<lparr>i_size := of_nat (max (unat (i_size ip)) ?upto)\<rparr>"
  define t2 where "t2 = upd_inode i (\<lambda>_. ip') t1"
  have up: "upd_inode i (\<lambda>ip. if ?upto > unat (i_size ip) then ip\<lparr>i_size := of_nat ?upto\<rparr> else ip) t1 = t2"
    using ip(1) f1(1) by (auto simp: upd_inode_def t2_def ip'_def max_def)
  have x2: "in_txn t2 {} P1" "itable t2 ! i = ip'" "i_dev ip' = lg_dev t2" "length (i_addrs ip') = NDIRECT + 1"
      "ib = IBLOCK (i_inum ip') (sb t2)" "length (lh t2) < LOGBLOCKS"
    using t1(2) f1 ip ib log by (simp_all add: t2_def ip'_def)
  obtain t3 P3 where t3: "iupdate i t2 = Inr ((), t3)" "in_txn t3 {} P3"
      "\<forall>a. a \<noteq> ib \<longrightarrow> content (lg_dev t2) t3 a = content (lg_dev t2) t2 a" "logs ib t2 t3"
    using iupdate_ok [OF x2(1,6,2-5)] by blast
  note l3 = t3(4) [unfolded logs_def]
  have "writei i (FromKernel bs) off (of_nat ?n) s = Inr (int ?n, t3)"
    using off big u t1(1) t3(1) ip(1)
    by (simp add: writei_def run_defs up not_less word_le_nat_alt word_less_nat_alt)
  moreover have "content (lg_dev s) t3 a = content (lg_dev s) t1 a" if "a \<noteq> ib" for a
    using t3(3) that f1(3) by (simp add: t2_def)
  moreover have "length (lh t3) < LOGBLOCKS" "disk t3 = disk s"
    using l3 f1(4,5) log by (simp_all add: t2_def) (simp add: upd_inode_def)
  ultimately show ?thesis
    using t1(3) t3(2) l3 f1 by (intro exI [of _ t3] exI [of _ P3] exI [of _ "content (lg_dev s) t1"] exI [of _ ip'])
      (simp add: t2_def ip'_def)
qed

lemma readi_ok:
  fixes s :: "'a kfs_scheme"
  assumes "cache dev {} P s" and "card P < NBUF" and "itable s ! i = ip" and "i_dev ip = dev" and "content dev s = c"
    and "\<And>k. k < unat n \<Longrightarrow> allocated c ip (unat off + k)" and "unat off + unat n \<le> unat (i_size ip)"
  shows "\<exists>t. readi i ToKernel off n s = Inr ((int (unat n), map (file_byte c ip) [unat off..<unat off + unat n]), t) \<and> at_rest dev P s t"
proof -
  have "unat (i_size ip) < 2 ^ LENGTH(32)" by (rule unsigned_less)
  then have "unat off + unat n < 2 ^ 32" using assms(7) by simp
  then have u: "unat (off + n) = unat off + unat n" by (simp add: unat_word_ariths)
  have "\<not> off > i_size ip" "\<not> off + n < off" "\<not> off + n > i_size ip"
    using u assms(7) by (simp_all add: word_less_nat_alt)
  moreover obtain t where "readi_loop i ToKernel (unat off) (unat n) 0 [] s =
      Inr ((int (unat n), map (file_byte c ip) [unat off..<unat off + unat n]), t)" "at_rest dev P s t"
    using readi_loop_ok [OF assms(1,2), of i ip c "unat n" 0 "unat off" "[]"] assms(3-6) by auto
  ultimately show ?thesis using assms(3) by (auto simp: readi_def run_defs)
qed

section \<open>Properties\<close>

text \<open>
  C18. A file keeps what is written to it. Inside a transaction with room in the log, for a file
  whose blocks differ from each other, from its indirect block and from the block of its inode,
  \<^verbatim>\<open>writei\<close> of bytes into blocks that exist, direct or indirect, returns their number and
  \<^verbatim>\<open>readi\<close> then returns exactly these bytes. The size grows to the end of the write if that is
  beyond it, no other byte of the file and no block outside the file and its inode changes, and
  nothing is on the disk before the transaction commits.
\<close>

theorem writei_readi:
  fixes s :: "'a kfs_scheme"
  assumes "in_txn s {} P" and "itable s ! i = ip" and "i < length (itable s)" and "i_dev ip = lg_dev s"
    and "length (i_addrs ip) = NDIRECT + 1" and "content (lg_dev s) s = c" and "file_blocks_ok c ip"
    and "\<forall>k < length bs. allocated c ip (unat off + k)"
    and "off \<le> i_size ip" and "unat off + length bs \<le> MAXFILE * BSIZE"
    and "length (lh s) + spans (unat off) (length bs) + 1 < LOGBLOCKS"
    and "ib = IBLOCK (i_inum ip) (sb s)" and "i_addrs ip ! NDIRECT \<noteq> ib"
    and "\<forall>k. allocated c ip k \<longrightarrow> block_of c ip (k div BSIZE) \<noteq> ib"
  shows "\<exists>t u. writei i (FromKernel bs) off (of_nat (length bs)) s = Inr (int (length bs), t) \<and>
     readi i ToKernel off (of_nat (length bs)) t = Inr ((int (length bs), bs), u) \<and>
     unat (i_size (itable t ! i)) = max (unat (i_size ip)) (unat off + length bs) \<and>
     (\<forall>k. allocated c ip k \<and> (k < unat off \<or> unat off + length bs \<le> k) \<longrightarrow>
        file_byte (content (lg_dev s) t) (itable t ! i) k = file_byte c ip k) \<and>
     (\<forall>b. b \<noteq> ib \<and> (\<forall>k. allocated c ip k \<longrightarrow> block_of c ip (k div BSIZE) \<noteq> b) \<longrightarrow> content (lg_dev s) t b = c b) \<and>
     disk t = disk s"
proof -
  let ?n = "length bs" and ?dev = "lg_dev s"
  obtain t P' d ip' where t: "writei i (FromKernel bs) off (of_nat ?n) s = Inr (int ?n, t)" "in_txn t {} P'"
      and d: "file_written c ip (unat off) bs d" "\<forall>a. a \<noteq> ib \<longrightarrow> content ?dev t a = d a"
      and f: "itable t = (itable s)[i := ip']" "ip' = ip\<lparr>i_size := of_nat (max (unat (i_size ip)) (unat off + ?n))\<rparr>"
        "lg_dev t = ?dev" "disk t = disk s" "length (lh t) < LOGBLOCKS"
    using writei_ok [OF assms(1-7) _ assms(9-12)] assms(8) by blast
  have n: "unat (of_nat ?n :: u32) = ?n" using assms(10) by (simp add: unat_of_nat layout_defs)
  have "unat (i_size ip) < 2 ^ LENGTH(32)" by (rule unsigned_less)
  then have size: "unat (i_size ip') = max (unat (i_size ip)) (unat off + ?n)"
    using assms(10) by (simp add: f(2) unat_of_nat layout_defs max_def)
  have ip': "itable t ! i = ip'" "i_addrs ip' = i_addrs ip" "i_dev ip' = ?dev" using f assms(3,4) by simp_all
  have b: "block_of d ip = block_of c ip" using d(1) by (simp add: file_written_def)
  have same: "file_byte (content ?dev t) ip' k = file_byte d ip k" "allocated (content ?dev t) ip' k" if "allocated c ip k" for k
    using file_byte_other [of ib "content ?dev t" d ip k ip'] d(2) assms(13,14) b ip'(2) that
    by (simp_all add: block_of_allocated [OF b])
  have bytes: "map (file_byte (content ?dev t) ip') [unat off..<unat off + ?n] = bs"
    using same assms(8) d(1) by (intro nth_equalityI) (auto simp: file_written_def)
  have "cache ?dev {} P' t" "card P' < NBUF" using t(2) f(3) txn_room [OF t(2) f(5)] by (simp_all add: in_txn_def)
  then obtain u where "readi i ToKernel off (of_nat ?n) t = Inr ((int ?n, bs), u)"
    using readi_ok [of ?dev P' t i ip' "content ?dev t" "of_nat ?n" off] same(2) assms(8) size ip' n bytes by auto
  moreover have "content ?dev t b = c b" if "b \<noteq> ib" "\<forall>k. allocated c ip k \<longrightarrow> block_of c ip (k div BSIZE) \<noteq> b" for b
    using d that by (simp add: file_written_def)
  moreover have "file_byte (content ?dev t) ip' k = file_byte c ip k"
    if "allocated c ip k" "k < unat off \<or> unat off + ?n \<le> k" for k
    using same(1) [OF that(1)] d(1) that by (auto simp: file_written_def)
  ultimately show ?thesis using t(1) size f(4) ip'(1) by auto
qed

text \<open>A transaction on a file system with one file, of five bytes in block 200.\<close>

definition file_inode :: inode where
  "file_inode = \<lparr>i_dev = 1, i_inum = 7, i_ref = 1, i_lock = \<lparr>sl_locked = True, sl_pid = 1\<rparr>, i_valid = True, i_type = T_FILE,
     i_major = 0, i_minor = 0, i_nlink = 1, i_size = 5, i_addrs = 200 # replicate 12 0\<rparr>"

definition file_kernel :: kernel where
  "file_kernel = (txn_kernel 0)\<lparr>lg_outstanding := 1, itable := [file_inode]\<rparr>"

lemma file_kernel_txn: "in_txn file_kernel {} {}"
proof -
  have "cache 1 {} {} file_kernel = cache 1 {} {} (txn_kernel 0)"
    by (simp add: file_kernel_def cache_def caches_def myproc_def me_def)
  then have "cache 1 {} {} file_kernel" using txn_cache [of 0] by simp
  moreover have "lg_dev file_kernel = 1" "lh file_kernel = []" "lg_outstanding file_kernel = 1"
    by (simp_all add: file_kernel_def txn_kernel_def sample_kernel_def)
  ultimately show ?thesis by (simp add: in_txn_def)
qed

lemma file_inode_blocks:
  "allocated c file_inode k \<longleftrightarrow> k < BSIZE" "k < BSIZE \<Longrightarrow> block_of c file_inode (k div BSIZE) = 200"
proof -
  have z: "i_addrs file_inode ! bn = 0" if "0 < bn" "bn \<le> 12" for bn
    using that by (cases bn) (simp_all add: file_inode_def)
  have 0: "block_of c file_inode 0 = 200" by (simp add: block_of_def file_inode_def layout_defs)
  show "block_of c file_inode (k div BSIZE) = 200" if "k < BSIZE" using that 0 by simp
  show "allocated c file_inode k \<longleftrightarrow> k < BSIZE"
  proof (cases "k < BSIZE")
    case True
    then show ?thesis using 0 by (simp add: allocated_def layout_defs)
  next
    case False
    then have "0 < k div BSIZE" by (simp add: div_greater_zero_iff layout_defs)
    then have "k div BSIZE < 12 \<Longrightarrow> block_of c file_inode (k div BSIZE) = 0" using z by (simp add: block_of_def layout_defs)
    moreover have "i_addrs file_inode ! NDIRECT = 0" using z [of 12] by (simp add: layout_defs)
    ultimately show ?thesis using False by (auto simp: allocated_def NDIRECT_def)
  qed
qed

lemma file_inode_ok: "file_blocks_ok c file_inode"
proof -
  have "i_addrs file_inode ! NDIRECT = 0" by (simp add: file_inode_def layout_defs)
  then show ?thesis unfolding file_blocks_ok_def file_inode_blocks(1) using file_inode_blocks(2) [of _ c] by simp
qed

theorem writei_readi_witness:
  "\<exists>t u. writei 0 (FromKernel [1, 2, 3]) 4 3 file_kernel = Inr (3, t) \<and>
     readi 0 ToKernel 4 3 t = Inr ((3, [1, 2, 3]), u) \<and> unat (i_size (itable t ! 0)) = 7"
proof -
  let ?s = file_kernel and ?c = "content 1 file_kernel"
  have s: "itable ?s = [file_inode]" "lg_dev ?s = 1" "lh ?s = []" "sb ?s = sample_sb"
    by (simp_all add: file_kernel_def txn_kernel_def sample_kernel_def)
  have i: "i_dev file_inode = 1" "length (i_addrs file_inode) = NDIRECT + 1" "4 \<le> i_size file_inode" "i_addrs file_inode ! NDIRECT \<noteq> 33"
      "unat (4 :: u32) + length [1, 2, 3 :: u8] \<le> MAXFILE * BSIZE" "unat (i_size file_inode) = 5"
    by (simp_all add: file_inode_def layout_defs)
  have ib: "IBLOCK (i_inum file_inode) (sb ?s) = 33"
    by (simp add: s IBLOCK_def file_inode_def sample_sb_def layout_defs)
  have al: "\<forall>k < length [1, 2, 3 :: u8]. allocated ?c file_inode (unat (4 :: u32) + k)"
    unfolding file_inode_blocks(1) by (simp add: layout_defs)
  have sp: "length (lh ?s) + spans (unat (4 :: u32)) (length [1, 2, 3 :: u8]) + 1 < LOGBLOCKS"
    by (simp add: s spans_def layout_defs)
  have nb: "\<forall>k. allocated ?c file_inode k \<longrightarrow> block_of ?c file_inode (k div BSIZE) \<noteq> 33"
    unfolding file_inode_blocks(1) using file_inode_blocks(2) by simp
  show ?thesis
    using writei_readi [OF file_kernel_txn, of 0 file_inode ?c "[1, 2, 3]" 4 33] file_inode_ok al sp nb ib s i
    by auto
qed

end
