(* ===== verification/Pagetable.thy ===== *)
theory Pagetable
  imports Vm
begin

text \<open>
  What the page tables of \<^verbatim>\<open>kernel/vm.c\<close> mean. A page table is a tree of pages in physical
  memory; \<open>pte\<close> reads off the leaf entry that translates an address. The lemmas show that
  walking a well-formed table finds this entry, that installing entries changes the
  translation of the mapped pages and of no others, and that copying through a table reads
  and writes the memory it translates to.
\<close>

section \<open>Page tables as trees\<close>

definition idx :: "u64 set" where
  "idx = {x. unat x < 512}"

definition entry :: "mem \<Rightarrow> u64 \<Rightarrow> u64 \<Rightarrow> u64" where
  "entry m pt x = ld64 m (pt + 8 * x)"

definition valid :: "u64 \<Rightarrow> bool" where
  "valid e \<longleftrightarrow> e AND PTE_V \<noteq> 0"

text \<open>The pages of the tables of the tree whose root is \<open>pt\<close>, \<open>l\<close> levels above the leaves.\<close>

fun table_pages :: "nat \<Rightarrow> mem \<Rightarrow> u64 \<Rightarrow> u64 set" where
  "table_pages 0 m pt = {pt}"
| "table_pages (Suc l) m pt =
     insert pt (\<Union>x \<in> {x \<in> idx. valid (entry m pt x)}. table_pages l m (PTE2PA (entry m pt x)))"

text \<open>A well-formed tree: no page occurs in it twice.\<close>

fun ptree :: "nat \<Rightarrow> mem \<Rightarrow> u64 \<Rightarrow> bool" where
  "ptree 0 m pt \<longleftrightarrow> page_aligned pt \<and> pt \<noteq> 0"
| "ptree (Suc l) m pt \<longleftrightarrow> page_aligned pt \<and> pt \<noteq> 0 \<and>
     (\<forall>x \<in> idx. valid (entry m pt x) \<longrightarrow>
        ptree l m (PTE2PA (entry m pt x)) \<and> pt \<notin> table_pages l m (PTE2PA (entry m pt x))) \<and>
     (\<forall>x \<in> idx. \<forall>y \<in> idx. x \<noteq> y \<and> valid (entry m pt x) \<and> valid (entry m pt y) \<longrightarrow>
        table_pages l m (PTE2PA (entry m pt x)) \<inter> table_pages l m (PTE2PA (entry m pt y)) = {})"

text \<open>The leaf entry for an address, 0 if a table is missing on the way, and where it is stored.\<close>

fun pte :: "nat \<Rightarrow> mem \<Rightarrow> u64 \<Rightarrow> u64 \<Rightarrow> u64" where
  "pte 0 m pt va = entry m pt (PX 0 va)"
| "pte (Suc l) m pt va =
     (if valid (entry m pt (PX (Suc l) va)) then pte l m (PTE2PA (entry m pt (PX (Suc l) va))) va else 0)"

fun slot :: "nat \<Rightarrow> mem \<Rightarrow> u64 \<Rightarrow> u64 \<Rightarrow> u64" where
  "slot 0 m pt va = pt + 8 * PX 0 va"
| "slot (Suc l) m pt va =
     (if valid (entry m pt (PX (Suc l) va)) then slot l m (PTE2PA (entry m pt (PX (Suc l) va))) va else 0)"

section \<open>Entries and pages\<close>

lemma PX_idx [simp]: "PX l va \<in> idx"
  by (simp add: idx_def)

lemma zero_idx [simp]: "0 \<in> idx"
  by (simp add: idx_def)

lemma unat_8_mult: "x \<in> idx \<Longrightarrow> unat (8 * x) = 8 * unat x"
  by (simp add: idx_def unat_mult_lem [THEN iffD1])

lemma entry_addr:
  assumes "page_aligned pt" "x \<in> idx"
  shows "PGROUNDDOWN (pt + 8 * x) = pt" and "aligned8 (pt + 8 * x)"
proof -
  have u: "unat (8 * x) < 4096" using unat_8_mult [OF assms(2)] assms(2) by (simp add: idx_def)
  then show "PGROUNDDOWN (pt + 8 * x) = pt" using assms(1) by (intro PGROUNDDOWN_offset)
  obtain q where "unat pt = 4096 * q" using assms(1) by (rule page_alignedE)
  then have "unat (pt + 8 * x) = 8 * (512 * q + unat x)"
    using unat_page_offset [OF assms(1) u] unat_8_mult [OF assms(2)] by simp
  then show "aligned8 (pt + 8 * x)" by (simp add: aligned8_def)
qed

lemma entry_addr_nonzero: "page_aligned pt \<Longrightarrow> pt \<noteq> 0 \<Longrightarrow> x \<in> idx \<Longrightarrow> pt + 8 * x \<noteq> 0"
  using entry_addr(1) [of pt x] by (auto simp: PGROUNDDOWN_def)

lemma entry_inj:
  assumes "x \<in> idx" "y \<in> idx" "pt + 8 * x = pt + 8 * y"
  shows "x = y"
proof -
  have "8 * unat x = 8 * unat y" using unat_8_mult assms by (metis add_left_cancel)
  then show ?thesis by (simp add: word_unat_eq_iff)
qed

lemma entry_same_page: "page_aligned pt \<Longrightarrow> x \<in> idx \<Longrightarrow> same_page m m' pt \<Longrightarrow> entry m' pt x = entry m pt x"
  unfolding entry_def by (rule ld64_same_page) (simp_all add: entry_addr)

lemma entry_st64:
  assumes "page_aligned pt" "x \<in> idx" "y \<in> idx"
  shows "entry (st64 m (pt + 8 * y) v) pt x = (if x = y then v else entry m pt x)"
proof (cases "x = y")
  case False
  then have "pt + 8 * y \<noteq> pt + 8 * x" using entry_inj assms by blast
  then show ?thesis using False assms by (simp add: entry_def ld64_st64_other entry_addr)
qed (simp add: entry_def)

lemma entry_zero_page: "page_aligned pt \<Longrightarrow> x \<in> idx \<Longrightarrow> entry (memset m pt 0 4096) pt x = 0"
  by (simp add: entry_def ld64_memset0 entry_addr)

lemma valid_0 [simp]: "\<not> valid 0"
  by (simp add: valid_def)

lemma ptree_root: "ptree l m pt \<Longrightarrow> page_aligned pt \<and> pt \<noteq> 0 \<and> pt \<in> table_pages l m pt"
  by (cases l) auto

lemma ptree_child:
  "ptree (Suc l) m pt \<Longrightarrow> x \<in> idx \<Longrightarrow> valid (entry m pt x) \<Longrightarrow>
     ptree l m (PTE2PA (entry m pt x)) \<and> pt \<notin> table_pages l m (PTE2PA (entry m pt x)) \<and>
     table_pages l m (PTE2PA (entry m pt x)) \<subseteq> table_pages (Suc l) m pt"
  by auto

section \<open>Trees and changes of memory\<close>

text \<open>A change that stays off the pages of a tree does not change the tree.\<close>

lemma ptree_frame:
  assumes "ptree l m pt" and "\<forall>p \<in> table_pages l m pt. same_page m m' p"
  shows "ptree l m' pt \<and> table_pages l m' pt = table_pages l m pt \<and> pte l m' pt = pte l m pt \<and>
     slot l m' pt = slot l m pt"
  using assms
proof (induction l arbitrary: pt)
  case 0
  then show ?case using entry_same_page [of pt _ m m'] by (auto simp: fun_eq_iff)
next
  case (Suc l)
  have pt: "page_aligned pt" using ptree_root [OF Suc.prems(1)] by simp
  then have e: "entry m' pt x = entry m pt x" if "x \<in> idx" for x
    using Suc.prems(2) that by (intro entry_same_page) auto
  have IH: "ptree l m' (PTE2PA (entry m pt x)) \<and>
      table_pages l m' (PTE2PA (entry m pt x)) = table_pages l m (PTE2PA (entry m pt x)) \<and>
      pte l m' (PTE2PA (entry m pt x)) = pte l m (PTE2PA (entry m pt x)) \<and>
      slot l m' (PTE2PA (entry m pt x)) = slot l m (PTE2PA (entry m pt x))"
    if "x \<in> idx" "valid (entry m pt x)" for x
    using Suc.prems that by (intro Suc.IH) auto
  have "table_pages (Suc l) m' pt = table_pages (Suc l) m pt"
    using e IH by (auto simp: set_eq_iff)
  moreover have "ptree (Suc l) m' pt" using Suc.prems(1) e IH by simp
  moreover have "pte (Suc l) m' pt = pte (Suc l) m pt" "slot (Suc l) m' pt = slot (Suc l) m pt"
    using e IH by (auto simp: fun_eq_iff)
  ultimately show ?case by blast
qed

text \<open>
  Giving the entry \<open>x\<close> of a table a new subtree: \<open>rest\<close> is the tree without what was below
  \<open>x\<close>. The new subtree has to stay off \<open>rest\<close>, and the rest has to be unchanged.
\<close>

definition rest :: "nat \<Rightarrow> mem \<Rightarrow> u64 \<Rightarrow> u64 \<Rightarrow> u64 set" where
  "rest l m pt x =
     insert pt (\<Union>y \<in> {y \<in> idx. y \<noteq> x \<and> valid (entry m pt y)}. table_pages l m (PTE2PA (entry m pt y)))"

lemma table_pages_rest:
  "x \<in> idx \<Longrightarrow> table_pages (Suc l) m pt =
     rest l m pt x \<union> (if valid (entry m pt x) then table_pages l m (PTE2PA (entry m pt x)) else {})"
  by (auto simp: rest_def)

lemma rest_disjoint:
  assumes "ptree (Suc l) m pt" "x \<in> idx" "valid (entry m pt x)"
  shows "table_pages l m (PTE2PA (entry m pt x)) \<inter> rest l m pt x = {}"
  using assms by (fastforce simp: rest_def)

lemma ptree_graft:
  assumes tree: "ptree (Suc l) m pt" and x: "x \<in> idx"
    and others: "\<And>y. y \<in> idx \<Longrightarrow> y \<noteq> x \<Longrightarrow> entry m' pt y = entry m pt y"
    and same: "\<And>p. p \<in> rest l m pt x \<Longrightarrow> p \<noteq> pt \<Longrightarrow> same_page m m' p"
    and new: "valid (entry m' pt x)" "c = PTE2PA (entry m' pt x)" "ptree l m' c"
      "table_pages l m' c \<inter> rest l m pt x = {}"
  shows "ptree (Suc l) m' pt \<and> table_pages (Suc l) m' pt = rest l m pt x \<union> table_pages l m' c \<and>
     (\<forall>va. pte (Suc l) m' pt va = (if PX (Suc l) va = x then pte l m' c va else pte (Suc l) m pt va))"
proof -
  have old: "ptree l m' (PTE2PA (entry m pt y)) \<and>
      table_pages l m' (PTE2PA (entry m pt y)) = table_pages l m (PTE2PA (entry m pt y)) \<and>
      pte l m' (PTE2PA (entry m pt y)) = pte l m (PTE2PA (entry m pt y)) \<and>
      table_pages l m (PTE2PA (entry m pt y)) \<subseteq> rest l m pt x \<and>
      pt \<notin> table_pages l m (PTE2PA (entry m pt y))"
    if y: "y \<in> idx" "y \<noteq> x" "valid (entry m pt y)" for y
  proof -
    have c: "ptree l m (PTE2PA (entry m pt y))" "pt \<notin> table_pages l m (PTE2PA (entry m pt y))"
      using tree y by auto
    have sub: "table_pages l m (PTE2PA (entry m pt y)) \<subseteq> rest l m pt x" using y by (auto simp: rest_def)
    then have "\<forall>p \<in> table_pages l m (PTE2PA (entry m pt y)). same_page m m' p"
      using same c(2) by blast
    then show ?thesis using ptree_frame [OF c(1)] sub c(2) by blast
  qed
  have pages: "table_pages (Suc l) m' pt = rest l m pt x \<union> table_pages l m' c"
  proof -
    have "{y \<in> idx. y \<noteq> x \<and> valid (entry m' pt y)} = {y \<in> idx. y \<noteq> x \<and> valid (entry m pt y)}"
      using others by auto
    then have "rest l m' pt x = rest l m pt x"
      unfolding rest_def using others old by (intro arg_cong2 [where f = insert] SUP_cong) auto
    then show ?thesis using table_pages_rest [OF x, of l m' pt] new(1,2) by simp
  qed
  have pt: "pt \<notin> table_pages l m' c" using new(4) by (auto simp: rest_def)
  have dis: "table_pages l m' (PTE2PA (entry m pt y)) \<inter> table_pages l m' c = {}"
    if "y \<in> idx" "y \<noteq> x" "valid (entry m pt y)" for y
    using old [OF that] new(4) by blast
  have "ptree (Suc l) m' pt"
    unfolding ptree.simps
  proof (intro conjI ballI impI)
    fix y assume y: "y \<in> idx" "valid (entry m' pt y)"
    show "ptree l m' (PTE2PA (entry m' pt y))" "pt \<notin> table_pages l m' (PTE2PA (entry m' pt y))"
      using old [of y] others [of y] y new pt by (cases "y = x"; simp)+
  next
    fix y z assume yz: "y \<in> idx" "z \<in> idx" "y \<noteq> z \<and> valid (entry m' pt y) \<and> valid (entry m' pt z)"
    then consider "y = x" "z \<noteq> x" | "z = x" "y \<noteq> x" | "y \<noteq> x" "z \<noteq> x" by blast
    then show "table_pages l m' (PTE2PA (entry m' pt y)) \<inter> table_pages l m' (PTE2PA (entry m' pt z)) = {}"
    proof cases
      case 1
      then show ?thesis using dis [of z] others [of z] yz new(2) by auto
    next
      case 2
      then show ?thesis using dis [of y] others [of y] yz new(2) by auto
    next
      case 3
      then show ?thesis using old [of y] old [of z] others [of y] others [of z] yz tree by auto
    qed
  qed (use ptree_root [OF tree] in auto)
  moreover have "pte (Suc l) m' pt va = (if PX (Suc l) va = x then pte l m' c va else pte (Suc l) m pt va)" for va
    using old [of "PX (Suc l) va"] others [of "PX (Suc l) va"] new(1,2) by auto
  ultimately show ?thesis using pages by blast
qed

text \<open>A page of zeroes is an empty table.\<close>

lemma ptree_zero:
  assumes "page_aligned p" "p \<noteq> 0" "\<And>x. x \<in> idx \<Longrightarrow> entry m p x = 0"
  shows "ptree l m p \<and> table_pages l m p = {p} \<and> (\<forall>va. pte l m p va = 0)"
  using assms by (cases l) auto

text \<open>Where an entry is stored.\<close>

lemma slot_facts:
  assumes "ptree l m pt"
  shows "slot l m pt va \<noteq> 0 \<longrightarrow> ld64 m (slot l m pt va) = pte l m pt va \<and> aligned8 (slot l m pt va) \<and>
       PGROUNDDOWN (slot l m pt va) \<in> table_pages l m pt"
    and "slot l m pt va = 0 \<longrightarrow> pte l m pt va = 0"
  using assms
proof (induction l arbitrary: pt)
  case 0
  { case 1 then show ?case by (simp add: entry_def entry_addr)
  next case 2 then show ?case by (simp add: entry_addr_nonzero) }
next
  case (Suc l)
  { case 1
    then show ?case using Suc.IH(1) [of "PTE2PA (entry m pt (PX (Suc l) va))"] by auto
  next case 2
    then show ?case using Suc.IH(2) [of "PTE2PA (entry m pt (PX (Suc l) va))"] by auto }
qed

text \<open>Overwriting a leaf entry changes the translation of that page only.\<close>

definition same_vpn :: "nat \<Rightarrow> u64 \<Rightarrow> u64 \<Rightarrow> bool" where
  "same_vpn l va vb \<longleftrightarrow> (\<forall>k \<le> l. PX k va = PX k vb)"

lemma same_vpn_Suc: "same_vpn (Suc l) va vb \<longleftrightarrow> PX (Suc l) va = PX (Suc l) vb \<and> same_vpn l va vb"
  by (auto simp: same_vpn_def le_Suc_eq)

lemma ptree_store:
  assumes "ptree l m pt" and "slot l m pt va \<noteq> 0"
  shows "ptree l (st64 m (slot l m pt va) v) pt \<and>
     table_pages l (st64 m (slot l m pt va) v) pt = table_pages l m pt \<and>
     (\<forall>vb. pte l (st64 m (slot l m pt va) v) pt vb = (if same_vpn l vb va then v else pte l m pt vb))"
  using assms
proof (induction l arbitrary: pt)
  case 0
  then show ?case by (simp add: entry_st64 same_vpn_def)
next
  case (Suc l)
  let ?x = "PX (Suc l) va" and ?c = "PTE2PA (entry m pt (PX (Suc l) va))" and ?m = "st64 m (slot (Suc l) m pt va) v"
  have v: "valid (entry m pt ?x)" using Suc.prems(2) by (auto split: if_splits)
  then have sl: "slot (Suc l) m pt va = slot l m ?c va" by simp
  have c: "ptree l m ?c" "pt \<notin> table_pages l m ?c" using ptree_child [OF Suc.prems(1) PX_idx v] by auto
  have at: "aligned8 (slot l m ?c va)" "PGROUNDDOWN (slot l m ?c va) \<in> table_pages l m ?c"
    using slot_facts(1) [OF c(1), of va] Suc.prems(2) sl by auto
  have IH: "ptree l ?m ?c" "table_pages l ?m ?c = table_pages l m ?c"
      "pte l ?m ?c vb = (if same_vpn l vb va then v else pte l m ?c vb)" for vb
    using Suc.IH [OF c(1)] Suc.prems(2) unfolding sl by auto
  have off: "same_page m ?m p" if "p \<notin> table_pages l m ?c" for p
    unfolding sl using at that by (intro st64_same_page) auto
  have e: "entry ?m pt y = entry m pt y" if "y \<in> idx" for y
    using that ptree_root [OF Suc.prems(1)] off [OF c(2)] by (intro entry_same_page) auto
  have dis: "table_pages l m ?c \<inter> rest l m pt ?x = {}" by (rule rest_disjoint [OF Suc.prems(1) PX_idx v])
  have "ptree (Suc l) ?m pt \<and> table_pages (Suc l) ?m pt = rest l m pt ?x \<union> table_pages l ?m ?c \<and>
     (\<forall>vb. pte (Suc l) ?m pt vb = (if PX (Suc l) vb = ?x then pte l ?m ?c vb else pte (Suc l) m pt vb))"
  proof (rule ptree_graft [OF Suc.prems(1) PX_idx])
    show "same_page m ?m p" if "p \<in> rest l m pt ?x" for p using dis that by (intro off) auto
  qed (use e v IH(1,2) dis in auto)
  moreover have "table_pages (Suc l) m pt = rest l m pt ?x \<union> table_pages l m ?c"
    using table_pages_rest [of ?x l m pt] v by simp
  ultimately show ?case using IH v by (auto simp: same_vpn_Suc)
qed

section \<open>Walking\<close>

declare table_pages.simps(2) [simp del] ptree.simps(2) [simp del]

text \<open>
  What the routines on page tables change of a state is physical memory and the free list. A walk
  that may allocate does this to the state: it takes the pages \<open>G\<close> out of the free pages
  \<open>F\<close> and makes them tables of the tree, leaves every translation as it was and touches no
  memory outside the tree and the free pages.
\<close>

definition mem_only :: "'a kmem_scheme \<Rightarrow> 'a kmem_scheme \<Rightarrow> bool" where
  "mem_only s t \<longleftrightarrow> (\<exists>m f. t = s\<lparr>k_mem := m, k_free := f\<rparr>)"

lemma mem_onlyI: "t = s\<lparr>k_mem := m, k_free := f\<rparr> \<Longrightarrow> mem_only s t"
  by (auto simp: mem_only_def)

lemma mem_only_refl [simp]: "mem_only s s"
  by (rule mem_onlyI [where m = "k_mem s" and f = "k_free s"]) simp

lemma mem_only_mem [simp]: "mem_only s (s\<lparr>k_mem := m\<rparr>)"
  by (rule mem_onlyI [where f = "k_free s"]) simp

lemma mem_only_trans:
  assumes "mem_only s t" "mem_only t u"
  shows "mem_only s u"
proof -
  obtain m f m' f' where "t = s\<lparr>k_mem := m, k_free := f\<rparr>" "u = t\<lparr>k_mem := m', k_free := f'\<rparr>"
    using assms unfolding mem_only_def by blast
  then have "u = s\<lparr>k_mem := m', k_free := f'\<rparr>" by simp
  then show ?thesis by (rule mem_onlyI)
qed

lemma mem_only_free [simp]: "mem_only s (s\<lparr>k_free := f\<rparr>)"
  by (rule mem_onlyI [where m = "k_mem s"]) simp

lemma mem_only_end: "mem_only s t \<Longrightarrow> k_end t = k_end s"
  by (auto simp: mem_only_def)

definition grown :: "nat \<Rightarrow> u64 \<Rightarrow> 'a kmem_scheme \<Rightarrow> u64 set \<Rightarrow> 'a kmem_scheme \<Rightarrow> u64 set \<Rightarrow> bool" where
  "grown l pt s F t G \<longleftrightarrow> G \<subseteq> F \<and> kmem_inv t (F - G) \<and> mem_only s t \<and>
     ptree l (k_mem t) pt \<and> table_pages l (k_mem t) pt = table_pages l (k_mem s) pt \<union> G \<and>
     pte l (k_mem t) pt = pte l (k_mem s) pt \<and>
     (\<forall>p. p \<notin> table_pages l (k_mem s) pt \<union> F \<longrightarrow> same_page (k_mem s) (k_mem t) p)"

lemma new_table_entry:
  assumes "phys_page s p"
  shows "PTE2PA (PA2PTE p OR PTE_V) = p" and "valid (PA2PTE p OR PTE_V)"
proof -
  have "p < 2 ^ 56"
    using assms less_trans [of p PHYSTOP "2 ^ 56"] by (simp add: phys_page_def layout_defs)
  then show "PTE2PA (PA2PTE p OR PTE_V) = p"
    using assms by (intro PTE2PA_PA2PTE) (simp_all add: phys_page_def PTE_V_def)
  have "bit ((PA2PTE p OR PTE_V) AND PTE_V) 0" by (simp add: PTE_V_def bit_simps)
  then show "valid (PA2PTE p OR PTE_V)" unfolding valid_def by (metis bit_0_eq bot_apply bot_bool_def)
qed

text \<open>Linking a fresh, zeroed table into a missing entry.\<close>

lemma link_table:
  assumes inv: "kmem_inv s F" and tree: "ptree (Suc l) (k_mem s) pt" and x: "x \<in> idx"
    and off: "table_pages (Suc l) (k_mem s) pt \<inter> F = {}" and "F \<noteq> {}"
  obtains p t where "kalloc s = Inr (p, t)" "p \<in> F" "p \<noteq> 0"
    and "\<And>u. u = t\<lparr>k_mem := st64 (memset (k_mem t) p 0 4096) (pt + 8 * x) (PA2PTE p OR PTE_V)\<rparr> \<Longrightarrow>
      kmem_inv u (F - {p}) \<and> mem_only s u \<and>
      ptree l (k_mem u) p \<and> table_pages l (k_mem u) p = {p} \<and> (\<forall>va. pte l (k_mem u) p va = 0) \<and>
      entry (k_mem u) pt x = PA2PTE p OR PTE_V \<and> valid (PA2PTE p OR PTE_V) \<and> PTE2PA (PA2PTE p OR PTE_V) = p \<and>
      (\<forall>y \<in> idx. y \<noteq> x \<longrightarrow> entry (k_mem u) pt y = entry (k_mem s) pt y) \<and>
      (\<forall>q. q \<noteq> p \<and> q \<noteq> pt \<longrightarrow> same_page (k_mem s) (k_mem u) q)"
proof -
  obtain p t where t: "kalloc s = Inr (p, t)" "p \<in> F" "kmem_inv t (F - {p})"
      "t = s\<lparr>k_free := ld64 (k_mem s) p, k_mem := memset (k_mem s) p 5 4096\<rparr>"
    using kalloc_some [OF inv \<open>F \<noteq> {}\<close>] by blast
  have pg: "phys_page s p" by (rule kmem_inv_pages [OF inv t(2)])
  then have p: "page_aligned p" "p \<noteq> 0" by (auto simp: phys_page_def)
  have pt: "page_aligned pt" "pt \<notin> F" using ptree_root [OF tree] off by auto
  then have "pt \<noteq> p" using t(2) by auto
  note a = entry_addr [OF pt(1) x]
  define u where "u = t\<lparr>k_mem := st64 (memset (k_mem t) p 0 4096) (pt + 8 * x) (PA2PTE p OR PTE_V)\<rparr>"
  have same5: "same_page (k_mem s) (k_mem t) q" if "q \<noteq> p" for q
    using t(4) p that by (simp add: memset_same_page)
  have same: "same_page (k_mem t) (k_mem u) q" if "q \<noteq> p" "q \<noteq> pt" for q
    unfolding u_def using that p a
    by (simp, intro same_page_trans [OF memset_same_page st64_same_page]) auto
  have "kmem_inv u (F - {p})"
    by (rule kmem_inv_frame [OF t(3)]) (use pt(2) same in \<open>auto simp: u_def\<close>)
  moreover have "mem_only s u"
    using mem_only_trans [OF mem_only_free mem_only_mem] by (simp add: u_def t(4))
  moreover have "entry (k_mem u) p y = 0" if "y \<in> idx" for y
  proof -
    have "same_page (memset (k_mem t) p 0 4096) (k_mem u) p"
      unfolding u_def using a \<open>pt \<noteq> p\<close> by (simp add: st64_same_page)
    then show ?thesis using entry_zero_page [OF p(1) that] entry_same_page [OF p(1) that] by simp
  qed
  then have "ptree l (k_mem u) p \<and> table_pages l (k_mem u) p = {p} \<and> (\<forall>va. pte l (k_mem u) p va = 0)"
    using ptree_zero [OF p] by blast
  moreover have "entry (k_mem u) pt y = (if y = x then PA2PTE p OR PTE_V else entry (k_mem s) pt y)"
    if "y \<in> idx" for y
  proof -
    have "same_page (k_mem s) (memset (k_mem t) p 0 4096) pt"
      using same5 [of pt] \<open>pt \<noteq> p\<close> p(1) by (metis memset_same_page same_page_trans)
    then show ?thesis
      unfolding u_def using entry_st64 [OF pt(1) that x] entry_same_page [OF pt(1) that] by simp
  qed
  moreover have "same_page (k_mem s) (k_mem u) q" if "q \<noteq> p" "q \<noteq> pt" for q
    using same5 same that same_page_trans by blast
  ultimately show thesis
    using that [OF t(1,2) p(2)] new_table_entry [OF pg] x unfolding u_def by simp
qed

text \<open>Growing a subtree grows the tree, whether the subtree was there or is new.\<close>

lemma grown_child:
  assumes tree: "ptree (Suc l) (k_mem s) pt" and off: "table_pages (Suc l) (k_mem s) pt \<inter> F = {}"
    and x: "x \<in> idx" "valid (entry (k_mem s) pt x)" "c = PTE2PA (entry (k_mem s) pt x)" and t: "grown l c s F t G"
  shows "grown (Suc l) pt s F t G \<and> entry (k_mem t) pt x = entry (k_mem s) pt x"
proof -
  let ?m = "k_mem s"
  have c: "pt \<notin> table_pages l ?m c" using ptree_child [OF tree x(1,2)] x(3) by blast
  have same: "same_page ?m (k_mem t) p" if "p \<notin> table_pages l ?m c" "p \<notin> F" for p
    using t that by (simp add: grown_def)
  have pt: "page_aligned pt" "pt \<notin> F" using ptree_root [OF tree] off by auto
  have e: "entry (k_mem t) pt y = entry ?m pt y" if "y \<in> idx" for y
    using entry_same_page [OF pt(1) that same [OF c pt(2)]] .
  have dis: "table_pages l ?m c \<inter> rest l ?m pt x = {}" using rest_disjoint [OF tree x(1,2)] x(3) by simp
  have all: "table_pages (Suc l) ?m pt = rest l ?m pt x \<union> table_pages l ?m c"
    using table_pages_rest [OF x(1), of l ?m pt] x by simp
  have "ptree (Suc l) (k_mem t) pt \<and> table_pages (Suc l) (k_mem t) pt = rest l ?m pt x \<union> table_pages l (k_mem t) c \<and>
     (\<forall>vb. pte (Suc l) (k_mem t) pt vb = (if PX (Suc l) vb = x then pte l (k_mem t) c vb else pte (Suc l) ?m pt vb))"
  proof (rule ptree_graft [OF tree x(1)])
    show "same_page ?m (k_mem t) p" if "p \<in> rest l ?m pt x" for p
      using dis off all that by (intro same) auto
    show "table_pages l (k_mem t) c \<inter> rest l ?m pt x = {}"
      using t dis off all by (auto simp: grown_def)
  qed (use e x t in \<open>auto simp: grown_def\<close>)
  then show ?thesis using t all x e by (auto simp: grown_def fun_eq_iff)
qed

lemma grown_link:
  assumes tree: "ptree (Suc l) (k_mem s) pt" and off: "table_pages (Suc l) (k_mem s) pt \<inter> F = {}"
    and x: "x \<in> idx" "\<not> valid (entry (k_mem s) pt x)" and p: "p \<in> F"
    and u: "mem_only s u" "table_pages l (k_mem u) p = {p}" "\<forall>va. pte l (k_mem u) p va = 0"
      "valid (entry (k_mem u) pt x)" "PTE2PA (entry (k_mem u) pt x) = p"
      "\<forall>y \<in> idx. y \<noteq> x \<longrightarrow> entry (k_mem u) pt y = entry (k_mem s) pt y"
      "\<forall>q. q \<noteq> p \<and> q \<noteq> pt \<longrightarrow> same_page (k_mem s) (k_mem u) q"
    and t: "grown l p u (F - {p}) t G"
  shows "grown (Suc l) pt s F t (insert p G) \<and> entry (k_mem t) pt x = entry (k_mem u) pt x"
proof -
  let ?m = "k_mem s"
  have pt: "page_aligned pt" "pt \<notin> F" "pt \<in> table_pages (Suc l) ?m pt" using ptree_root [OF tree] off by auto
  have same: "same_page (k_mem u) (k_mem t) q" if "q \<notin> F" for q
  proof -
    have "q \<notin> table_pages l (k_mem u) p \<union> (F - {p})" using u(2) that p by auto
    then show ?thesis using t unfolding grown_def by blast
  qed
  have both: "same_page ?m (k_mem t) q" if "q \<notin> F" "q \<noteq> pt" for q
    using u(7) same [OF that(1)] that p by (metis same_page_trans)
  have e: "entry (k_mem t) pt y = entry (k_mem u) pt y" if "y \<in> idx" for y
    using entry_same_page [OF pt(1) that same [OF pt(2)]] .
  have all: "table_pages (Suc l) ?m pt = rest l ?m pt x"
    using table_pages_rest [OF x(1), of l ?m pt] x by simp
  have new: "table_pages l (k_mem t) p = insert p G" "G \<subseteq> F - {p}" "ptree l (k_mem t) p" "pte l (k_mem t) p = (\<lambda>va. 0)"
    using t u by (auto simp: grown_def fun_eq_iff)
  have "ptree (Suc l) (k_mem t) pt \<and> table_pages (Suc l) (k_mem t) pt = rest l ?m pt x \<union> table_pages l (k_mem t) p \<and>
     (\<forall>vb. pte (Suc l) (k_mem t) pt vb = (if PX (Suc l) vb = x then pte l (k_mem t) p vb else pte (Suc l) ?m pt vb))"
  proof (rule ptree_graft [OF tree x(1)])
    show "same_page ?m (k_mem t) q" if "q \<in> rest l ?m pt x" "q \<noteq> pt" for q
      using that off all by (intro both) auto
    show "table_pages l (k_mem t) p \<inter> rest l ?m pt x = {}" using new p off all by auto
  qed (use e u x new in auto)
  moreover have "kmem_inv t (F - insert p G)"
  proof -
    have "F - insert p G = F - {p} - G" by auto
    then show ?thesis using t by (simp add: grown_def)
  qed
  moreover have "pte (Suc l) ?m pt vb = 0" if "PX (Suc l) vb = x" for vb using x that by simp
  moreover have "same_page ?m (k_mem t) q" if "q \<notin> table_pages (Suc l) ?m pt \<union> F" for q
    using that pt by (intro both) auto
  moreover have "mem_only s t" using u(1) t mem_only_trans unfolding grown_def by blast
  ultimately have "grown (Suc l) pt s F t (insert p G)"
    using all new p unfolding grown_def by (simp add: fun_eq_iff del: pte.simps) blast
  then show ?thesis using e x by simp
qed

lemma walk_alloc:
  assumes "kmem_inv s F" and "ptree l (k_mem s) pt" and "table_pages l (k_mem s) pt \<inter> F = {}"
  shows "\<exists>t G. walk_loop l pt va True s = Inr (slot l (k_mem t) pt va, t) \<and> grown l pt s F t G \<and>
     (slot l (k_mem t) pt va = 0 \<longrightarrow> F = G)"
  using assms
proof (induction l arbitrary: pt s F)
  case 0
  then show ?case
    by (intro exI [of _ s] exI [of _ "{}"]) (simp add: grown_def ret_def entry_addr_nonzero)
next
  case (Suc l)
  let ?x = "PX (Suc l) va" and ?m = "k_mem s"
  note inv = Suc.prems(1) and tree = Suc.prems(2) and off = Suc.prems(3)
  show ?case
  proof (cases "valid (entry ?m pt ?x)")
    case True
    let ?c = "PTE2PA (entry ?m pt ?x)"
    have c: "ptree l ?m ?c" "table_pages l ?m ?c \<inter> F = {}"
      using ptree_child [OF tree PX_idx True] off by blast+
    obtain t G where t: "walk_loop l ?c va True s = Inr (slot l (k_mem t) ?c va, t)" "grown l ?c s F t G"
        "slot l (k_mem t) ?c va = 0 \<longrightarrow> F = G"
      using Suc.IH [OF inv c] by blast
    note g = grown_child [OF tree off PX_idx True refl t(2)]
    then have "slot (Suc l) (k_mem t) pt va = slot l (k_mem t) ?c va" using True by simp
    moreover have "walk_loop (Suc l) pt va True s = walk_loop l ?c va True s"
      using True by (simp add: bnd_def gets_def entry_def valid_def)
    ultimately show ?thesis using t g by metis
  next
    case missing: False
    show ?thesis
    proof (cases "F = {}")
      case True
      then have "walk_loop (Suc l) pt va True s = Inr (0, s)"
        using missing inv by (simp add: bnd_def gets_def entry_def valid_def kalloc_empty ret_def)
      then show ?thesis
        using missing True inv tree by (intro exI [of _ s] exI [of _ "{}"]) (simp add: grown_def)
    next
      case False
      obtain p s1 where p: "kalloc s = Inr (p, s1)" "p \<in> F" "p \<noteq> 0" and link:
        "\<And>u. u = s1\<lparr>k_mem := st64 (memset (k_mem s1) p 0 4096) (pt + 8 * ?x) (PA2PTE p OR PTE_V)\<rparr> \<Longrightarrow>
         kmem_inv u (F - {p}) \<and> mem_only s u \<and>
         ptree l (k_mem u) p \<and> table_pages l (k_mem u) p = {p} \<and> (\<forall>va. pte l (k_mem u) p va = 0) \<and>
         entry (k_mem u) pt ?x = PA2PTE p OR PTE_V \<and> valid (PA2PTE p OR PTE_V) \<and> PTE2PA (PA2PTE p OR PTE_V) = p \<and>
         (\<forall>y \<in> idx. y \<noteq> ?x \<longrightarrow> entry (k_mem u) pt y = entry (k_mem s) pt y) \<and>
         (\<forall>q. q \<noteq> p \<and> q \<noteq> pt \<longrightarrow> same_page (k_mem s) (k_mem u) q)"
        using link_table [OF inv tree PX_idx off False] by blast
      define u where "u = s1\<lparr>k_mem := st64 (memset (k_mem s1) p 0 4096) (pt + 8 * ?x) (PA2PTE p OR PTE_V)\<rparr>"
      note u = link [OF u_def]
      obtain t G where t: "walk_loop l p va True u = Inr (slot l (k_mem t) p va, t)" "grown l p u (F - {p}) t G"
          "slot l (k_mem t) p va = 0 \<longrightarrow> F - {p} = G"
        using Suc.IH [of u "F - {p}" p] u by auto
      have g: "grown (Suc l) pt s F t (insert p G) \<and> entry (k_mem t) pt ?x = entry (k_mem u) pt ?x"
        by (rule grown_link [OF tree off PX_idx missing p(2)]) (use u t in auto)
      then have "slot (Suc l) (k_mem t) pt va = slot l (k_mem t) p va" using u by simp
      moreover have "walk_loop (Suc l) pt va True s = walk_loop l p va True u"
        using missing p by (simp add: bnd_def gets_def entry_def valid_def andthen_def modify_def u_def)
      ultimately show ?thesis using t g p(2) by (metis insert_Diff)
    qed
  qed
qed

text \<open>A walk that may not allocate only looks.\<close>

lemma walk_lookup: "walk_loop l pt va False s = Inr (slot l (k_mem s) pt va, s)"
  by (induction l arbitrary: pt) (simp_all add: bnd_def gets_def ret_def entry_def valid_def)

lemma walk_eq: "a < MAXVA \<Longrightarrow> walk pt a alloc s = walk_loop 2 pt a alloc s"
  by (simp add: walk_def andthen_def bnd_def panic_if_def skip_def ret_def flip: not_less)

section \<open>Mapping pages\<close>

definition tables_grow :: "u64 \<Rightarrow> 'a kmem_scheme \<Rightarrow> u64 set \<Rightarrow> 'a kmem_scheme \<Rightarrow> u64 set \<Rightarrow> bool" where
  "tables_grow pt s F t G \<longleftrightarrow> G \<subseteq> F \<and> kmem_inv t (F - G) \<and> mem_only s t \<and>
     ptree 2 (k_mem t) pt \<and> table_pages 2 (k_mem t) pt = table_pages 2 (k_mem s) pt \<union> G \<and>
     (\<forall>p. p \<notin> table_pages 2 (k_mem s) pt \<union> F \<longrightarrow> same_page (k_mem s) (k_mem t) p)"

lemma grown_tables: "grown 2 pt s F t G \<Longrightarrow> tables_grow pt s F t G \<and> pte 2 (k_mem t) pt = pte 2 (k_mem s) pt"
  by (simp add: grown_def tables_grow_def)

lemma tables_grow_trans:
  assumes "tables_grow pt s F t G" and "tables_grow pt t (F - G) u H"
  shows "tables_grow pt s F u (G \<union> H)"
proof -
  note t = assms(1) [unfolded tables_grow_def] and u = assms(2) [unfolded tables_grow_def]
  have "F - (G \<union> H) = F - G - H" by auto
  moreover have "mem_only s u" using t u mem_only_trans by blast
  moreover have "same_page (k_mem s) (k_mem u) p" if p: "p \<notin> table_pages 2 (k_mem s) pt \<union> F" for p
  proof -
    have "p \<notin> table_pages 2 (k_mem t) pt \<union> (F - G)" using t p by auto
    then show ?thesis using t u p same_page_trans by blast
  qed
  ultimately show ?thesis using t u unfolding tables_grow_def by (simp add: Un_assoc) blast
qed

lemma same_vpn_2:
  assumes "page_aligned a" "page_aligned b" "a < MAXVA" "b < MAXVA"
  shows "same_vpn 2 a b \<longleftrightarrow> a = b"
proof
  assume "same_vpn 2 a b"
  then have "PX 2 a = PX 2 b" "PX 1 a = PX 1 b" "PX 0 a = PX 0 b" by (simp_all add: same_vpn_def)
  then show "a = b" using PX_inj assms by blast
qed (simp add: same_vpn_def)

text \<open>Storing an entry where the walk found its place.\<close>

lemma store_entry:
  assumes inv: "kmem_inv s F" and tree: "ptree 2 (k_mem s) pt" and off: "table_pages 2 (k_mem s) pt \<inter> F = {}"
    and sl: "slot 2 (k_mem s) pt a \<noteq> 0" and a: "page_aligned a" "a < MAXVA"
    and t: "t = s\<lparr>k_mem := st64 (k_mem s) (slot 2 (k_mem s) pt a) v\<rparr>"
  shows "tables_grow pt s F t {} \<and>
     (\<forall>b. page_aligned b \<and> b < MAXVA \<longrightarrow> pte 2 (k_mem t) pt b = (if b = a then v else pte 2 (k_mem s) pt b))"
proof -
  note f = slot_facts(1) [OF tree, of a] and st = ptree_store [OF tree sl, of v]
  have same: "same_page (k_mem s) (k_mem t) p" if "p \<notin> table_pages 2 (k_mem s) pt" for p
    using f sl that unfolding t by (simp, intro st64_same_page) auto
  have "kmem_inv t F"
    by (rule kmem_inv_frame [OF inv]) (use off same in \<open>auto simp: t\<close>)
  then have "tables_grow pt s F t {}" using st same by (simp add: tables_grow_def t)
  moreover have "pte 2 (k_mem t) pt b = (if b = a then v else pte 2 (k_mem s) pt b)"
    if "page_aligned b" "b < MAXVA" for b
    using st same_vpn_2 [OF that(1) a(1) that(2) a(2)] by (simp add: t)
  ultimately show ?thesis by blast
qed

text \<open>The entries after \<open>k\<close> pages from \<open>a\<close> on have been mapped to the pages from \<open>pa\<close> on.\<close>

definition mapped :: "u64 \<Rightarrow> u64 \<Rightarrow> nat \<Rightarrow> u64 \<Rightarrow> u64 \<Rightarrow> mem \<Rightarrow> mem \<Rightarrow> bool" where
  "mapped pt a k pa perm m m' \<longleftrightarrow>
     (\<forall>b. page_aligned b \<and> b < MAXVA \<longrightarrow> pte 2 m' pt b =
        (if a \<le> b \<and> unat b < unat a + 4096 * k then PA2PTE (pa + (b - a)) OR perm OR PTE_V else pte 2 m pt b))"

lemma mapped_0: "pte 2 m' pt = pte 2 m pt \<Longrightarrow> mapped pt a 0 pa perm m m'"
  by (auto simp: mapped_def word_le_nat_alt)

lemma mapped_step:
  assumes a: "page_aligned a" "a < MAXVA"
    and one: "\<forall>b. page_aligned b \<and> b < MAXVA \<longrightarrow>
      pte 2 m' pt b = (if b = a then PA2PTE pa OR perm OR PTE_V else pte 2 m pt b)"
    and more: "mapped pt (a + PGSIZE) k (pa + PGSIZE) perm m' m''"
  shows "mapped pt a (Suc k) pa perm m m''"
  unfolding mapped_def
proof (intro allI impI)
  fix b assume b: "page_aligned b \<and> b < MAXVA"
  have step: "unat (a + PGSIZE) = unat a + 4096" by (rule below_MAXVA_step [OF a(2)])
  obtain i j where ij: "unat a = 4096 * i" "unat b = 4096 * j" using a(1) b by (auto elim!: page_alignedE)
  have "pa + PGSIZE + (b - (a + PGSIZE)) = pa + (b - a)" by simp
  then have "pte 2 m'' pt b = (if a + PGSIZE \<le> b \<and> unat b < unat (a + PGSIZE) + 4096 * k
      then PA2PTE (pa + (b - a)) OR perm OR PTE_V else pte 2 m' pt b)"
    using more b unfolding mapped_def by metis
  moreover have "a + PGSIZE \<le> b \<and> unat b < unat (a + PGSIZE) + 4096 * k \<longleftrightarrow>
      b \<noteq> a \<and> a \<le> b \<and> unat b < unat a + 4096 * Suc k"
    using step ij by (auto simp: word_le_nat_alt word_unat_eq_iff)
  ultimately show "pte 2 m'' pt b = (if a \<le> b \<and> unat b < unat a + 4096 * Suc k
      then PA2PTE (pa + (b - a)) OR perm OR PTE_V else pte 2 m pt b)"
    using one b by auto
qed

text \<open>One round of the loop of \<^verbatim>\<open>mappages\<close>.\<close>

lemma map_one:
  assumes inv: "kmem_inv s F" and tree: "ptree 2 (k_mem s) pt" and off: "table_pages 2 (k_mem s) pt \<inter> F = {}"
    and a: "page_aligned a" "a < MAXVA" and free: "\<not> valid (pte 2 (k_mem s) pt a)"
  obtains (full) t where "walk pt a True s = Inr (0, t)" "tables_grow pt s F t F"
      "pte 2 (k_mem t) pt = pte 2 (k_mem s) pt"
  | (stored) e t u G where "walk pt a True s = Inr (e, t)" "e \<noteq> 0" "ld64 (k_mem t) e AND PTE_V = 0"
      "u = t\<lparr>k_mem := st64 (k_mem t) e v\<rparr>" "tables_grow pt s F u G"
      "\<forall>b. page_aligned b \<and> b < MAXVA \<longrightarrow> pte 2 (k_mem u) pt b = (if b = a then v else pte 2 (k_mem s) pt b)"
proof -
  obtain t G where t: "walk_loop 2 pt a True s = Inr (slot 2 (k_mem t) pt a, t)" "grown 2 pt s F t G"
      "slot 2 (k_mem t) pt a = 0 \<longrightarrow> F = G"
    using walk_alloc [OF inv tree off] by blast
  note g = grown_tables [OF t(2)]
  let ?e = "slot 2 (k_mem t) pt a"
  have w: "walk pt a True s = Inr (?e, t)"
    using t(1) a(2) by (simp add: walk_eq)
  show thesis
  proof (cases "?e = 0")
    case True
    then show thesis using full w g t(3) by auto
  next
    case False
    have t': "kmem_inv t (F - G)" "ptree 2 (k_mem t) pt" "table_pages 2 (k_mem t) pt \<inter> (F - G) = {}"
      using g off by (auto simp: tables_grow_def)
    have "ld64 (k_mem t) ?e = pte 2 (k_mem s) pt a"
      using slot_facts(1) [OF t'(2), of a] False g by simp
    then have "ld64 (k_mem t) ?e AND PTE_V = 0" using free by (simp add: valid_def)
    moreover note st = store_entry [OF t' False a refl, of v]
    moreover have "tables_grow pt s F (t\<lparr>k_mem := st64 (k_mem t) ?e v\<rparr>) (G \<union> {})"
      by (rule tables_grow_trans [OF conjunct1 [OF g] conjunct1 [OF st]])
    ultimately show thesis using stored [OF w False _ refl] g by simp
  qed
qed

lemma mappages_loop_maps:
  assumes "kmem_inv s F" and "ptree 2 (k_mem s) pt" and "table_pages 2 (k_mem s) pt \<inter> F = {}"
    and "page_aligned a" and "unat lst = unat a + 4096 * n" and "lst < MAXVA"
    and "\<forall>b. page_aligned b \<and> a \<le> b \<and> b \<le> lst \<longrightarrow> \<not> valid (pte 2 (k_mem s) pt b)"
  shows "\<exists>r t G k. mappages_loop pt a lst pa perm s = Inr (r, t) \<and> tables_grow pt s F t G \<and>
     mapped pt a k pa perm (k_mem s) (k_mem t) \<and> (if r = 0 then k = Suc n else r = -1 \<and> F = G \<and> k \<le> n)"
  using assms
proof (induction n arbitrary: a pa s F)
  case (0 a pa s F)
  have a: "a = lst" using 0(5) by (simp add: word_unat_eq_iff)
  then have a: "a = lst" "a < MAXVA" "\<not> valid (pte 2 (k_mem s) pt a)" using 0(4,6,7) by simp_all
  show ?case
  proof (cases rule: map_one [OF 0(1-4) a(2,3), where v = "PA2PTE pa OR perm OR PTE_V", case_names full stored])
    case (full t)
    then show ?thesis using mapped_0 [OF full(3)]
      by (intro exI [of _ "-1"] exI [of _ t] exI [of _ F] exI [of _ 0]) (simp add: mappages_loop.simps [of pt a])
  next
    case (stored e t u G)
    then have "mapped pt a (Suc 0) pa perm (k_mem s) (k_mem u)"
      using 0(4) a(2) by (intro mapped_step) (auto intro: mapped_0)
    moreover have "mappages_loop pt a lst pa perm s = Inr (0, u)"
      using stored a(1) by (subst mappages_loop.simps) (simp add: Let_def)
    ultimately show ?thesis using stored(5) by (metis (full_types))
  qed
next
  case (Suc n a pa s F)
  have lt: "unat a < unat lst" using Suc.prems(5) by simp
  then have a: "a < MAXVA" "a \<noteq> lst" "\<not> valid (pte 2 (k_mem s) pt a)"
    using Suc.prems(4,6,7) by (auto simp: word_less_nat_alt word_le_nat_alt)
  show ?case
  proof (cases rule: map_one [OF Suc.prems(1-4) a(1,3), where v = "PA2PTE pa OR perm OR PTE_V", case_names full stored])
    case (full t)
    then show ?thesis using mapped_0 [OF full(3)]
      by (intro exI [of _ "-1"] exI [of _ t] exI [of _ F] exI [of _ 0]) (simp add: mappages_loop.simps [of pt a])
  next
    case (stored e t u G)
    have step: "unat (a + PGSIZE) = unat a + 4096" by (rule below_MAXVA_step [OF a(1)])
    obtain r v H k where "mappages_loop pt (a + PGSIZE) lst (pa + PGSIZE) perm u = Inr (r, v)"
        "tables_grow pt u (F - G) v H" "mapped pt (a + PGSIZE) k (pa + PGSIZE) perm (k_mem u) (k_mem v)"
        "if r = 0 then k = Suc n else r = -1 \<and> F - G = H \<and> k \<le> n"
    proof -
      have u: "kmem_inv u (F - G)" "ptree 2 (k_mem u) pt" "table_pages 2 (k_mem u) pt \<inter> (F - G) = {}"
        using stored(5) Suc.prems(3) by (auto simp: tables_grow_def)
      have "page_aligned (a + PGSIZE)" using Suc.prems(4) step by (simp add: page_aligned_unat)
      moreover have "unat lst = unat (a + PGSIZE) + 4096 * n" using Suc.prems(5) step by simp
      moreover have "\<not> valid (pte 2 (k_mem u) pt b)" if b: "page_aligned b" "a + PGSIZE \<le> b" "b \<le> lst" for b
      proof -
        have "b < MAXVA" using b(3) Suc.prems(6) by simp
        moreover have "a \<le> b" "b \<noteq> a" using b(2) step by (auto simp: word_le_nat_alt)
        ultimately show ?thesis using stored(6) b Suc.prems(7) by simp
      qed
      ultimately show ?thesis using Suc.IH [OF u _ _ Suc.prems(6)] that by blast
    qed
    moreover have "mapped pt a (Suc k) pa perm (k_mem s) (k_mem v)"
      using mapped_step [OF Suc.prems(4) a(1) stored(6)] calculation by blast
    moreover have "tables_grow pt s F v (G \<union> H)" using tables_grow_trans stored(5) calculation by blast
    moreover have "G \<subseteq> F" using stored(5) by (simp add: tables_grow_def)
    ultimately show ?thesis using stored a(2)
      by (intro exI [of _ r] exI [of _ v] exI [of _ "G \<union> H"] exI [of _ "Suc k"])
        (auto simp: mappages_loop.simps [of pt a] Let_def split: if_splits)
  qed
qed

end
