(* ===== verification/Usermem.thy ===== *)
theory Usermem
  imports Pagetable
begin

text \<open>
  User memory as the page table shows it. \<^verbatim>\<open>copyin\<close>, \<^verbatim>\<open>copyout\<close> and \<^verbatim>\<open>copyinstr\<close> of
  \<^verbatim>\<open>kernel/vm.c\<close> work page by page through \<^verbatim>\<open>walkaddr\<close>; the lemmas show that they read and write
  the memory of the process, seen as one array of bytes indexed by virtual addresses.
\<close>

section \<open>The user address space\<close>

text \<open>A page the process may access, and the physical page behind it.\<close>

definition user_page :: "mem \<Rightarrow> u64 \<Rightarrow> u64 \<Rightarrow> bool" where
  "user_page m pt a \<longleftrightarrow> page_aligned a \<and> a < MAXVA \<and> valid (pte 2 m pt a) \<and>
     pte 2 m pt a AND PTE_U \<noteq> 0 \<and> PTE2PA (pte 2 m pt a) \<noteq> 0"

definition frame_of :: "mem \<Rightarrow> u64 \<Rightarrow> u64 \<Rightarrow> u64" where
  "frame_of m pt a = PTE2PA (pte 2 m pt a)"

text \<open>
  A table whose user pages have different physical pages, none of which is a page of the
  table itself.
\<close>

definition uspace :: "mem \<Rightarrow> u64 \<Rightarrow> bool" where
  "uspace m pt \<longleftrightarrow> ptree 2 m pt \<and> (\<forall>a. user_page m pt a \<longrightarrow> frame_of m pt a \<notin> table_pages 2 m pt) \<and>
     (\<forall>a b. user_page m pt a \<and> user_page m pt b \<and> a \<noteq> b \<longrightarrow> frame_of m pt a \<noteq> frame_of m pt b)"

text \<open>The byte a process sees at a virtual address.\<close>

definition umem :: "mem \<Rightarrow> u64 \<Rightarrow> u64 \<Rightarrow> u8" where
  "umem m pt va = m (frame_of m pt (PGROUNDDOWN va) + (va - PGROUNDDOWN va))"

lemma PTE2PA_aligned [simp]: "page_aligned (PTE2PA e)"
  by (simp add: page_aligned_bits PTE2PA_def bit_simps)

lemma walkaddr_eq:
  assumes "ptree 2 (k_mem s) pt" and "page_aligned a"
  shows "walkaddr pt a s = Inr (if user_page (k_mem s) pt a then frame_of (k_mem s) pt a else 0, s)"
proof (cases "a < MAXVA")
  case True
  then have w: "walk pt a False s = Inr (slot 2 (k_mem s) pt a, s)" by (simp add: walk_eq walk_lookup)
  show ?thesis
  proof (cases "slot 2 (k_mem s) pt a = 0")
    case True
    then have "\<not> valid (pte 2 (k_mem s) pt a)" using slot_facts(2) [OF assms(1), of a] by simp
    then show ?thesis using w True \<open>a < MAXVA\<close>
      by (simp add: walkaddr_def bnd_def ret_def user_page_def flip: not_less)
  next
    case False
    then have "ld64 (k_mem s) (slot 2 (k_mem s) pt a) = pte 2 (k_mem s) pt a"
      using slot_facts(1) [OF assms(1), of a] by simp
    then show ?thesis using w False \<open>a < MAXVA\<close> assms(2)
      by (auto simp: walkaddr_def bnd_def gets_def ret_def user_page_def frame_of_def valid_def simp flip: not_less)
  qed
next
  case False
  then show ?thesis using False by (auto simp: walkaddr_def ret_def user_page_def not_less)
qed

section \<open>One page\<close>

lemma chunk_eq: "chunk va len = min (4096 - unat (va - PGROUNDDOWN va)) len"
  using PGROUNDDOWN_dist [of va] by (simp add: chunk_def PGSIZE_def unat_sub_if' word_le_nat_alt)

text \<open>A write that stays within the page \<open>p\<close>.\<close>

lemma in_page_iff:
  assumes "page_aligned p" "unat off + n \<le> 4096"
  shows "unat (x - (p + off)) < n \<longleftrightarrow>
     PGROUNDDOWN x = p \<and> unat off \<le> unat (x - p) \<and> unat (x - p) < unat off + n"
    and "unat off \<le> unat (x - p) \<Longrightarrow> unat (x - (p + off)) = unat (x - p) - unat off"
proof -
  define y where "y = x - (p + off)"
  have e: "x - p = off + y" by (simp add: y_def)
  show sub: "unat (x - (p + off)) = unat (x - p) - unat off" if "unat off \<le> unat (x - p)"
    using that unat_sub [of off "x - p"] by (simp add: word_le_nat_alt diff_diff_add)
  show "unat (x - (p + off)) < n \<longleftrightarrow>
     PGROUNDDOWN x = p \<and> unat off \<le> unat (x - p) \<and> unat (x - p) < unat off + n"
  proof
    assume l: "unat (x - (p + off)) < n"
    then have "unat off + unat y < 2 ^ 64" using assms(2) by (simp add: y_def)
    then have "unat (x - p) = unat off + unat y" unfolding e by (simp add: unat_plus_if')
    moreover from this have "PGROUNDDOWN x = p" using l assms by (simp add: PGROUNDDOWN_iff y_def)
    ultimately show "PGROUNDDOWN x = p \<and> unat off \<le> unat (x - p) \<and> unat (x - p) < unat off + n"
      using l by (simp add: y_def)
  next
    assume "PGROUNDDOWN x = p \<and> unat off \<le> unat (x - p) \<and> unat (x - p) < unat off + n"
    then show "unat (x - (p + off)) < n" using sub by linarith
  qed
qed

lemma wr_in_page:
  assumes "page_aligned p" "unat off + length bs \<le> 4096"
  shows "wr_bytes m (p + off) bs x =
     (if PGROUNDDOWN x = p \<and> unat off \<le> unat (x - p) \<and> unat (x - p) < unat off + length bs
      then bs ! (unat (x - p) - unat off) else m x)"
  using in_page_iff [OF assms, of x] assms(2) by (auto simp: wr_bytes_eq)

text \<open>What a process sees at an address is in the physical page behind the address.\<close>

lemma umem_addr:
  assumes "d = va - PGROUNDDOWN va"
  shows "PGROUNDDOWN (frame_of m pt a + d) = frame_of m pt a" "frame_of m pt a + d - frame_of m pt a = d"
  using assms PGROUNDDOWN_dist [of va] by (simp_all add: PGROUNDDOWN_offset frame_of_def)

lemma va_in_page:
  assumes "page_aligned p" "unat (x - p) < 4096"
  shows "unat x = unat p + unat (x - p)"
  using unat_page_offset [OF assms] by simp

text \<open>Writing a piece of one user page changes what the process sees in that piece only.\<close>

lemma umem_write:
  assumes sp: "uspace m pt" and a: "user_page m pt a" and len: "unat off + length bs \<le> 4096"
    and m': "m' = wr_bytes m (frame_of m pt a + off) bs"
  shows "uspace m' pt \<and> pte 2 m' pt = pte 2 m pt \<and>
     (\<forall>va. user_page m pt (PGROUNDDOWN va) \<longrightarrow> umem m' pt va =
        (if PGROUNDDOWN va = a \<and> unat off \<le> unat (va - a) \<and> unat (va - a) < unat off + length bs
         then bs ! (unat (va - a) - unat off) else umem m pt va))"
proof -
  have al: "page_aligned (frame_of m pt a)" by (simp add: frame_of_def)
  have "frame_of m pt a \<notin> table_pages 2 m pt" using sp a by (simp add: uspace_def)
  then have "\<forall>p \<in> table_pages 2 m pt. same_page m m' p"
    unfolding same_page_def m' wr_in_page [OF al len] by auto
  then have tree: "ptree 2 m' pt" "table_pages 2 m' pt = table_pages 2 m pt" "pte 2 m' pt = pte 2 m pt"
    using ptree_frame [of 2 m pt m'] sp by (simp_all add: uspace_def)
  then have up: "user_page m' pt = user_page m pt" "frame_of m' pt = frame_of m pt"
    by (simp_all add: user_page_def frame_of_def fun_eq_iff)
  then have "uspace m' pt" using sp tree by (simp add: uspace_def)
  moreover have "umem m' pt va =
        (if PGROUNDDOWN va = a \<and> unat off \<le> unat (va - a) \<and> unat (va - a) < unat off + length bs
         then bs ! (unat (va - a) - unat off) else umem m pt va)" if u: "user_page m pt (PGROUNDDOWN va)" for va
  proof -
    have "frame_of m pt (PGROUNDDOWN va) = frame_of m pt a \<longleftrightarrow> PGROUNDDOWN va = a"
      using sp u a by (auto simp: uspace_def)
    moreover have "frame_of m pt (PGROUNDDOWN va) + (va - PGROUNDDOWN va) - frame_of m pt a = va - a"
      if "PGROUNDDOWN va = a" using that by simp
    moreover have "m' x = (if PGROUNDDOWN x = frame_of m pt a \<and> unat off \<le> unat (x - frame_of m pt a) \<and>
        unat (x - frame_of m pt a) < unat off + length bs
        then bs ! (unat (x - frame_of m pt a) - unat off) else m x)" for x
      unfolding m' by (rule wr_in_page [OF al len])
    ultimately show ?thesis
      unfolding umem_def up by (simp only: umem_addr(1) [OF refl]) (simp cong: conj_cong)
  qed
  ultimately show ?thesis using tree by blast
qed

section \<open>Copying\<close>

text \<open>The bytes \<open>va\<close> to \<open>va + len\<close> are in pages of the process.\<close>

definition user_range :: "mem \<Rightarrow> u64 \<Rightarrow> u64 \<Rightarrow> nat \<Rightarrow> bool" where
  "user_range m pt va len \<longleftrightarrow> unat va + len \<le> unat MAXVA \<and>
     (\<forall>i < len. user_page m pt (PGROUNDDOWN (va + of_nat i)))"

lemma within_chunk:
  assumes "i < chunk va len"
  shows "PGROUNDDOWN (va + of_nat i) = PGROUNDDOWN va" "unat (va - PGROUNDDOWN va) + i < 4096"
proof -
  show lt: "unat (va - PGROUNDDOWN va) + i < 4096"
    using assms by (simp add: chunk_eq less_diff_conv add.commute)
  then have "unat (va - PGROUNDDOWN va + of_nat i) < 4096" by (simp add: unat_plus_if' unat_of_nat)
  then have "PGROUNDDOWN (PGROUNDDOWN va + (va - PGROUNDDOWN va + of_nat i)) = PGROUNDDOWN va"
    by (rule PGROUNDDOWN_offset [OF PGROUNDDOWN_aligned])
  then show "PGROUNDDOWN (va + of_nat i) = PGROUNDDOWN va" by (simp add: algebra_simps)
qed

text \<open>When a chunk does not use up the bytes, the next one starts right behind it.\<close>

lemma next_chunk:
  assumes "chunk va len < len"
  shows "PGROUNDDOWN va + PGSIZE = va + of_nat (chunk va len)"
proof -
  have "chunk va len = 4096 - unat (va - PGROUNDDOWN va)" using assms by (simp add: chunk_eq)
  then have "of_nat (chunk va len) = (4096 :: u64) - (va - PGROUNDDOWN va)"
    using PGROUNDDOWN_dist [of va] by (simp add: of_nat_diff)
  then show ?thesis by (simp add: PGSIZE_def)
qed

lemma user_range_first: "user_range m pt va len \<Longrightarrow> 0 < len \<Longrightarrow> user_page m pt (PGROUNDDOWN va)"
  by (auto simp: user_range_def dest: spec [of _ 0])

lemma user_range_next:
  assumes "user_range m pt va len" "chunk va len < len"
  shows "user_range m pt (PGROUNDDOWN va + PGSIZE) (len - chunk va len)"
    and "unat (PGROUNDDOWN va + PGSIZE) = unat va + chunk va len"
proof -
  have lt: "unat va + chunk va len < 2 ^ 64"
    using assms unat_u64_lt [of MAXVA] by (simp add: user_range_def)
  then show u: "unat (PGROUNDDOWN va + PGSIZE) = unat va + chunk va len"
    unfolding next_chunk [OF assms(2)] by (rule unat_add_of_nat)
  have "user_page m pt (PGROUNDDOWN (PGROUNDDOWN va + PGSIZE + of_nat i))" if "i < len - chunk va len" for i
  proof -
    have "chunk va len + i < len" using that by simp
    then have "user_page m pt (PGROUNDDOWN (va + of_nat (chunk va len + i)))"
      using assms(1) unfolding user_range_def by blast
    then show ?thesis unfolding next_chunk [OF assms(2)] by (simp add: add.assoc)
  qed
  then show "user_range m pt (PGROUNDDOWN va + PGSIZE) (len - chunk va len)"
    using assms u by (simp add: user_range_def)
qed

lemma copyin_page_ok:
  assumes "ptree 2 (k_mem s) pt" "user_page (k_mem s) pt a"
  shows "copyin_page psz ppt pt a s = Inr (frame_of (k_mem s) pt a, s)"
  using assms walkaddr_eq [OF assms(1), of a]
  by (simp add: copyin_page_def bnd_def ret_def user_page_def frame_of_def)

lemma rd_chunk:
  assumes "n \<le> chunk va len"
  shows "rd_bytes m (frame_of m pt (PGROUNDDOWN va) + (va - PGROUNDDOWN va)) n =
     map (\<lambda>i. umem m pt (va + of_nat i)) [0..<n]"
proof (rule nth_equalityI)
  fix i assume "i < length (rd_bytes m (frame_of m pt (PGROUNDDOWN va) + (va - PGROUNDDOWN va)) n)"
  then have "i < n" "PGROUNDDOWN (va + of_nat i) = PGROUNDDOWN va"
    using assms within_chunk(1) [of i va len] by simp_all
  then show "rd_bytes m (frame_of m pt (PGROUNDDOWN va) + (va - PGROUNDDOWN va)) n ! i =
      map (\<lambda>i. umem m pt (va + of_nat i)) [0..<n] ! i"
    by (simp add: umem_def algebra_simps)
qed simp

lemma copyin_reads:
  assumes "ptree 2 (k_mem s) pt" and "user_range (k_mem s) pt va len"
  shows "copyin psz ppt pt va len acc s =
     Inr ((0, acc @ map (\<lambda>i. umem (k_mem s) pt (va + of_nat i)) [0..<len]), s)"
  using assms(2)
proof (induction len arbitrary: va acc rule: less_induct)
  case (less len)
  show ?case
  proof (cases "len = 0")
    case False
    let ?n = "chunk va len"
    have u: "user_page (k_mem s) pt (PGROUNDDOWN va)" using user_range_first [OF less.prems] False by simp
    then have f: "frame_of (k_mem s) pt (PGROUNDDOWN va) \<noteq> 0" by (simp add: user_page_def frame_of_def)
    have n: "0 < ?n" "?n \<le> len" using False chunk_pos [of len va] by (simp_all add: chunk_eq)
    have rec: "copyin psz ppt pt va len acc s =
        copyin psz ppt pt (PGROUNDDOWN va + PGSIZE) (len - ?n)
          (acc @ map (\<lambda>i. umem (k_mem s) pt (va + of_nat i)) [0..<?n]) s"
      using copyin_page_ok [OF assms(1) u] f False rd_chunk [OF order_refl]
      by (subst copyin.simps) (simp add: Let_def)
    show ?thesis
    proof (cases "?n = len")
      case True
      then show ?thesis unfolding rec by (simp add: copyin.simps)
    next
      case next_page: False
      then have lt: "?n < len" using n by simp
      have "map (\<lambda>i. umem (k_mem s) pt (va + of_nat i)) [0..<?n] @
          map (\<lambda>i. umem (k_mem s) pt (PGROUNDDOWN va + PGSIZE + of_nat i)) [0..<len - ?n] =
          map (\<lambda>i. umem (k_mem s) pt (va + of_nat i)) [0..<len]"
        using n unfolding next_chunk [OF lt]
        by (intro nth_equalityI) (auto simp: nth_append algebra_simps)
      then show ?thesis
        unfolding rec using less.IH [OF _ user_range_next(1) [OF less.prems lt]] n by simp
    qed
  qed (simp add: copyin.simps)
qed

definition user_writable :: "mem \<Rightarrow> u64 \<Rightarrow> u64 \<Rightarrow> nat \<Rightarrow> bool" where
  "user_writable m pt va len \<longleftrightarrow> user_range m pt va len \<and>
     (\<forall>i < len. pte 2 m pt (PGROUNDDOWN (va + of_nat i)) AND PTE_W \<noteq> 0)"

lemma user_writable_next:
  assumes "user_writable m pt va len" "chunk va len < len"
  shows "user_writable m pt (PGROUNDDOWN va + PGSIZE) (len - chunk va len)"
proof -
  have "pte 2 m pt (PGROUNDDOWN (PGROUNDDOWN va + PGSIZE + of_nat i)) AND PTE_W \<noteq> 0"
    if "i < len - chunk va len" for i
  proof -
    have "chunk va len + i < len" using that by simp
    then have "pte 2 m pt (PGROUNDDOWN (va + of_nat (chunk va len + i))) AND PTE_W \<noteq> 0"
      using assms(1) unfolding user_writable_def by blast
    then show ?thesis unfolding next_chunk [OF assms(2)] by (simp add: add.assoc)
  qed
  then show ?thesis using assms user_range_next(1) by (simp add: user_writable_def)
qed

lemma copyout_page_ok:
  assumes "ptree 2 (k_mem s) pt" "user_page (k_mem s) pt a" "pte 2 (k_mem s) pt a AND PTE_W \<noteq> 0"
  shows "copyout_page psz ppt pt a s = Inr (frame_of (k_mem s) pt a, s)"
proof -
  have a: "a < MAXVA" "frame_of (k_mem s) pt a \<noteq> 0" "valid (pte 2 (k_mem s) pt a)"
    using assms(2) by (simp_all add: user_page_def frame_of_def)
  have sl: "slot 2 (k_mem s) pt a \<noteq> 0"
    using slot_facts(2) [OF assms(1), of a] a(3) by auto
  then have "ld64 (k_mem s) (slot 2 (k_mem s) pt a) = pte 2 (k_mem s) pt a"
    using slot_facts(1) [OF assms(1), of a] by simp
  moreover have "walkaddr pt a s = Inr (frame_of (k_mem s) pt a, s)"
    using walkaddr_eq [OF assms(1), of a] assms(2) by (simp add: user_page_def)
  moreover have "walk pt a False s = Inr (slot 2 (k_mem s) pt a, s)"
    using a(1) by (simp add: walk_eq walk_lookup)
  moreover have "\<not> MAXVA \<le> a" using a(1) by simp
  ultimately show ?thesis
    using a(2) sl assms(3)
    by (simp add: copyout_page_def bnd_def andthen_def ret_def gets_def panic_if_def skip_def)
qed

text \<open>The addresses of a chunk.\<close>

lemma chunk_iff:
  assumes "n \<le> chunk va len" and "unat va + n \<le> 2 ^ 64"
  shows "PGROUNDDOWN x = PGROUNDDOWN va \<and> unat (va - PGROUNDDOWN va) \<le> unat (x - PGROUNDDOWN va) \<and>
      unat (x - PGROUNDDOWN va) < unat (va - PGROUNDDOWN va) + n \<longleftrightarrow>
     unat va \<le> unat x \<and> unat x < unat va + n"
    and "PGROUNDDOWN x = PGROUNDDOWN va \<Longrightarrow>
      unat (x - PGROUNDDOWN va) - unat (va - PGROUNDDOWN va) = unat x - unat va"
proof -
  let ?a = "PGROUNDDOWN va"
  have va: "unat va = unat ?a + unat (va - ?a)"
    by (rule va_in_page) (simp_all add: PGROUNDDOWN_dist)
  have x: "unat x = unat ?a + unat (x - ?a)" if "PGROUNDDOWN x = ?a"
    by (rule va_in_page) (use that PGROUNDDOWN_dist [of x] in simp_all)
  have page: "PGROUNDDOWN x = ?a" if "unat va \<le> unat x" "unat x < unat va + n"
  proof -
    have "x = va + of_nat (unat x - unat va)"
      using that(1) by (simp add: of_nat_diff)
    moreover have "unat x - unat va < chunk va len" using that assms(1) by simp
    ultimately show ?thesis using within_chunk(1) by metis
  qed
  show "PGROUNDDOWN x = ?a \<and> unat (va - ?a) \<le> unat (x - ?a) \<and> unat (x - ?a) < unat (va - ?a) + n \<longleftrightarrow>
     unat va \<le> unat x \<and> unat x < unat va + n"
    using va x page by fastforce
  show "unat (x - ?a) - unat (va - ?a) = unat x - unat va" if "PGROUNDDOWN x = ?a"
    using va x [OF that] by simp
qed

lemma copyout_step:
  assumes sp: "uspace (k_mem s) pt" and w: "user_writable (k_mem s) pt va (length src)" and "src \<noteq> []"
    and n: "n = chunk va (length src)"
  shows "\<exists>m. copyout psz ppt pt va src s =
       copyout psz ppt pt (PGROUNDDOWN va + PGSIZE) (drop n src) (s\<lparr>k_mem := m\<rparr>) \<and>
     uspace m pt \<and> pte 2 m pt = pte 2 (k_mem s) pt \<and>
     (\<forall>x. user_page (k_mem s) pt (PGROUNDDOWN x) \<longrightarrow> umem m pt x =
        (if unat va \<le> unat x \<and> unat x < unat va + n then src ! (unat x - unat va)
         else umem (k_mem s) pt x))"
proof -
  let ?a = "PGROUNDDOWN va"
  define m where "m = wr_bytes (k_mem s) (frame_of (k_mem s) pt ?a + (va - ?a)) (take n src)"
  have len: "length (take n src) = n" "n \<le> chunk va (length src)" "unat (va - ?a) + n \<le> 4096"
    using PGROUNDDOWN_dist [of va] by (auto simp: n chunk_eq)
  have len4: "unat (va - ?a) + length (take n src) \<le> 4096" using len by simp
  have u: "user_page (k_mem s) pt ?a" using w \<open>src \<noteq> []\<close> user_range_first [of _ _ _ "length src"]
    by (simp add: user_writable_def)
  have wr: "pte 2 (k_mem s) pt ?a AND PTE_W \<noteq> 0"
    using w \<open>src \<noteq> []\<close> by (auto simp: user_writable_def dest: spec [of _ 0])
  have lt: "unat va + n \<le> 2 ^ 64"
    using w len(1) unat_u64_lt [of MAXVA] by (auto simp: user_writable_def user_range_def n chunk_eq)
  have tree: "ptree 2 (k_mem s) pt" using sp by (simp add: uspace_def)
  have "copyout psz ppt pt va src s = copyout psz ppt pt (?a + PGSIZE) (drop n src) (s\<lparr>k_mem := m\<rparr>)"
    using copyout_page_ok [OF tree u wr] u \<open>src \<noteq> []\<close> unfolding m_def n
    by (subst copyout.simps) (simp add: Let_def user_page_def frame_of_def)
  moreover have "umem m pt x = (if unat va \<le> unat x \<and> unat x < unat va + n then src ! (unat x - unat va)
      else umem (k_mem s) pt x)" if x: "user_page (k_mem s) pt (PGROUNDDOWN x)" for x
    using umem_write [OF sp u len4 m_def] len x chunk_iff [OF len(2) lt, of x] by (auto simp: less_diff_conv2)
  ultimately show ?thesis using umem_write [OF sp u len4 m_def] by blast
qed

lemma copyout_writes:
  assumes "uspace (k_mem s) pt" and "user_writable (k_mem s) pt va (length src)"
  shows "\<exists>m. copyout psz ppt pt va src s = Inr (0, s\<lparr>k_mem := m\<rparr>) \<and> uspace m pt \<and>
     pte 2 m pt = pte 2 (k_mem s) pt \<and>
     (\<forall>x. user_page (k_mem s) pt (PGROUNDDOWN x) \<longrightarrow> umem m pt x =
        (if unat va \<le> unat x \<and> unat x < unat va + length src then src ! (unat x - unat va)
         else umem (k_mem s) pt x))"
  using assms
proof (induction "length src" arbitrary: va src s rule: less_induct)
  case less
  show ?case
  proof (cases "src = []")
    case True
    then show ?thesis using less.prems by (intro exI [of _ "k_mem s"]) (auto simp: copyout.simps)
  next
    case False
    let ?n = "chunk va (length src)" and ?va = "PGROUNDDOWN va + PGSIZE"
    have n: "0 < ?n" "?n \<le> length src" using False chunk_pos [of "length src" va] by (simp_all add: chunk_eq)
    obtain m where m: "copyout psz ppt pt va src s = copyout psz ppt pt ?va (drop ?n src) (s\<lparr>k_mem := m\<rparr>)"
        "uspace m pt" "pte 2 m pt = pte 2 (k_mem s) pt"
        "\<And>x. user_page (k_mem s) pt (PGROUNDDOWN x) \<Longrightarrow> umem m pt x =
          (if unat va \<le> unat x \<and> unat x < unat va + ?n then src ! (unat x - unat va) else umem (k_mem s) pt x)"
      using copyout_step [OF less.prems False refl] by blast
    have up: "user_page m pt = user_page (k_mem s) pt" using m(3) by (simp add: user_page_def fun_eq_iff)
    show ?thesis
    proof (cases "?n = length src")
      case True
      then show ?thesis using m by (intro exI [of _ m]) (simp add: copyout.simps)
    next
      case False
      then have lt: "?n < length src" using n by simp
      have "user_writable m pt ?va (length (drop ?n src))"
        using user_writable_next [OF less.prems(2) lt] m(3) up by (simp add: user_writable_def user_range_def)
      then obtain m' where m': "copyout psz ppt pt ?va (drop ?n src) (s\<lparr>k_mem := m\<rparr>) = Inr (0, s\<lparr>k_mem := m'\<rparr>)"
          "uspace m' pt" "pte 2 m' pt = pte 2 m pt"
          "\<And>x. user_page m pt (PGROUNDDOWN x) \<Longrightarrow> umem m' pt x =
            (if unat ?va \<le> unat x \<and> unat x < unat ?va + length (drop ?n src)
             then drop ?n src ! (unat x - unat ?va) else umem m pt x)"
        using less.hyps [of "drop ?n src" "s\<lparr>k_mem := m\<rparr>" ?va] m(2) n False by fastforce
      have va: "unat ?va = unat va + ?n"
        using user_range_next(2) [of "k_mem s" pt va "length src"] less.prems(2) lt by (simp add: user_writable_def)
      have "umem m' pt x = (if unat va \<le> unat x \<and> unat x < unat va + length src then src ! (unat x - unat va)
          else umem (k_mem s) pt x)" if "user_page (k_mem s) pt (PGROUNDDOWN x)" for x
        using m'(4) [of x] m(4) [of x] that up va n by auto
      then show ?thesis using m m' by auto
    qed
  qed
qed

section \<open>An address space with one page\<close>

text \<open>A table of three pages that maps the user page 0, readable and writable.\<close>

definition one_page :: mem where
  "one_page = st64 (st64 (st64 (\<lambda>a. 0) 0x80030000 (PA2PTE 0x80031000 OR PTE_V))
     0x80031000 (PA2PTE 0x80032000 OR PTE_V)) 0x80032000 (PA2PTE 0x80033000 OR 0x17)"

lemma ld64_zero: "ld64 (\<lambda>a. 0) a = 0"
proof -
  have "rd_bytes (\<lambda>a. 0) a 8 = replicate 8 0" by (rule nth_equalityI) simp_all
  moreover have "(le_dec (replicate k 0) :: u64) = 0" for k by (induction k) auto
  ultimately show ?thesis by (simp add: ld64_def)
qed

lemma entry_st64_page:
  assumes "page_aligned pt" "page_aligned q" "x \<in> idx"
  shows "entry (st64 m q v) pt x = (if pt = q \<and> x = 0 then v else entry m pt x)"
proof (cases "pt = q")
  case True
  then show ?thesis using entry_st64 [of pt x 0 m v] assms by simp
next
  case False
  then show ?thesis
    using assms entry_same_page [of pt x m "st64 m q v"]
    by (simp add: st64_same_page page_aligned_aligned8 PGROUNDDOWN_id)
qed

lemma one_page_aligned [simp]:
  "page_aligned 0x80030000" "page_aligned 0x80031000" "page_aligned 0x80032000" "page_aligned 0x80033000"
  by (simp_all add: page_aligned_def)

lemma one_page_entry:
  assumes "x \<in> idx"
  shows "entry one_page 0x80030000 x = (if x = 0 then 0x2000c401 else 0)"
    and "entry one_page 0x80031000 x = (if x = 0 then 0x2000c801 else 0)"
    and "entry one_page 0x80032000 x = (if x = 0 then 0x2000cc17 else 0)"
  using assms by (simp_all add: one_page_def entry_st64_page) (simp_all add: entry_def ld64_zero PA2PTE_def PTE_V_def)

lemma one_page_valid: "valid 0x2000c401" "valid 0x2000c801" "valid 0x2000cc17"
    "PTE2PA 0x2000c401 = 0x80031000" "PTE2PA 0x2000c801 = 0x80032000" "PTE2PA 0x2000cc17 = 0x80033000"
  by (simp_all add: valid_def PTE_V_def PTE2PA_def)

lemma one_page_tree:
  "table_pages 2 one_page 0x80030000 = {0x80030000, 0x80031000, 0x80032000}" "ptree 2 one_page 0x80030000"
proof -
  have l0: "table_pages 0 one_page 0x80032000 = {0x80032000}" by simp
  have e1: "{x \<in> idx. valid (entry one_page 0x80031000 x)} = {0}"
    by (auto simp: one_page_entry one_page_valid split: if_splits)
  have e2: "{x \<in> idx. valid (entry one_page 0x80030000 x)} = {0}"
    by (auto simp: one_page_entry one_page_valid split: if_splits)
  have l1: "table_pages (Suc 0) one_page 0x80031000 = {0x80031000, 0x80032000}"
    unfolding table_pages.simps e1 by (simp add: one_page_entry one_page_valid)
  show "table_pages 2 one_page 0x80030000 = {0x80030000, 0x80031000, 0x80032000}"
    unfolding numeral_2_eq_2 table_pages.simps(2) [of "Suc 0"] e2 by (simp add: one_page_entry one_page_valid l1)
  have "ptree (Suc 0) one_page 0x80031000"
    unfolding ptree.simps by (auto simp: one_page_entry one_page_valid split: if_splits)
  then show "ptree 2 one_page 0x80030000"
    unfolding numeral_2_eq_2 ptree.simps(2) [of "Suc 0"] by (auto simp: one_page_entry one_page_valid l1 split: if_splits)
qed

lemma one_page_pte: "pte 2 one_page 0x80030000 va = (if PX 2 va = 0 \<and> PX 1 va = 0 \<and> PX 0 va = 0 then 0x2000cc17 else 0)"
  unfolding numeral_2_eq_2 by (simp add: one_page_entry one_page_valid)

lemma one_page_user: "user_page one_page 0x80030000 a \<longleftrightarrow> a = 0"
proof -
  have "PX k 0 = 0" for k by (simp add: PX_def)
  then have "page_aligned a \<and> a < MAXVA \<and> PX 2 a = 0 \<and> PX 1 a = 0 \<and> PX 0 a = 0 \<longleftrightarrow> a = 0"
    using PX_inj [of a 0] by (auto simp: MAXVA_def page_aligned_def)
  then show ?thesis by (auto simp: user_page_def one_page_pte one_page_valid PTE_U_def split: if_splits)
qed

lemma one_page_space: "uspace one_page 0x80030000"
  by (auto simp: uspace_def one_page_tree one_page_user frame_of_def one_page_pte PX_def one_page_valid)

lemma one_page_writable:
  assumes "unat va + len \<le> 4096"
  shows "user_writable one_page 0x80030000 va len"
proof -
  have "PGROUNDDOWN (va + of_nat i) = 0" if "i < len" for i
    using PGROUNDDOWN_iff [of 0 "va + of_nat i"] that assms
    by (simp add: page_aligned_def unat_add_of_nat)
  moreover have "pte 2 one_page 0x80030000 0 AND PTE_W \<noteq> 0"
    by (simp add: one_page_pte PX_def PTE_W_def)
  ultimately show ?thesis
    using assms by (simp add: user_writable_def user_range_def one_page_user MAXVA_def)
qed

section \<open>What the kernel relies on\<close>

text \<open>
  C24. \<^verbatim>\<open>copyout\<close> stores into user memory and \<^verbatim>\<open>copyin\<close> loads from it. When the pages of the
  range are mapped, user-accessible and writable, copying out succeeds and changes what the process
  sees at exactly the addresses of the range, across page boundaries too, and changes neither the
  page table nor any other byte of the process; copying the range in again returns the bytes.
\<close>

theorem copyout_copyin:
  assumes "uspace (k_mem s) pt" and "user_writable (k_mem s) pt va (length src)"
  shows "\<exists>m. copyout psz ppt pt va src s = Inr (0, s\<lparr>k_mem := m\<rparr>) \<and>
     copyin psz' ppt' pt va (length src) [] (s\<lparr>k_mem := m\<rparr>) = Inr ((0, src), s\<lparr>k_mem := m\<rparr>) \<and>
     uspace m pt \<and> pte 2 m pt = pte 2 (k_mem s) pt \<and>
     (\<forall>x. user_page (k_mem s) pt (PGROUNDDOWN x) \<and> (unat x < unat va \<or> unat va + length src \<le> unat x) \<longrightarrow>
        umem m pt x = umem (k_mem s) pt x)"
proof -
  obtain m where m: "copyout psz ppt pt va src s = Inr (0, s\<lparr>k_mem := m\<rparr>)" "uspace m pt"
      "pte 2 m pt = pte 2 (k_mem s) pt"
      "\<And>x. user_page (k_mem s) pt (PGROUNDDOWN x) \<Longrightarrow> umem m pt x =
        (if unat va \<le> unat x \<and> unat x < unat va + length src then src ! (unat x - unat va)
         else umem (k_mem s) pt x)"
    using copyout_writes [OF assms] by blast
  have r: "user_range (k_mem s) pt va (length src)" using assms(2) by (simp add: user_writable_def)
  have "user_page m pt = user_page (k_mem s) pt" using m(3) by (simp add: user_page_def fun_eq_iff)
  then have "user_range (k_mem (s\<lparr>k_mem := m\<rparr>)) pt va (length src)" using r by (simp add: user_range_def)
  then have "copyin psz' ppt' pt va (length src) [] (s\<lparr>k_mem := m\<rparr>) =
      Inr ((0, map (\<lambda>i. umem m pt (va + of_nat i)) [0..<length src]), s\<lparr>k_mem := m\<rparr>)"
    using copyin_reads [of "s\<lparr>k_mem := m\<rparr>" pt va "length src"] m(2) by (simp add: uspace_def)
  moreover have "map (\<lambda>i. umem m pt (va + of_nat i)) [0..<length src] = src"
  proof (rule nth_equalityI)
    fix i assume "i < length (map (\<lambda>i. umem m pt (va + of_nat i)) [0..<length src])"
    then have i: "i < length src" by simp
    then have "unat (va + of_nat i) = unat va + i"
      using r unat_u64_lt [of MAXVA] by (intro unat_add_of_nat) (simp add: user_range_def)
    then show "map (\<lambda>i. umem m pt (va + of_nat i)) [0..<length src] ! i = src ! i"
      using m(4) [of "va + of_nat i"] r i by (simp add: user_range_def)
  qed simp
  ultimately show ?thesis using m by (intro exI [of _ m]) auto
qed

theorem copyout_copyin_witness:
  "\<exists>m. copyout 0 0 0x80030000 0xffe [1, 2] \<lparr>k_end = 0x80021000, k_mem = one_page, k_free = 0\<rparr> =
       Inr (0, \<lparr>k_end = 0x80021000, k_mem = m, k_free = 0\<rparr>) \<and>
     copyin 0 0 0x80030000 0xffe 2 [] \<lparr>k_end = 0x80021000, k_mem = m, k_free = 0\<rparr> =
       Inr ((0, [1, 2]), \<lparr>k_end = 0x80021000, k_mem = m, k_free = 0\<rparr>)"
  using copyout_copyin [of "\<lparr>k_end = 0x80021000, k_mem = one_page, k_free = 0\<rparr>" "0x80030000" "0xffe" "[1, 2]" 0 0 0 0]
    one_page_space one_page_writable [of "0xffe" 2] by (auto simp: numeral_2_eq_2)

text \<open>
  C23. \<^verbatim>\<open>mappages\<close> installs exactly the requested translation. For an aligned, unmapped range
  below \<^verbatim>\<open>MAXVA\<close> it returns without panicking. If it returns 0, each page of the range
  translates to the corresponding physical page with the given permissions and every other page
  translates as before; it returns -1 only after the allocator ran out of pages, and then a prefix
  of the range is mapped. In both cases the table stays a well-formed tree, made of its old pages
  and of pages taken from the allocator, and no other memory changes.
\<close>

theorem mappages_maps:
  assumes "kmem_inv s F" and "ptree 2 (k_mem s) pt" and "table_pages 2 (k_mem s) pt \<inter> F = {}"
    and va: "page_aligned va" and sz: "page_aligned sz" "sz \<noteq> 0" "unat va + unat sz \<le> unat MAXVA"
    and new: "\<forall>b. page_aligned b \<and> va \<le> b \<and> unat b < unat va + unat sz \<longrightarrow> \<not> valid (pte 2 (k_mem s) pt b)"
  shows "\<exists>r t G k. mappages pt va sz pa perm s = Inr (r, t) \<and> tables_grow pt s F t G \<and>
     mapped pt va k pa perm (k_mem s) (k_mem t) \<and>
     (r = 0 \<and> 4096 * k = unat sz \<or> r = -1 \<and> F = G \<and> 4096 * k < unat sz)"
proof -
  obtain n where n: "unat sz = 4096 * Suc n"
    using sz(1,2) by (metis mult_0_right not0_implies_Suc page_alignedE unat_eq_zero)
  have bound: "unat va + 4096 * n + 4096 \<le> unat MAXVA" using sz(3) n by simp
  have lst: "unat (va + sz - PGSIZE) = unat va + 4096 * n"
  proof -
    have "unat (va + sz) = unat va + unat sz"
      using sz(3) unat_u64_lt [of MAXVA] by (simp add: unat_plus_if')
    then show ?thesis using n by (simp add: PGSIZE_def unat_sub_if' word_le_nat_alt)
  qed
  then have "va + sz - PGSIZE < MAXVA" using bound by (simp add: word_less_nat_alt)
  moreover have "\<forall>b. page_aligned b \<and> va \<le> b \<and> b \<le> va + sz - PGSIZE \<longrightarrow> \<not> valid (pte 2 (k_mem s) pt b)"
    using new n lst by (auto simp: word_le_nat_alt)
  ultimately obtain r t G k where "mappages_loop pt va (va + sz - PGSIZE) pa perm s = Inr (r, t)"
      "tables_grow pt s F t G" "mapped pt va k pa perm (k_mem s) (k_mem t)"
      "if r = 0 then k = Suc n else r = -1 \<and> F = G \<and> k \<le> n"
    using mappages_loop_maps [OF assms(1-4) lst] by blast
  moreover have "mappages pt va sz pa perm s = mappages_loop pt va (va + sz - PGSIZE) pa perm s"
    using va sz(1,2) PGSIZE_mod [of va] PGSIZE_mod [of sz]
    by (simp add: mappages_def andthen_def bnd_def panic_if_def skip_def ret_def)
  ultimately show ?thesis using n by (intro exI [of _ r] exI [of _ t] exI [of _ G] exI [of _ k]) (auto split: if_splits)
qed

lemma one_page_free:
  "kmem_inv \<lparr>k_end = 0x80021000, k_mem = one_page, k_free = 0x80040000\<rparr> {0x80040000}"
proof -
  have "page_aligned 0x80040000" by (simp add: page_aligned_def)
  then have "entry one_page 0x80040000 0 = 0"
    by (simp add: one_page_def entry_st64_page) (simp add: entry_def ld64_zero)
  then have "free_chain one_page 0x80040000 [0x80040000]" by (simp add: entry_def)
  then show ?thesis
    by (auto simp: kmem_inv_def phys_page_def page_aligned_def layout_defs intro!: exI [of _ "[0x80040000]"])
qed

theorem mappages_maps_witness:
  "\<exists>r t G k. mappages 0x80030000 0x1000 0x2000 0x80050000 0x16
       \<lparr>k_end = 0x80021000, k_mem = one_page, k_free = 0x80040000\<rparr> = Inr (r, t) \<and>
     mapped 0x80030000 0x1000 k 0x80050000 0x16 one_page (k_mem t) \<and> (r = 0 \<and> k = 2 \<or> r = -1 \<and> G = {0x80040000})"
proof -
  have new: "\<not> valid (pte 2 one_page 0x80030000 b)" if "page_aligned b" "0x1000 \<le> b" "unat b < 0x3000" for b
  proof -
    have "b \<noteq> 0" "b < MAXVA" using that by (auto simp: MAXVA_def word_less_nat_alt)
    then show ?thesis using that(1) one_page_user [of b]
      by (auto simp: one_page_pte user_page_def one_page_valid PTE_U_def split: if_splits)
  qed
  show ?thesis
    using mappages_maps [OF one_page_free, of "0x80030000" "0x1000" "0x2000" "0x80050000" "0x16"] new
    by (simp add: one_page_tree page_aligned_def MAXVA_def) (metis (no_types, lifting))
qed

end
