(* ===== verification/Pipequeue.thy ===== *)
theory Pipequeue
  imports Usermem Sample
begin

text \<open>
  A pipe (\<^verbatim>\<open>kernel/pipe.c\<close>) is a bounded first-in first-out queue of bytes. The interface of such
  a queue is a locale; the ring buffer with its two wrapping counters provides it, and
  \<^verbatim>\<open>pipewrite\<close> and \<^verbatim>\<open>piperead\<close> move bytes between user memory and the queue.
\<close>

section \<open>Bounded queues\<close>

locale fifo =
  fixes items :: "'q \<Rightarrow> 'x list" and ok :: "'q \<Rightarrow> bool" and capacity :: nat
    and put :: "'x \<Rightarrow> 'q \<Rightarrow> 'q" and first_item :: "'q \<Rightarrow> 'x" and remove :: "'q \<Rightarrow> 'q"
    and is_full :: "'q \<Rightarrow> bool" and is_empty :: "'q \<Rightarrow> bool"
  assumes put_items: "ok q \<Longrightarrow> \<not> is_full q \<Longrightarrow> ok (put x q) \<and> items (put x q) = items q @ [x]"
    and remove_items: "ok q \<Longrightarrow> \<not> is_empty q \<Longrightarrow> ok (remove q) \<and> items q = first_item q # items (remove q)"
    and full_iff: "ok q \<Longrightarrow> is_full q \<longleftrightarrow> length (items q) = capacity"
    and empty_iff: "ok q \<Longrightarrow> is_empty q \<longleftrightarrow> items q = []"
begin

lemma fold_put:
  assumes "ok q" and "length (items q) + length xs \<le> capacity"
  shows "ok (fold put xs q)" and "items (fold put xs q) = items q @ xs"
proof -
  have "ok (fold put xs q) \<and> items (fold put xs q) = items q @ xs"
    using assms
  proof (induction xs arbitrary: q)
    case (Cons x xs)
    have "ok (put x q)" "items (put x q) = items q @ [x]"
      using put_items [OF Cons.prems(1)] full_iff [OF Cons.prems(1)] Cons.prems(2) by auto
    then show ?case using Cons.IH [of "put x q"] Cons.prems(2) by simp
  qed simp
  then show "ok (fold put xs q)" and "items (fold put xs q) = items q @ xs" by simp_all
qed

lemma fold_put_room:
  assumes "ok q" and "length (items q) + length xs < capacity"
  shows "\<not> is_full (fold put xs q)"
  using assms fold_put [of q xs] full_iff [of "fold put xs q"] by simp

lemma removes:
  assumes "ok q" and "n \<le> length (items q)"
  shows "ok ((remove ^^ n) q)" and "items ((remove ^^ n) q) = drop n (items q)"
proof -
  have "ok ((remove ^^ n) q) \<and> items ((remove ^^ n) q) = drop n (items q)"
    using assms(2)
  proof (induction n)
    case (Suc n)
    then have q: "ok ((remove ^^ n) q)" "items ((remove ^^ n) q) = drop n (items q)" by simp_all
    then have "\<not> is_empty ((remove ^^ n) q)" using Suc.prems empty_iff by simp
    then have "ok (remove ((remove ^^ n) q))" "drop n (items q) = first_item ((remove ^^ n) q) # items (remove ((remove ^^ n) q))"
      using remove_items [OF q(1)] q(2) by simp_all
    then show ?case by (simp add: drop_Suc tl_drop) (metis drop_Suc list.sel(3) tl_drop)
  qed (use assms in simp)
  then show "ok ((remove ^^ n) q)" and "items ((remove ^^ n) q) = drop n (items q)" by simp_all
qed

lemma first_item_removes:
  assumes "ok q" and "n < length (items q)"
  shows "\<not> is_empty ((remove ^^ n) q)" and "first_item ((remove ^^ n) q) = items q ! n"
proof -
  have q: "ok ((remove ^^ n) q)" "items ((remove ^^ n) q) = drop n (items q)"
    using removes assms by simp_all
  show ne: "\<not> is_empty ((remove ^^ n) q)" using empty_iff [OF q(1)] q(2) assms(2) by simp
  show "first_item ((remove ^^ n) q) = items q ! n"
    using remove_items [OF q(1) ne] q(2) Cons_nth_drop_Suc [OF assms(2)] by (metis list.sel(1))
qed

end

section \<open>The ring buffer\<close>

definition pipe_bytes :: "pipe \<Rightarrow> u8 list" where
  "pipe_bytes p = map (\<lambda>k. pi_data p ((unat (pi_nread p) + k) mod PIPESIZE)) [0..<unat (pi_nwrite p - pi_nread p)]"

definition pipe_ok :: "pipe \<Rightarrow> bool" where
  "pipe_ok p \<longleftrightarrow> unat (pi_nwrite p - pi_nread p) \<le> PIPESIZE"

lemma unat_mod_PIPESIZE: "unat (a + b :: u32) mod PIPESIZE = (unat a + unat b) mod PIPESIZE"
proof -
  have "unat (a + b) = (unat a + unat b) mod 2 ^ 32" by (simp add: unat_word_ariths)
  then show ?thesis by (simp add: layout_defs mod_mod_cancel)
qed

lemma unat_count_Suc: "unat (d :: u32) < 512 \<Longrightarrow> unat (d + 1) = Suc (unat d)"
  by (simp add: unat_word_ariths)

lemma ring_mod_inj:
  assumes "j < k" and "k < PIPESIZE"
  shows "((n :: nat) + j) mod PIPESIZE \<noteq> (n + k) mod PIPESIZE"
proof
  assume "(n + j) mod PIPESIZE = (n + k) mod PIPESIZE"
  then have "PIPESIZE dvd (n + k) - (n + j)" using assms(1) by (metis mod_eq_dvd_iff_nat add_left_mono less_imp_le)
  then show False using assms nat_dvd_not_less [of "k - j" PIPESIZE] by simp
qed

interpretation pipe: fifo pipe_bytes pipe_ok PIPESIZE pipe_put pipe_peek pipe_drop pipe_full pipe_empty
proof
  fix p :: pipe and x
  let ?r = "pi_nread p" and ?w = "pi_nwrite p"
  assume ok: "pipe_ok p"
  have n: "unat (?w - ?r) \<le> 512" using ok by (simp add: pipe_ok_def layout_defs)
  show full: "pipe_full p \<longleftrightarrow> length (pipe_bytes p) = PIPESIZE"
  proof -
    have "pipe_full p \<longleftrightarrow> ?w - ?r = 512" by (auto simp: pipe_full_def layout_defs algebra_simps)
    also have "\<dots> \<longleftrightarrow> unat (?w - ?r) = 512" by (simp add: word_unat_eq_iff)
    finally show ?thesis by (simp add: pipe_bytes_def layout_defs)
  qed
  show "pipe_empty p \<longleftrightarrow> pipe_bytes p = []"
    by (auto simp: pipe_empty_def pipe_bytes_def unat_eq_zero)
  show "pipe_ok (pipe_put x p) \<and> pipe_bytes (pipe_put x p) = pipe_bytes p @ [x]" if "\<not> pipe_full p"
  proof -
    let ?k = "unat (?w - ?r)"
    have k: "?k < 512" using full n that by (auto simp: pipe_bytes_def layout_defs)
    have "?w + 1 - ?r = (?w - ?r) + 1" by simp
    then have Suc: "unat (?w + 1 - ?r) = Suc ?k" using unat_count_Suc [OF k] by metis
    have "?w = ?r + (?w - ?r)" by simp
    then have slot: "unat ?w mod PIPESIZE = (unat ?r + ?k) mod PIPESIZE" by (metis unat_mod_PIPESIZE)
    have "(unat ?r + j) mod PIPESIZE \<noteq> (unat ?r + ?k) mod PIPESIZE" if "j < ?k" for j
      using ring_mod_inj [OF that] k by (simp add: layout_defs)
    moreover have "Suc ?k \<le> PIPESIZE" using k by (simp add: layout_defs)
    ultimately show ?thesis by (auto simp: pipe_ok_def pipe_bytes_def pipe_put_def Suc slot)
  qed
  show "pipe_ok (pipe_drop p) \<and> pipe_bytes p = pipe_peek p # pipe_bytes (pipe_drop p)" if "\<not> pipe_empty p"
  proof -
    let ?k = "unat (?w - (?r + 1))"
    have "?w - ?r \<noteq> 0" using that by (auto simp: pipe_empty_def)
    moreover have "?w - (?r + 1) = (?w - ?r) - 1" by simp
    ultimately have k: "unat (?w - ?r) = Suc ?k" by (metis Suc_pred' unat_gt_0 unat_minus_one)
    have "[0..<Suc ?k] = 0 # map Suc [0..<?k]" by (simp add: map_Suc_upt upt_conv_Cons del: upt_Suc)
    moreover have "(unat (?r + 1) + j) mod PIPESIZE = (unat ?r + Suc j) mod PIPESIZE" for j
      using unat_mod_PIPESIZE [of ?r 1] by (metis add.assoc mod_add_left_eq plus_1_eq_Suc unat_1)
    ultimately show ?thesis using n
      by (simp add: pipe_ok_def pipe_bytes_def pipe_peek_def pipe_drop_def k layout_defs del: upt_Suc)
  qed
qed

section \<open>Moving bytes\<close>

lemma upd_pipe_simps [simp]:
  "pipes (upd_pipe pi f s) pi = f (pipes s pi)" "k_mem (upd_pipe pi f s) = k_mem s"
  "procs (upd_pipe pi f s) = procs s" "me (upd_pipe pi f s) = me s" "myproc (upd_pipe pi f s) = myproc s"
  "upd_pipe pi g (upd_pipe pi f s) = upd_pipe pi (\<lambda>p. g (f p)) s" "upd_pipe pi (\<lambda>p. p) s = s"
  by (simp_all add: upd_pipe_def me_def myproc_def)

lemma pipe_open_flags [simp]:
  "pi_readopen (pipe_put x p) = pi_readopen p" "pi_readopen (fold pipe_put xs p) = pi_readopen p"
proof -
  show *: "pi_readopen (pipe_put x p) = pi_readopen p" for x p by (simp add: pipe_put_def)
  show "pi_readopen (fold pipe_put xs p) = pi_readopen p" by (induction xs arbitrary: p) (simp_all add: *)
qed

lemma user_range_byte:
  assumes "user_range m pt addr n" and "k < n"
  shows "user_range m pt (addr + of_nat k) 1" and "unat (addr + of_nat k) = unat addr + k"
proof -
  have lt: "unat addr + k < unat MAXVA" using assms by (simp add: user_range_def)
  also have "unat MAXVA < 2 ^ 64" by (rule unat_u64_lt)
  finally show u: "unat (addr + of_nat k) = unat addr + k" by (rule unat_add_of_nat)
  show "user_range m pt (addr + of_nat k) 1" using assms lt u by (simp add: user_range_def)
qed

lemma user_writable_byte:
  assumes "user_writable m pt addr n" and "k < n"
  shows "user_writable m pt (addr + of_nat k) 1"
  using assms user_range_byte [of m pt addr n k] by (simp add: user_writable_def)

lemma pipewrite_loop_run:
  assumes "ptree 2 (k_mem s) pt" and pt: "p_pagetable (myproc s) = pt" and "p_killed (myproc s) = 0"
    and "user_range (k_mem s) pt addr (i + left)"
    and "pi_readopen (pipes s pi)" and "pipe_ok (pipes s pi)"
    and "length (pipe_bytes (pipes s pi)) + left \<le> PIPESIZE"
  shows "pipewrite_loop pi addr i left s = Inr (Some (i + left), upd_pipe pi
     (fold pipe_put (map (\<lambda>k. umem (k_mem s) pt (addr + of_nat (i + k))) [0..<left])) s)"
  using assms
proof (induction left arbitrary: i s)
  case 0
  then show ?case by (simp add: ret_def)
next
  case (Suc left)
  let ?x = "umem (k_mem s) pt (addr + of_nat i)" and ?p = "pipes s pi"
  let ?t = "upd_pipe pi (pipe_put ?x) s"
  have room: "\<not> pipe_full ?p" using Suc.prems(6,7) pipe.full_iff by simp
  then have put: "pipe_ok (pipe_put ?x ?p)" "pipe_bytes (pipe_put ?x ?p) = pipe_bytes ?p @ [?x]"
    using pipe.put_items [OF Suc.prems(6)] by simp_all
  have "copyin (p_sz (myproc s)) pt pt (addr + of_nat i) 1 [] s = Inr ((0, [?x]), s)"
    using copyin_reads [OF Suc.prems(1), of "addr + of_nat i" 1] user_range_byte [OF Suc.prems(4), of i] by simp
  then have "pipewrite_loop pi addr i (Suc left) s = pipewrite_loop pi addr (Suc i) left ?t"
    using room Suc.prems(2,3,5)
    by (simp add: run_defs killed_def flip: myproc_def)
  moreover have "pipewrite_loop pi addr (Suc i) left ?t = Inr (Some (Suc i + left), upd_pipe pi
     (fold pipe_put (map (\<lambda>k. umem (k_mem ?t) pt (addr + of_nat (Suc i + k))) [0..<left])) ?t)"
    using Suc.prems put by (intro Suc.IH) simp_all
  moreover have "[0..<Suc left] = 0 # map Suc [0..<left]" by (simp add: map_Suc_upt upt_conv_Cons del: upt_Suc)
  ultimately show ?case by (simp add: comp_def ac_simps del: upt_Suc)
qed

lemma copyout_byte:
  assumes "uspace (k_mem s) pt" and "user_writable (k_mem s) pt va 1"
  shows "\<exists>m. copyout psz ppt pt va [v] s = Inr (0, s\<lparr>k_mem := m\<rparr>) \<and> uspace m pt \<and> pte 2 m pt = pte 2 (k_mem s) pt \<and>
     (\<forall>x. user_page (k_mem s) pt (PGROUNDDOWN x) \<longrightarrow> umem m pt x = (if unat x = unat va then v else umem (k_mem s) pt x))"
proof -
  obtain m where m: "copyout psz ppt pt va [v] s = Inr (0, s\<lparr>k_mem := m\<rparr>)" "uspace m pt" "pte 2 m pt = pte 2 (k_mem s) pt"
      "\<forall>x. user_page (k_mem s) pt (PGROUNDDOWN x) \<longrightarrow> umem m pt x =
        (if unat va \<le> unat x \<and> unat x < unat va + 1 then [v] ! (unat x - unat va) else umem (k_mem s) pt x)"
    using copyout_writes [OF assms(1), of va "[v]" psz ppt] assms(2) by auto
  have eq: "unat va \<le> unat x \<and> unat x < unat va + 1 \<longleftrightarrow> unat x = unat va" for x :: u64 by linarith
  show ?thesis using m(1-3) m(4) [unfolded eq] by (intro exI [of _ m]) simp
qed

lemma piperead_loop_run:
  assumes "uspace (k_mem s) pt" and pt: "p_pagetable (myproc s) = pt"
    and "user_writable (k_mem s) pt addr (i + left)" and "pipe_ok (pipes s pi)"
    and "m = min left (length (pipe_bytes (pipes s pi)))"
  shows "\<exists>mem. piperead_loop pi addr i left s = Inr (int (i + m), upd_pipe pi (pipe_drop ^^ m) (s\<lparr>k_mem := mem\<rparr>)) \<and>
     (\<forall>x. user_page (k_mem s) pt (PGROUNDDOWN x) \<longrightarrow> umem mem pt x =
        (if unat addr + i \<le> unat x \<and> unat x < unat addr + i + m
         then pipe_bytes (pipes s pi) ! (unat x - (unat addr + i)) else umem (k_mem s) pt x))"
  using assms
proof (induction left arbitrary: i s m)
  case 0
  then show ?case by (auto simp: ret_def intro: exI [of _ "k_mem s"])
next
  case (Suc left)
  let ?p = "pipes s pi"
  show ?case
  proof (cases "pipe_empty ?p")
    case True
    then show ?thesis using Suc.prems(4,5) pipe.empty_iff
      by (auto simp: run_defs intro: exI [of _ "k_mem s"])
  next
    case False
    let ?va = "addr + of_nat i"
    have rm: "pipe_ok (pipe_drop ?p)" "pipe_bytes ?p = pipe_peek ?p # pipe_bytes (pipe_drop ?p)"
      using pipe.remove_items [OF Suc.prems(4) False] by simp_all
    have va: "unat ?va = unat addr + i"
      using Suc.prems(3) user_range_byte(2) [of _ pt addr "i + Suc left" i] by (auto simp: user_writable_def)
    obtain m1 where m1: "copyout (p_sz (myproc s)) pt pt ?va [pipe_peek ?p] s = Inr (0, s\<lparr>k_mem := m1\<rparr>)" "uspace m1 pt"
        "pte 2 m1 pt = pte 2 (k_mem s) pt"
        "\<And>x. user_page (k_mem s) pt (PGROUNDDOWN x) \<Longrightarrow> umem m1 pt x =
          (if unat x = unat addr + i then pipe_peek ?p else umem (k_mem s) pt x)"
      using copyout_byte [OF Suc.prems(1) user_writable_byte [OF Suc.prems(3), of i],
          of "p_sz (myproc s)" pt "pipe_peek ?p"] unfolding va by auto
    let ?t = "upd_pipe pi pipe_drop (s\<lparr>k_mem := m1\<rparr>)" and ?m = "m - 1"
    have m: "m = Suc ?m" "?m = min left (length (pipe_bytes (pipe_drop ?p)))" using Suc.prems(5) rm(2) by simp_all
    have same: "user_page m1 pt = user_page (k_mem s) pt" "user_writable m1 pt = user_writable (k_mem s) pt"
      by (simp_all add: fun_eq_iff user_page_def user_writable_def user_range_def m1(3))
    have t: "k_mem ?t = m1" "pipes ?t pi = pipe_drop ?p" "myproc ?t = myproc s"
      by (simp_all add: upd_pipe_def myproc_def me_def)
    obtain mem where mem: "piperead_loop pi addr (Suc i) left ?t = Inr (int (Suc i + ?m), upd_pipe pi (pipe_drop ^^ ?m) (?t\<lparr>k_mem := mem\<rparr>))"
        "\<And>x. user_page (k_mem s) pt (PGROUNDDOWN x) \<Longrightarrow> umem mem pt x =
          (if unat addr + Suc i \<le> unat x \<and> unat x < unat addr + Suc i + ?m
           then pipe_bytes (pipe_drop ?p) ! (unat x - (unat addr + Suc i)) else umem m1 pt x)"
      using Suc.IH [of ?t "Suc i" ?m, unfolded t same] Suc.prems(2,3) m1(2) rm(1) m(2) by auto
    have "piperead_loop pi addr i (Suc left) s = piperead_loop pi addr (Suc i) left ?t"
      using False m1(1) Suc.prems(2) by (simp add: run_defs)
    moreover have "upd_pipe pi (pipe_drop ^^ ?m) (?t\<lparr>k_mem := mem\<rparr>) = upd_pipe pi (pipe_drop ^^ m) (s\<lparr>k_mem := mem\<rparr>)"
      by (subst m(1)) (simp add: upd_pipe_def funpow_swap1)
    moreover have "umem mem pt x = (if unat addr + i \<le> unat x \<and> unat x < unat addr + i + m
         then pipe_bytes ?p ! (unat x - (unat addr + i)) else umem (k_mem s) pt x)"
      if "user_page (k_mem s) pt (PGROUNDDOWN x)" for x
      using mem(2) [OF that] m1(4) [OF that] m(1) rm(2)
      by (cases "unat x - (unat addr + i)") (auto simp: diff_Suc)
    ultimately show ?thesis using mem(1) m(1) by (intro exI [of _ mem]) auto
  qed
qed

lemma wakeup_simps [simp]: "pipes (wakeup ch s) = pipes s" "k_mem (wakeup ch s) = k_mem s"
  by (simp_all add: wakeup_def)

lemma pipe_funpow [simp]: "(upd_pipe pi f (s\<lparr>k_mem := m\<rparr>) :: 'a kpipe_scheme) = (upd_pipe pi f s)\<lparr>k_mem := m\<rparr>"
  by (simp add: upd_pipe_def)

lemma pipewrite_appends:
  assumes "ptree 2 (k_mem s) pt" and "p_pagetable (myproc s) = pt" and "p_killed (myproc s) = 0"
    and "user_range (k_mem s) pt addr n" and "pipe_ok (pipes s pi)"
    and "pi_readopen (pipes s pi)" and "length (pipe_bytes (pipes s pi)) + n \<le> PIPESIZE"
  shows "\<exists>t. pipewrite pi addr (int n) s = Inr (int n, t) \<and> pipe_ok (pipes t pi) \<and>
     pipe_bytes (pipes t pi) = pipe_bytes (pipes s pi) @ map (\<lambda>k. umem (k_mem s) pt (addr + of_nat k)) [0..<n]"
proof -
  let ?xs = "map (\<lambda>k. umem (k_mem s) pt (addr + of_nat k)) [0..<n]"
  have "pipewrite pi addr (int n) s = Inr (int n, wakeup (ChPipeR pi) (upd_pipe pi (fold pipe_put ?xs) s))"
    using pipewrite_loop_run [OF assms(1-3), of addr 0 n pi] assms(4-7) by (simp add: pipewrite_def run_defs)
  then show ?thesis using pipe.fold_put [OF assms(5), of ?xs] assms(7) by simp
qed

lemma pipewrite_full:
  assumes "p_killed (myproc s) = 0" and "pi_readopen (pipes s pi)" and "pipe_full (pipes s pi)" and "n > 0"
  shows "\<exists>t. pipewrite pi addr (int n) s = Inl (Sleep (ChPipeW pi) t) \<and> pipes t = pipes s"
proof -
  have "\<exists>t. pipewrite_loop pi addr 0 n s = Inl (Sleep (ChPipeW pi) t) \<and> pipes t = pipes s"
    using assms by (cases n) (simp_all add: run_defs sleep_def killed_def myproc_def upd_proc_def)
  then show ?thesis by (auto simp: pipewrite_def bnd_def)
qed

lemma piperead_takes:
  assumes "uspace (k_mem s) pt" and "p_pagetable (myproc s) = pt" and "user_writable (k_mem s) pt addr n"
    and "pipe_ok (pipes s pi)" and bs: "bs = pipe_bytes (pipes s pi)" and "bs \<noteq> [] \<or> \<not> pi_writeopen (pipes s pi)"
  shows "\<exists>t. piperead pi addr (int n) s = Inr (int (min n (length bs)), t) \<and>
     pipe_ok (pipes t pi) \<and> pipe_bytes (pipes t pi) = drop n bs \<and>
     (\<forall>x. user_page (k_mem s) pt (PGROUNDDOWN x) \<longrightarrow> umem (k_mem t) pt x =
        (if unat addr \<le> unat x \<and> unat x < unat addr + min n (length bs)
         then bs ! (unat x - unat addr) else umem (k_mem s) pt x))"
proof -
  let ?m = "min n (length bs)"
  obtain mem where mem: "piperead_loop pi addr 0 n s = Inr (int ?m, upd_pipe pi (pipe_drop ^^ ?m) (s\<lparr>k_mem := mem\<rparr>))"
      "\<forall>x. user_page (k_mem s) pt (PGROUNDDOWN x) \<longrightarrow> umem mem pt x =
        (if unat addr \<le> unat x \<and> unat x < unat addr + ?m then bs ! (unat x - unat addr) else umem (k_mem s) pt x)"
    using piperead_loop_run [OF assms(1,2), of addr 0 n pi ?m] assms(3-5) by auto
  have d: "pipe_ok ((pipe_drop ^^ ?m) (pipes s pi))" "pipe_bytes ((pipe_drop ^^ ?m) (pipes s pi)) = drop n bs"
    using pipe.removes [OF assms(4), of ?m] bs by (simp_all add: min_def)
  have "piperead pi addr (int n) s =
      Inr (int ?m, wakeup (ChPipeW pi) (upd_pipe pi (pipe_drop ^^ ?m) (s\<lparr>k_mem := mem\<rparr>)))"
    using mem(1) assms(6) pipe.empty_iff [OF assms(4)] bs by (auto simp: piperead_def run_defs)
  then show ?thesis using mem(2) d by simp
qed

lemma piperead_waits:
  assumes "p_killed (myproc s) = 0" and "pipe_empty (pipes s pi)" and "pi_writeopen (pipes s pi)"
  shows "\<exists>t. piperead pi addr n s = Inl (Sleep (ChPipeR pi) t) \<and> pipes t = pipes s"
  using assms by (simp add: piperead_def run_defs sleep_def killed_def myproc_def upd_proc_def)

text \<open>
  C20. A pipe is a queue between address spaces. While a process moves \<open>n\<close> bytes of its memory
  through a pipe whose queue is well formed:
  \<^item> \<^verbatim>\<open>pipewrite\<close> with room for the bytes returns \<open>n\<close> and appends exactly those bytes;
  \<^item> \<^verbatim>\<open>pipewrite\<close> to a full pipe puts the process to sleep until a reader has made room;
  \<^item> \<^verbatim>\<open>piperead\<close> takes as many bytes as are there, at most \<open>n\<close>, from the front of the queue, stores
    them in order, returns their number and changes no other byte of the address space;
  \<^item> \<^verbatim>\<open>piperead\<close> from an empty pipe that has a writer sleeps.
  The counters may wrap around, and the queue stays well formed.
\<close>

theorem pipe_transfers:
  assumes "uspace (k_mem s) pt" and "p_pagetable (myproc s) = pt" and "p_killed (myproc s) = 0"
    and "user_writable (k_mem s) pt addr n" and "pipe_ok (pipes s pi)" and "bs = pipe_bytes (pipes s pi)"
  shows "(pi_readopen (pipes s pi) \<and> length bs + n \<le> PIPESIZE \<longrightarrow> (\<exists>t. pipewrite pi addr (int n) s = Inr (int n, t) \<and>
       pipe_ok (pipes t pi) \<and> pipe_bytes (pipes t pi) = bs @ map (\<lambda>k. umem (k_mem s) pt (addr + of_nat k)) [0..<n])) \<and>
    (pi_readopen (pipes s pi) \<and> length bs = PIPESIZE \<and> n > 0 \<longrightarrow>
       (\<exists>t. pipewrite pi addr (int n) s = Inl (Sleep (ChPipeW pi) t) \<and> pipes t = pipes s)) \<and>
    (bs \<noteq> [] \<or> \<not> pi_writeopen (pipes s pi) \<longrightarrow>
       (\<exists>t. piperead pi addr (int n) s = Inr (int (min n (length bs)), t) \<and>
         pipe_ok (pipes t pi) \<and> pipe_bytes (pipes t pi) = drop n bs \<and>
         (\<forall>x. user_page (k_mem s) pt (PGROUNDDOWN x) \<longrightarrow> umem (k_mem t) pt x =
            (if unat addr \<le> unat x \<and> unat x < unat addr + min n (length bs)
             then bs ! (unat x - unat addr) else umem (k_mem s) pt x)))) \<and>
    (bs = [] \<and> pi_writeopen (pipes s pi) \<longrightarrow>
       (\<exists>t. piperead pi addr (int n) s = Inl (Sleep (ChPipeR pi) t) \<and> pipes t = pipes s))"
proof -
  have "ptree 2 (k_mem s) pt" "user_range (k_mem s) pt addr n"
    using assms(1,4) by (simp_all add: uspace_def user_writable_def)
  note w = pipewrite_appends [OF this(1) assms(2,3) this(2) assms(5)]
  show ?thesis
    using w pipewrite_full [OF assms(3), of pi n addr] piperead_takes [OF assms(1,2,4,5,6)]
      piperead_waits [OF assms(3), of pi addr "int n"] pipe.full_iff [OF assms(5)] pipe.empty_iff [OF assms(5)]
    unfolding assms(6) by blast
qed

text \<open>A process with one writable page and a pipe whose counters are about to wrap around.\<close>

definition pipe_kernel :: "u8 list \<Rightarrow> kernel" where
  "pipe_kernel bs = (sample_kernel [sample_proc\<lparr>p_pagetable := 0x80030000\<rparr>] sample_tf)
     \<lparr>k_mem := one_page, pipes := (\<lambda>_. fold pipe_put bs (sample_pipe\<lparr>pi_nread := -1, pi_nwrite := -1\<rparr>))\<rparr>"

theorem pipe_transfers_witness:
  "(\<exists>t. pipewrite 0x80040000 0x10 2 (pipe_kernel []) = Inr (2, t) \<and>
     pipe_bytes (pipes t 0x80040000) = [umem one_page 0x80030000 0x10, umem one_page 0x80030000 0x11]) \<and>
   (\<exists>t. piperead 0x80040000 0x10 2 (pipe_kernel [7, 8, 9]) = Inr (2, t) \<and>
     pipe_bytes (pipes t 0x80040000) = [9] \<and>
     umem (k_mem t) 0x80030000 0x10 = 7 \<and> umem (k_mem t) 0x80030000 0x11 = 8)"
proof -
  have s: "k_mem (pipe_kernel bs) = one_page" "p_pagetable (myproc (pipe_kernel bs)) = 0x80030000"
    "p_killed (myproc (pipe_kernel bs)) = 0"
    "pipes (pipe_kernel bs) a = fold pipe_put bs (sample_pipe\<lparr>pi_nread := -1, pi_nwrite := -1\<rparr>)" for bs a
    by (simp_all add: pipe_kernel_def sample_kernel_def sample_proc_def myproc_def me_def)
  have e: "pipe_ok (sample_pipe\<lparr>pi_nread := -1, pi_nwrite := -1\<rparr>)" "pipe_bytes (sample_pipe\<lparr>pi_nread := -1, pi_nwrite := -1\<rparr>) = []"
    "pi_readopen (sample_pipe\<lparr>pi_nread := -1, pi_nwrite := -1\<rparr>)"
    by (simp_all add: pipe_ok_def pipe_bytes_def sample_pipe_def)
  note p = pipe.fold_put [OF e(1)]
  have w: "user_writable one_page 0x80030000 0x10 2" by (rule one_page_writable) simp
  have "user_page one_page 0x80030000 (PGROUNDDOWN (0x10 + of_nat i))" if "i < 2" for i
    using that w by (simp add: user_writable_def user_range_def)
  from this [of 0] this [of 1]
  have pg: "user_page one_page 0x80030000 (PGROUNDDOWN 0x10)" "user_page one_page 0x80030000 (PGROUNDDOWN 0x11)" by simp_all
  have "\<exists>t. pipewrite 0x80040000 0x10 2 (pipe_kernel []) = Inr (2, t) \<and>
     pipe_bytes (pipes t 0x80040000) = [umem one_page 0x80030000 0x10, umem one_page 0x80030000 0x11]"
    using pipe_transfers [of "pipe_kernel []" "0x80030000" "0x10" 2 "0x80040000", THEN conjunct1] one_page_space w
    by (auto simp: s e layout_defs upt_rec)
  moreover have "\<exists>t. piperead 0x80040000 0x10 2 (pipe_kernel [7, 8, 9]) = Inr (2, t) \<and>
     pipe_bytes (pipes t 0x80040000) = [9] \<and>
     umem (k_mem t) 0x80030000 0x10 = 7 \<and> umem (k_mem t) 0x80030000 0x11 = 8"
    using pipe_transfers [of "pipe_kernel [7, 8, 9]" "0x80030000" "0x10" 2 "0x80040000", THEN conjunct2, THEN conjunct2, THEN conjunct1]
      one_page_space w p [of "[7, 8, 9]"] pg
    by (auto simp: s e layout_defs)
  ultimately show ?thesis by blast
qed

end
