(* ===== verification/Spinlock.thy ===== *)
theory Spinlock
  imports Prelude
begin

text \<open>
  Spin locks (\<^verbatim>\<open>kernel/spinlock.c\<close>) on several CPUs. Each routine is cut at its accesses to the lock
  word, which other CPUs can see, and the CPUs take these pieces in any order. The fences of the
  code make the order of the accesses the one of the program.
\<close>

section \<open>State and routines\<close>

record spinlock =
  lk_locked :: bool
  lk_cpu :: "nat option"

text \<open>The part of \<^verbatim>\<open>struct cpu\<close> that concerns interrupts, and the interrupt-enable bit of sstatus.\<close>

record cpu =
  noff :: int
  intena :: bool
  sie :: bool

definition initlock :: spinlock where
  "initlock = \<lparr>lk_locked = False, lk_cpu = None\<rparr>"

definition holding :: "spinlock \<Rightarrow> nat \<Rightarrow> bool" where
  "holding lk c \<longleftrightarrow> lk_locked lk \<and> lk_cpu lk = Some c"

definition push_off :: "cpu \<Rightarrow> cpu" where
  "push_off k =
     (let old = sie k; k = k\<lparr>sie := False\<rparr>; k = (if noff k = 0 then k\<lparr>intena := old\<rparr> else k) in
      k\<lparr>noff := noff k + 1\<rparr>)"

definition pop_off :: "(cpu, unit) routine" where
  "pop_off =
     bnd (gets sie) (\<lambda>on.
     andthen (panic_if on ''pop_off - interruptible'')
    (bnd (gets noff) (\<lambda>n.
     andthen (panic_if (n < 1) ''pop_off'')
    (andthen (modify (\<lambda>k. k\<lparr>noff := noff k - 1\<rparr>))
             (modify (\<lambda>k. if noff k = 0 \<and> intena k then k\<lparr>sie := True\<rparr> else k))))))"

section \<open>CPUs and locks\<close>

text \<open>
  Where a CPU is: outside the lock routines, in the loop of \<^verbatim>\<open>acquire\<close>, before it records itself
  as the holder, in \<^verbatim>\<open>release\<close> before and after the lock word is cleared, or stopped by a panic.
\<close>

datatype point = Outside | Spin nat | Record nat | Unlock nat | Pop | Panicked string

record smp =
  locks :: "nat \<Rightarrow> spinlock"
  cpus :: "nat \<Rightarrow> cpu"
  points :: "nat \<Rightarrow> point"

definition go :: "nat \<Rightarrow> point \<Rightarrow> smp \<Rightarrow> smp" where
  "go c p s = s\<lparr>points := (points s)(c := p)\<rparr>"

definition upd_lock :: "nat \<Rightarrow> (spinlock \<Rightarrow> spinlock) \<Rightarrow> smp \<Rightarrow> smp" where
  "upd_lock l f s = s\<lparr>locks := (locks s)(l := f (locks s l))\<rparr>"

definition upd_cpu :: "nat \<Rightarrow> (cpu \<Rightarrow> cpu) \<Rightarrow> smp \<Rightarrow> smp" where
  "upd_cpu c f s = s\<lparr>cpus := (cpus s)(c := f (cpus s c))\<rparr>"

definition acquire_begin :: "nat \<Rightarrow> nat \<Rightarrow> smp \<Rightarrow> smp" where
  "acquire_begin c l s = go c (if holding (locks s l) c then Panicked ''acquire'' else Spin l) (upd_cpu c push_off s)"

definition acquire_swap :: "nat \<Rightarrow> nat \<Rightarrow> smp \<Rightarrow> smp" where
  "acquire_swap c l s = go c (if lk_locked (locks s l) then Spin l else Record l)
     (upd_lock l (\<lambda>lk. lk\<lparr>lk_locked := True\<rparr>) s)"

definition acquire_end :: "nat \<Rightarrow> nat \<Rightarrow> smp \<Rightarrow> smp" where
  "acquire_end c l s = go c Outside (upd_lock l (\<lambda>lk. lk\<lparr>lk_cpu := Some c\<rparr>) s)"

definition release_begin :: "nat \<Rightarrow> nat \<Rightarrow> smp \<Rightarrow> smp" where
  "release_begin c l s =
     (if holding (locks s l) c then go c (Unlock l) (upd_lock l (\<lambda>lk. lk\<lparr>lk_cpu := None\<rparr>) s)
      else go c (Panicked ''release'') s)"

definition release_unlock :: "nat \<Rightarrow> nat \<Rightarrow> smp \<Rightarrow> smp" where
  "release_unlock c l s = go c Pop (upd_lock l (\<lambda>lk. lk\<lparr>lk_locked := False\<rparr>) s)"

definition release_end :: "nat \<Rightarrow> smp \<Rightarrow> smp" where
  "release_end c s =
     (case pop_off (cpus s c) of
        Inr (_, k) \<Rightarrow> go c Outside (upd_cpu c (\<lambda>_. k) s)
      | Inl (Panic m) \<Rightarrow> go c (Panicked m) s
      | Inl _ \<Rightarrow> s)"

text \<open>
  Outside the lock routines a CPU may acquire or release any lock, rightly or not, and the kernel
  may switch its interrupts on and off while it is in no critical section.
\<close>

inductive smp_step :: "smp \<Rightarrow> smp \<Rightarrow> bool" where
  begin_acquire: "points s c = Outside \<Longrightarrow> smp_step s (acquire_begin c l s)"
| swap: "points s c = Spin l \<Longrightarrow> smp_step s (acquire_swap c l s)"
| end_acquire: "points s c = Record l \<Longrightarrow> smp_step s (acquire_end c l s)"
| begin_release: "points s c = Outside \<Longrightarrow> smp_step s (release_begin c l s)"
| unlock: "points s c = Unlock l \<Longrightarrow> smp_step s (release_unlock c l s)"
| end_release: "points s c = Pop \<Longrightarrow> smp_step s (release_end c s)"
| interrupts: "points s c = Outside \<Longrightarrow> noff (cpus s c) = 0 \<Longrightarrow> smp_step s (upd_cpu c (\<lambda>k. k\<lparr>sie := on\<rparr>) s)"

definition smp_init :: smp where
  "smp_init = \<lparr>locks = (\<lambda>_. initlock), cpus = (\<lambda>_. \<lparr>noff = 0, intena = False, sie = False\<rparr>), points = (\<lambda>_. Outside)\<rparr>"

section \<open>The invariant\<close>

text \<open>A CPU owns a lock from its swap to its clearing of the lock word.\<close>

definition owns :: "smp \<Rightarrow> nat \<Rightarrow> nat \<Rightarrow> bool" where
  "owns s c l \<longleftrightarrow> lk_cpu (locks s l) = Some c \<or> points s c = Record l \<or> points s c = Unlock l"

definition inside :: "point \<Rightarrow> bool" where
  "inside p \<longleftrightarrow> (case p of Spin l \<Rightarrow> True | Record l \<Rightarrow> True | Unlock l \<Rightarrow> True | Pop \<Rightarrow> True
     | Panicked m \<Rightarrow> m = ''acquire'' | Outside \<Rightarrow> False)"

definition held :: "smp \<Rightarrow> nat \<Rightarrow> nat set" where
  "held s c = {l. lk_cpu (locks s l) = Some c}"

definition lock_inv :: "smp \<Rightarrow> bool" where
  "lock_inv s \<longleftrightarrow>
     (\<forall>c d l. owns s c l \<and> owns s d l \<longrightarrow> c = d) \<and>
     (\<forall>l. lk_locked (locks s l) \<longleftrightarrow> (\<exists>c. owns s c l)) \<and>
     (\<forall>c l. points s c = Record l \<or> points s c = Unlock l \<longrightarrow> lk_cpu (locks s l) = None) \<and>
     (\<forall>c. finite (held s c) \<and> noff (cpus s c) = int (card (held s c)) + of_bool (inside (points s c))) \<and>
     (\<forall>c. 0 < noff (cpus s c) \<longrightarrow> \<not> sie (cpus s c))"

lemma lock_inv_init: "lock_inv smp_init"
  by (simp add: lock_inv_def smp_init_def initlock_def owns_def held_def inside_def)

lemma smp_simps [simp]:
  "locks (go c p s) = locks s" "cpus (go c p s) = cpus s" "points (go c p s) = (points s)(c := p)"
  "locks (upd_lock l f s) = (locks s)(l := f (locks s l))" "cpus (upd_lock l f s) = cpus s" "points (upd_lock l f s) = points s"
  "locks (upd_cpu c g s) = locks s" "cpus (upd_cpu c g s) = (cpus s)(c := g (cpus s c))" "points (upd_cpu c g s) = points s"
  by (simp_all add: go_def upd_lock_def upd_cpu_def)

lemma inside_simps [simp]:
  "\<not> inside Outside" "inside (Spin l)" "inside (Record l)" "inside (Unlock l)" "inside Pop" "inside (Panicked ''acquire'')"
  "\<not> inside (Panicked ''release'')"
  by (simp_all add: inside_def)

lemma push_off_simps [simp]: "noff (push_off k) = noff k + 1" "\<not> sie (push_off k)"
  by (simp_all add: push_off_def Let_def)

lemma lock_invD:
  assumes "lock_inv s"
  shows "owns s c l \<Longrightarrow> owns s d l \<Longrightarrow> c = d" and "lk_locked (locks s l) \<longleftrightarrow> (\<exists>c. owns s c l)"
    and "points s c = Record l \<Longrightarrow> lk_cpu (locks s l) = None" and "points s c = Unlock l \<Longrightarrow> lk_cpu (locks s l) = None"
    and "finite (held s c)" and "noff (cpus s c) = int (card (held s c)) + of_bool (inside (points s c))"
    and "0 < noff (cpus s c) \<Longrightarrow> \<not> sie (cpus s c)"
  using assms by (auto simp: lock_inv_def)

lemma holding_iff: "lock_inv s \<Longrightarrow> holding (locks s l) c \<longleftrightarrow> lk_cpu (locks s l) = Some c"
  using lock_invD(2) [of s l] by (auto simp: holding_def owns_def)

lemma lock_invI:
  assumes "\<And>c d l. owns s c l \<Longrightarrow> owns s d l \<Longrightarrow> c = d" and "\<And>l. lk_locked (locks s l) \<longleftrightarrow> (\<exists>c. owns s c l)"
    and "\<And>c l. points s c = Record l \<or> points s c = Unlock l \<Longrightarrow> lk_cpu (locks s l) = None"
    and "\<And>c. finite (held s c)" and "\<And>c. noff (cpus s c) = int (card (held s c)) + of_bool (inside (points s c))"
    and "\<And>c. 0 < noff (cpus s c) \<Longrightarrow> \<not> sie (cpus s c)"
  shows "lock_inv s"
  using assms unfolding lock_inv_def by blast

lemma acquire_begin_inv:
  assumes i: "lock_inv s" and p: "points s c = Outside"
  shows "lock_inv (acquire_begin c l s)"
proof -
  let ?t = "acquire_begin c l s"
  have o: "owns ?t = owns s" using p by (auto simp: fun_eq_iff acquire_begin_def owns_def)
  have h: "held ?t = held s" by (simp add: fun_eq_iff acquire_begin_def held_def)
  show ?thesis
    using lock_invD [OF i] p
    by (intro lock_invI) (auto simp: o h, auto simp: acquire_begin_def split: if_splits)
qed

lemma acquire_swap_inv:
  assumes i: "lock_inv s" and p: "points s c = Spin l"
  shows "lock_inv (acquire_swap c l s)"
proof -
  let ?t = "acquire_swap c l s"
  have h: "held ?t = held s" by (auto simp: fun_eq_iff acquire_swap_def held_def)
  have o: "owns ?t d m \<longleftrightarrow> owns s d m \<or> d = c \<and> m = l \<and> \<not> lk_locked (locks s l)" for d m
    using p by (auto simp: acquire_swap_def owns_def)
  have none: "lk_cpu (locks s l) = None" if "\<not> lk_locked (locks s l)"
    using that lock_invD(2) [OF i, of l] by (cases "lk_cpu (locks s l)") (auto simp: owns_def)
  show ?thesis
  proof (intro lock_invI)
    show "d = e" if "owns ?t d m" "owns ?t e m" for d e m
      using that lock_invD(1,2) [OF i] unfolding o by blast
    show "lk_locked (locks ?t m) \<longleftrightarrow> (\<exists>d. owns ?t d m)" for m
      using lock_invD(2) [OF i, of m] unfolding o by (auto simp: acquire_swap_def)
    show "lk_cpu (locks ?t m) = None" if "points ?t d = Record m \<or> points ?t d = Unlock m" for d m
      using that lock_invD(3,4) [OF i, of d m] none by (auto simp: acquire_swap_def split: if_splits)
  qed (use lock_invD [OF i] p in \<open>auto simp: h, auto simp: acquire_swap_def split: if_splits\<close>)
qed

lemma acquire_end_inv:
  assumes i: "lock_inv s" and p: "points s c = Record l"
  shows "lock_inv (acquire_end c l s)"
proof -
  let ?t = "acquire_end c l s"
  have none: "lk_cpu (locks s l) = None" using lock_invD(3) [OF i p] .
  have h: "held ?t d = (if d = c then insert l (held s c) else held s d)" for d
    using none by (auto simp: acquire_end_def held_def)
  have l: "l \<notin> held s c" using none by (simp add: held_def)
  have o: "owns ?t = owns s" using p none by (auto simp: fun_eq_iff acquire_end_def owns_def)
  show ?thesis
  proof (intro lock_invI)
    show "lk_cpu (locks ?t m) = None" if "points ?t d = Record m \<or> points ?t d = Unlock m" for d m
      using that lock_invD(1) [OF i, of c l d] lock_invD(3,4) [OF i, of d m] p
      by (auto simp: acquire_end_def owns_def split: if_splits)
    show "noff (cpus ?t d) = int (card (held ?t d)) + of_bool (inside (points ?t d))" for d
      using lock_invD(5,6) [OF i, of d] l p by (auto simp: h) (auto simp: acquire_end_def)
  qed (use lock_invD [OF i] in \<open>auto simp: h o, auto simp: acquire_end_def split: if_splits\<close>)
qed

lemma release_begin_inv:
  assumes i: "lock_inv s" and p: "points s c = Outside"
  shows "lock_inv (release_begin c l s)"
proof (cases "holding (locks s l) c")
  case True
  let ?t = "release_begin c l s"
  have cpu: "lk_cpu (locks s l) = Some c" using True by (simp add: holding_def)
  have h: "held ?t d = (if d = c then held s c - {l} else held s d)" for d
    using cpu True by (auto simp: release_begin_def held_def)
  have l: "l \<in> held s c" using cpu by (simp add: held_def)
  have o: "owns ?t = owns s" using p cpu True by (auto simp: fun_eq_iff release_begin_def owns_def)
  have "card (held s c) = Suc (card (held s c - {l}))" using l lock_invD(5) [OF i] by (metis card_Suc_Diff1)
  then show ?thesis
    using lock_invD [OF i] p True
    by (intro lock_invI) (auto simp: o h, auto simp: release_begin_def split: if_splits)
next
  case False
  let ?t = "release_begin c l s"
  have "owns ?t = owns s" "held ?t = held s"
    using False p by (auto simp: fun_eq_iff release_begin_def owns_def held_def)
  then show ?thesis
    using lock_invD [OF i] p False
    by (intro lock_invI) (auto, auto simp: release_begin_def split: if_splits)
qed

lemma release_unlock_inv:
  assumes i: "lock_inv s" and p: "points s c = Unlock l"
  shows "lock_inv (release_unlock c l s)"
proof -
  let ?t = "release_unlock c l s"
  have h: "held ?t = held s" by (auto simp: fun_eq_iff release_unlock_def held_def)
  have own: "owns s c l" using p by (simp add: owns_def)
  have "\<not> owns ?t d l" for d
  proof
    assume d: "owns ?t d l"
    then have "d \<noteq> c" using lock_invD(4) [OF i p] by (auto simp: release_unlock_def owns_def)
    then have "owns s d l" using d by (simp add: release_unlock_def owns_def)
    then show False using lock_invD(1) [OF i own] \<open>d \<noteq> c\<close> by blast
  qed
  moreover have "owns ?t d m \<longleftrightarrow> owns s d m" if "m \<noteq> l" for d m
    using that p by (simp add: release_unlock_def owns_def)
  ultimately have o: "owns ?t d m \<longleftrightarrow> owns s d m \<and> m \<noteq> l" for d m by metis
  show ?thesis
  proof (intro lock_invI)
    show "lk_locked (locks ?t m) \<longleftrightarrow> (\<exists>d. owns ?t d m)" for m
      using lock_invD(2) [OF i, of m] unfolding o by (simp add: release_unlock_def)
    show "lk_cpu (locks ?t m) = None" if "points ?t d = Record m \<or> points ?t d = Unlock m" for d m
      using that lock_invD(3,4) [OF i, of d m] by (auto simp: release_unlock_def split: if_splits)
  qed (use lock_invD [OF i] p in \<open>auto simp: h o, auto simp: release_unlock_def split: if_splits\<close>)
qed

lemma pop_off_ok:
  assumes "\<not> sie k" and "1 \<le> noff k"
  shows "\<exists>k'. pop_off k = Inr ((), k') \<and> noff k' = noff k - 1 \<and> (sie k' \<longrightarrow> noff k' = 0)"
  using assms by (simp add: pop_off_def bnd_def andthen_def gets_def modify_def panic_if_def skip_def ret_def)

lemma release_end_ok:
  assumes i: "lock_inv s" and p: "points s c = Pop"
  shows "\<exists>k. release_end c s = go c Outside (upd_cpu c (\<lambda>_. k) s) \<and> noff k = noff (cpus s c) - 1 \<and> (sie k \<longrightarrow> noff k = 0)"
  using pop_off_ok [of "cpus s c"] lock_invD(6,7) [OF i, of c] p by (auto simp: release_end_def)

lemma release_end_inv:
  assumes i: "lock_inv s" and p: "points s c = Pop"
  shows "lock_inv (release_end c s)"
proof -
  obtain k where k: "release_end c s = go c Outside (upd_cpu c (\<lambda>_. k) s)" "noff k = noff (cpus s c) - 1" "sie k \<longrightarrow> noff k = 0"
    using release_end_ok [OF i p] by blast
  have h: "held (release_end c s) = held s" by (auto simp: fun_eq_iff k(1) held_def)
  have o: "owns (release_end c s) = owns s" using p by (auto simp: fun_eq_iff k(1) owns_def)
  show ?thesis
    using lock_invD [OF i] p k(2,3)
    by (intro lock_invI) (auto simp: h o, auto simp: k(1) split: if_splits)
qed

lemma interrupts_inv:
  assumes i: "lock_inv s" and n: "noff (cpus s c) = 0"
  shows "lock_inv (upd_cpu c (\<lambda>k. k\<lparr>sie := on\<rparr>) s)"
proof -
  let ?t = "upd_cpu c (\<lambda>k. k\<lparr>sie := on\<rparr>) s"
  have "held ?t = held s" "owns ?t = owns s" by (simp_all add: fun_eq_iff held_def owns_def)
  then show ?thesis using lock_invD [OF i] n by (intro lock_invI) auto
qed

lemma smp_step_inv: "smp_step s t \<Longrightarrow> lock_inv s \<Longrightarrow> lock_inv t"
  by (induction rule: smp_step.induct)
    (auto intro: acquire_begin_inv acquire_swap_inv acquire_end_inv release_begin_inv release_unlock_inv
      release_end_inv interrupts_inv)

lemma reachable_inv: "smp_step\<^sup>*\<^sup>* smp_init s \<Longrightarrow> lock_inv s"
  by (induction rule: rtranclp_induct) (auto intro: lock_inv_init smp_step_inv)

text \<open>A CPU that panics: it acquired a lock it held, or released one it did not hold.\<close>

definition blame :: "smp \<Rightarrow> bool" where
  "blame s \<longleftrightarrow> (\<forall>c m. points s c = Panicked m \<longrightarrow>
     m = ''acquire'' \<and> held s c \<noteq> {} \<or> m = ''release'')"

lemma smp_step_blame:
  assumes "smp_step s t" and "lock_inv s" and "blame s"
  shows "blame t"
  using assms
proof (cases rule: smp_step.cases)
  case (begin_acquire c l)
  have "held t = held s" by (simp add: fun_eq_iff begin_acquire acquire_begin_def held_def)
  moreover have "l \<in> held s c" if "holding (locks s l) c" using that by (simp add: held_def holding_def)
  ultimately show ?thesis using assms(3) by (auto simp: blame_def begin_acquire acquire_begin_def split: if_splits)
next
  case (swap c l)
  have "held t = held s" by (auto simp: fun_eq_iff swap acquire_swap_def held_def)
  then show ?thesis using assms(3) by (auto simp: blame_def swap acquire_swap_def split: if_splits)
next
  case (end_acquire c l)
  have "lk_cpu (locks s l) = None" using lock_invD(3) [OF assms(2)] end_acquire by blast
  then have sub: "held s d \<subseteq> held t d" for d by (auto simp: end_acquire acquire_end_def held_def)
  have "points s d = Panicked m" if "points t d = Panicked m" for d m
    using that by (auto simp: end_acquire acquire_end_def split: if_splits)
  then show ?thesis using assms(3) sub unfolding blame_def by blast
next
  case (begin_release c l)
  have "held t d = held s d" if "d \<noteq> c" for d
    using that by (auto simp: begin_release release_begin_def held_def holding_def)
  moreover have "m = ''release'' \<or> d \<noteq> c \<and> points s d = Panicked m" if "points t d = Panicked m" for d m
    using that by (auto simp: begin_release release_begin_def split: if_splits)
  ultimately show ?thesis using assms(3) unfolding blame_def by metis
next
  case (unlock c l)
  have "held t = held s" by (auto simp: fun_eq_iff unlock release_unlock_def held_def)
  then show ?thesis using assms(3) by (auto simp: blame_def unlock release_unlock_def split: if_splits)
next
  case (end_release c)
  then obtain k where "t = go c Outside (upd_cpu c (\<lambda>_. k) s)" using release_end_ok [OF assms(2)] by blast
  then show ?thesis using assms(3) by (auto simp: blame_def held_def split: if_splits)
qed (auto simp: blame_def held_def)

lemma reachable_blame: "smp_step\<^sup>*\<^sup>* smp_init s \<Longrightarrow> blame s"
proof (induction rule: rtranclp_induct)
  case base
  then show ?case by (simp add: blame_def smp_init_def)
next
  case (step s t)
  then show ?case using smp_step_blame reachable_inv by blast
qed

section \<open>Properties\<close>

text \<open>
  C19. Spin locks exclude each other. However the CPUs interleave their steps and in whatever
  order they call \<^verbatim>\<open>acquire\<close> and \<^verbatim>\<open>release\<close>, in every state that can be reached:
  \<^item> at most one CPU owns a lock, and the lock word is set exactly while a CPU owns it;
  \<^item> \<^verbatim>\<open>holding\<close> answers for a CPU exactly whether it has acquired the lock and not released it;
  \<^item> interrupts are off on a CPU that holds a lock or is about to;
  \<^item> the only panics are those of a CPU that acquires a lock while it holds one, in \<^verbatim>\<open>acquire\<close>, and
    of a CPU that releases a lock, in \<^verbatim>\<open>release\<close>: \<^verbatim>\<open>pop_off\<close> never panics.
\<close>

theorem mutual_exclusion:
  assumes "smp_step\<^sup>*\<^sup>* smp_init s"
  shows "(\<forall>c d l. owns s c l \<and> owns s d l \<longrightarrow> c = d) \<and>
    (\<forall>l. lk_locked (locks s l) \<longleftrightarrow> (\<exists>c. owns s c l)) \<and>
    (\<forall>c l. holding (locks s l) c \<longleftrightarrow> l \<in> held s c) \<and>
    (\<forall>c. held s c \<noteq> {} \<or> (\<exists>l. points s c = Spin l \<or> points s c = Record l) \<longrightarrow> \<not> sie (cpus s c)) \<and>
    (\<forall>c m. points s c = Panicked m \<longrightarrow> m = ''acquire'' \<and> held s c \<noteq> {} \<or> m = ''release'')"
proof -
  have i: "lock_inv s" by (rule reachable_inv [OF assms])
  have "\<not> sie (cpus s c)" if "held s c \<noteq> {} \<or> (\<exists>l. points s c = Spin l \<or> points s c = Record l)" for c
  proof -
    have "card (held s c) > 0 \<or> inside (points s c)" using that lock_invD(5) [OF i] by (auto simp: card_gt_0_iff)
    then have "0 < noff (cpus s c)" unfolding lock_invD(6) [OF i, of c] by (auto simp: add_pos_nonneg)
    then show ?thesis by (rule lock_invD(7) [OF i])
  qed
  then show ?thesis
    using lock_invD(1,2) [OF i] holding_iff [OF i] reachable_blame [OF assms] unfolding blame_def held_def by blast
qed

text \<open>Two CPUs want lock 7; the first gets it and the second spins.\<close>

definition contended :: smp where
  "contended = acquire_swap 1 7 (acquire_end 0 7 (acquire_swap 0 7 (acquire_begin 1 7 (acquire_begin 0 7 smp_init))))"

theorem mutual_exclusion_witness:
  "smp_step\<^sup>*\<^sup>* smp_init contended \<and> owns contended 0 7 \<and> \<not> owns contended 1 7 \<and>
   points contended 1 = Spin 7 \<and> \<not> sie (cpus contended 1)"
proof -
  let ?a = "acquire_begin 0 7 smp_init"
  let ?b = "acquire_begin 1 7 ?a"
  let ?c = "acquire_swap 0 7 ?b"
  let ?d = "acquire_end 0 7 ?c"
  have 1: "smp_step smp_init ?a" by (rule begin_acquire) (simp add: smp_init_def)
  have 2: "smp_step ?a ?b" by (rule begin_acquire) (simp add: smp_init_def acquire_begin_def)
  have 3: "smp_step ?b ?c" by (rule swap) (simp add: smp_init_def acquire_begin_def initlock_def holding_def)
  have 4: "smp_step ?c ?d"
    by (rule end_acquire) (simp add: smp_init_def acquire_begin_def acquire_swap_def initlock_def holding_def)
  have 5: "smp_step ?d contended"
    unfolding contended_def
    by (rule swap) (simp add: smp_init_def acquire_begin_def acquire_swap_def acquire_end_def initlock_def holding_def)
  have r: "smp_step\<^sup>*\<^sup>* smp_init contended"
    by (rule rtranclp.rtrancl_into_rtrancl, rule rtranclp.rtrancl_into_rtrancl, rule rtranclp.rtrancl_into_rtrancl,
        rule rtranclp.rtrancl_into_rtrancl, rule r_into_rtranclp, fact 1, fact 2, fact 3, fact 4, fact 5)
  have p: "points contended 1 = Spin 7" and o: "owns contended 0 7"
    by (simp_all add: contended_def smp_init_def acquire_begin_def acquire_swap_def acquire_end_def initlock_def
        holding_def owns_def)
  note m = mutual_exclusion [OF r]
  have "\<not> owns contended 1 7" using conjunct1 [OF m] o by (metis zero_neq_one)
  moreover have "\<not> sie (cpus contended 1)" using m p by blast
  ultimately show ?thesis using r p o by blast
qed

end
