(* ===== verification/Sched.thy ===== *)
theory Sched
  imports Spinlock Sample
begin

text \<open>
  The switch to the scheduler (\<^verbatim>\<open>sched\<close> in \<^verbatim>\<open>kernel/proc.c\<close>) with its checks on the locks of the CPU, and
  the progress that the scheduler and \<^verbatim>\<open>wakeup\<close> give to a process.
\<close>

section \<open>Leaving the CPU\<close>

text \<open>
  \<open>lk\<close> is the lock of the running process, \<open>st\<close> its state, \<open>c\<close> the CPU; \<open>away\<close> stands for the time from
  \<^verbatim>\<open>swtch\<close> to the return of this kernel thread, on whatever CPU.
\<close>

definition sched :: "(cpu \<Rightarrow> cpu) \<Rightarrow> spinlock \<Rightarrow> nat \<Rightarrow> procstate \<Rightarrow> (cpu, unit) routine" where
  "sched away lk c st =
     andthen (panic_if (\<not> holding lk c) ''sched p->lock'')
    (bnd (gets noff) (\<lambda>n.
     andthen (panic_if (n \<noteq> 1) ''sched locks'')
    (andthen (panic_if (st = RUNNING) ''sched RUNNING'')
    (bnd (gets sie) (\<lambda>on.
     andthen (panic_if on ''sched interruptible'')
    (bnd (gets intena) (\<lambda>old.
     andthen (modify away)
             (modify (\<lambda>k. k\<lparr>intena := old\<rparr>)))))))))"

lemma sched_ok:
  assumes "smp_step\<^sup>*\<^sup>* smp_init s" and "points s c = Outside" and "held s c = {l}" and "st \<noteq> RUNNING"
  shows "sched away (locks s l) c st (cpus s c) = Inr ((), (away (cpus s c))\<lparr>intena := intena (cpus s c)\<rparr>)"
proof -
  have i: "lock_inv s" by (rule reachable_inv [OF assms(1)])
  have "holding (locks s l) c" using assms(3) by (auto simp: holding_iff [OF i] held_def)
  moreover have "noff (cpus s c) = 1" using lock_invD(6) [OF i, of c] assms(2,3) by simp
  moreover have "\<not> sie (cpus s c)" using lock_invD(7) [OF i, of c] \<open>noff (cpus s c) = 1\<close> by simp
  ultimately show ?thesis using assms(4) by (simp add: sched_def run_defs)
qed

section \<open>Progress\<close>

text \<open>What the other processes do when they run leaves a runnable process runnable.\<close>

definition leaves_runnable :: "(nat \<Rightarrow> 'a kproc_scheme \<Rightarrow> 'a kproc_scheme) \<Rightarrow> nat \<Rightarrow> bool" where
  "leaves_runnable run i \<longleftrightarrow> (\<forall>j s. j \<noteq> i \<and> i < length (procs s) \<and> p_state (procs s ! i) = RUNNABLE \<longrightarrow>
     i < length (procs (run j s)) \<and> p_state (procs (run j s) ! i) = RUNNABLE)"

definition awaits :: "nat \<Rightarrow> 'a kproc_scheme \<Rightarrow> bool" where
  "awaits i s \<longleftrightarrow> i < length (procs s) \<and> p_state (procs s ! i) = RUNNABLE"

lemma sched_slot_awaits:
  assumes "leaves_runnable run i" and "awaits i (fst sf)" and "j \<noteq> i"
  shows "awaits i (fst (sched_slot run j sf))"
  using assms unfolding leaves_runnable_def awaits_def by (simp add: sched_slot_def nth_upd_proc)

lemma scan_awaits:
  assumes "leaves_runnable run i" and "awaits i (fst sf)" and "i \<notin> set js"
  shows "awaits i (fst (foldl (\<lambda>sf j. sched_slot run j sf) sf js))"
  using assms(2,3)
proof (induction js arbitrary: sf)
  case (Cons j js)
  then show ?case using sched_slot_awaits [OF assms(1)] by simp
qed simp

text \<open>The process is switched to in this pass: \<open>u\<close> is the state in which it gets the CPU.\<close>

definition scheduled :: "(nat \<Rightarrow> 'a kproc_scheme \<Rightarrow> 'a kproc_scheme) \<Rightarrow> nat \<Rightarrow> 'a kproc_scheme \<Rightarrow> bool" where
  "scheduled run i s \<longleftrightarrow> (\<exists>u. cur u = Some i \<and> p_state (procs u ! i) = RUNNING \<and>
     scheduler_pass run s = foldl (\<lambda>sf j. sched_slot run j sf) ((run i u)\<lparr>cur := None\<rparr>, True) [Suc i..<length (procs s)])"

lemma awaits_scheduled:
  assumes "leaves_runnable run i" and "awaits i s"
  shows "scheduled run i s"
proof -
  let ?f = "foldl (\<lambda>sf j. sched_slot run j sf)"
  define sf where "sf = ?f (s\<lparr>cur := None\<rparr>, False) [0..<i]"
  have "[0..<length (procs s)] = [0..<i] @ i # [Suc i..<length (procs s)]"
  proof -
    obtain k where "length (procs s) = i + Suc k" using assms(2) less_iff_Suc_add by (auto simp: awaits_def)
    then show ?thesis using upt_add_eq_append [of 0 i "Suc k"] by (simp add: upt_conv_Cons del: upt_Suc)
  qed
  then have "scheduler_pass run s = ?f (sched_slot run i sf) [Suc i..<length (procs s)]"
    by (simp add: scheduler_pass_def sf_def)
  moreover have "awaits i (fst sf)"
    unfolding sf_def using assms by (intro scan_awaits) (simp_all add: awaits_def)
  ultimately show ?thesis
    unfolding scheduled_def awaits_def
    by (intro exI [of _ "(upd_proc i (\<lambda>p. p\<lparr>p_state := RUNNING\<rparr>) (fst sf))\<lparr>cur := Some i\<rparr>"])
      (simp add: sched_slot_def nth_upd_proc)
qed

lemma wakeup_awaits:
  assumes "i < length (procs s)" and "p_state (procs s ! i) = SLEEPING" and "p_chan (procs s ! i) = Some ch"
    and "cur s \<noteq> Some i"
  shows "awaits i (wakeup ch s)"
  using assms by (simp add: awaits_def wakeup_def wake_proc_def nth_enumerate_eq)

lemma kkill_awaits:
  assumes "find_pid pid (procs s) 0 = Some i" and "i < length (procs s)" and "p_state (procs s ! i) = SLEEPING"
  shows "\<exists>t. kkill pid s = Inr (0, t) \<and> awaits i t \<and> p_killed (procs t ! i) = 1"
  using assms by (simp add: kkill_def run_defs awaits_def nth_upd_proc)

section \<open>Properties\<close>

text \<open>
  C21. Every runnable process runs. As long as the processes that run before it leave it
  runnable, one pass of the scheduler switches to every process that is runnable; a process
  that sleeps on a channel is switched to in the pass after a \<^verbatim>\<open>wakeup\<close> of the channel, and a process
  that sleeps anywhere is switched to in the pass after a \<^verbatim>\<open>kill\<close>, with its killed flag set.
\<close>

theorem runnable_is_scheduled:
  assumes "leaves_runnable run i" and "i < length (procs s)"
  shows "(p_state (procs s ! i) = RUNNABLE \<longrightarrow> scheduled run i s) \<and>
    (p_state (procs s ! i) = SLEEPING \<and> p_chan (procs s ! i) = Some ch \<and> cur s \<noteq> Some i \<longrightarrow>
       scheduled run i (wakeup ch s)) \<and>
    (p_state (procs s ! i) = SLEEPING \<and> find_pid pid (procs s) 0 = Some i \<longrightarrow>
       (\<exists>t. kkill pid s = Inr (0, t) \<and> p_killed (procs t ! i) = 1 \<and> scheduled run i t))"
  using awaits_scheduled [OF assms(1)] wakeup_awaits [OF assms(2)] kkill_awaits [OF _ assms(2)] assms(2)
  unfolding awaits_def by metis

text \<open>Two processes of which the second sleeps, and runs that end with a \<^verbatim>\<open>yield\<close>.\<close>

definition sleeper_kernel :: kernel where
  "sleeper_kernel = sample_kernel [sample_proc, sample_proc\<lparr>p_pid := 2, p_state := SLEEPING, p_chan := Some (ChPipeR 0)\<rparr>] sample_tf"

definition run_and_yield :: "nat \<Rightarrow> 'a kproc_scheme \<Rightarrow> 'a kproc_scheme" where
  "run_and_yield j s = yield (s\<lparr>cur := Some j\<rparr>)"

theorem runnable_is_scheduled_witness:
  "scheduled run_and_yield 1 (wakeup (ChPipeR 0) sleeper_kernel) \<and>
   (\<exists>t. kkill 2 sleeper_kernel = Inr (0, t) \<and> scheduled run_and_yield 1 t)"
proof -
  have "leaves_runnable (run_and_yield :: nat \<Rightarrow> kernel \<Rightarrow> kernel) 1"
    by (simp add: leaves_runnable_def run_and_yield_def yield_def nth_upd_proc me_def)
  then show ?thesis
    using runnable_is_scheduled [of run_and_yield 1 sleeper_kernel "ChPipeR 0" 2]
    by (auto simp: sleeper_kernel_def sample_kernel_def sample_proc_def)
qed

end
