(* ===== verification/Ulib.thy ===== *)
theory Ulib
  imports Printf
begin

text \<open>
  \<^verbatim>\<open>user/ulib.c\<close>: the string and memory routines of user programs. Strings and memory are as
  in the kernel's \<^verbatim>\<open>string.c\<close>; a routine that has a namesake there carries the prefix \<open>u\<close>.
  System calls are parameters.
\<close>

section \<open>Strings\<close>

text \<open>\<^verbatim>\<open>strcpy\<close> returns the contents of the array \<open>s\<close> afterwards.\<close>

function strcpy :: "string \<Rightarrow> string \<Rightarrow> string" where
  "strcpy s t = cs_hd t # (if cs_hd t \<noteq> NUL then strcpy (tl s) (tl t) else tl s)"
  by pat_completeness auto
termination
proof (relation "measure (\<lambda>(s, t). length t)", goal_cases)
  case (2 s t)
  then show ?case by (cases t) auto
qed simp

declare strcpy.simps [simp del]

function strcmp :: "string \<Rightarrow> string \<Rightarrow> int" where
  "strcmp p q =
     (if cs_hd p \<noteq> NUL \<and> cs_hd p = cs_hd q then strcmp (tl p) (tl q)
      else of_char (cs_hd p) - of_char (cs_hd q))"
  by pat_completeness auto
termination
proof (relation "measure (\<lambda>(p, q). length p)", goal_cases)
  case (2 p q)
  then show ?case by (cases p) auto
qed simp

declare strcmp.simps [simp del]

fun ustrlen :: "string \<Rightarrow> nat" where
  "ustrlen [] = 0"
| "ustrlen (c # s) = (if c = NUL then 0 else Suc (ustrlen s))"

text \<open>\<^verbatim>\<open>strchr\<close> returns a pointer into the string: the rest of it from there on.\<close>

fun strchr :: "string \<Rightarrow> char \<Rightarrow> string option" where
  "strchr [] c = None"
| "strchr (x # s) c = (if x = NUL then None else if x = c then Some (x # s) else strchr s c)"

text \<open>\<^verbatim>\<open>atoi\<close>; the accumulator is a 32-bit register.\<close>

fun atoi_loop :: "u32 \<Rightarrow> string \<Rightarrow> u32" where
  "atoi_loop n [] = n"
| "atoi_loop n (c # s) =
     (if (of_char (CHR ''0'') :: nat) \<le> of_char c \<and> (of_char c :: nat) \<le> of_char (CHR ''9'') then atoi_loop (n * 10 + of_char c - of_char (CHR ''0'')) s else n)"

definition atoi :: "string \<Rightarrow> int" where
  "atoi s = sint (atoi_loop 0 s)"

text \<open>
  The loop of \<^verbatim>\<open>gets\<close>: \<open>rd\<close> is \<^verbatim>\<open>read(0, &c, 1)\<close>, which gives a character or not (end of
  file, or an error), and \<open>n\<close> is \<open>max - 1 - i\<close>, the room left.
\<close>

fun gets_loop :: "('s \<Rightarrow> char option \<times> 's) \<Rightarrow> nat \<Rightarrow> 's \<Rightarrow> string \<times> 's" where
  "gets_loop rd 0 s = ([], s)"
| "gets_loop rd (Suc n) s =
     (case rd s of
        (None, t) \<Rightarrow> ([], t)
      | (Some c, t) \<Rightarrow>
          if c = CHR 0x0A \<or> c = CHR 0x0D then ([c], t)
          else (case gets_loop rd n t of (cs, u) \<Rightarrow> (c # cs, u)))"

text \<open>\<^verbatim>\<open>gets\<close>: the bytes stored in the buffer, the terminating NUL included.\<close>

definition ugets :: "('s \<Rightarrow> char option \<times> 's) \<Rightarrow> nat \<Rightarrow> 's \<Rightarrow> string \<times> 's" where
  "ugets rd mx s = (case gets_loop rd (mx - 1) s of (cs, t) \<Rightarrow> (cs @ [NUL], t))"

section \<open>Memory\<close>

fun umemset_loop :: "mem \<Rightarrow> u64 \<Rightarrow> u8 \<Rightarrow> nat \<Rightarrow> nat \<Rightarrow> mem" where
  "umemset_loop m dst c i 0 = m"
| "umemset_loop m dst c i (Suc n) = umemset_loop (m(dst + of_nat i := c)) dst c (Suc i) n"

definition umemset :: "mem \<Rightarrow> u64 \<Rightarrow> u8 \<Rightarrow> nat \<Rightarrow> mem" where
  "umemset m dst c n = umemset_loop m dst c 0 n"

text \<open>The two loops are those of the kernel's \<^verbatim>\<open>memmove\<close>; the choice between them is not.\<close>

definition umemmove :: "mem \<Rightarrow> u64 \<Rightarrow> u64 \<Rightarrow> nat \<Rightarrow> mem" where
  "umemmove m dst src n =
     (if src > dst then copy_up m dst src n
      else copy_down m (dst + of_nat n) (src + of_nat n) n)"

fun umemcmp :: "mem \<Rightarrow> u64 \<Rightarrow> u64 \<Rightarrow> nat \<Rightarrow> int" where
  "umemcmp m s1 s2 0 = 0"
| "umemcmp m s1 s2 (Suc n) =
     (if m s1 \<noteq> m s2 then uint (m s1) - uint (m s2) else umemcmp m (s1 + 1) (s2 + 1) n)"

definition memcpy :: "mem \<Rightarrow> u64 \<Rightarrow> u64 \<Rightarrow> nat \<Rightarrow> mem" where
  "memcpy m dst src n = umemmove m dst src n"

section \<open>stat\<close>

text \<open>\<^verbatim>\<open>stat\<close> over the system calls \<^verbatim>\<open>open\<close>, \<^verbatim>\<open>fstat\<close> and \<^verbatim>\<open>close\<close>.\<close>

definition ustat ::
  "(string \<Rightarrow> int \<Rightarrow> 's \<Rightarrow> int \<times> 's) \<Rightarrow> (int \<Rightarrow> 's \<Rightarrow> int \<times> 's) \<Rightarrow> (int \<Rightarrow> 's \<Rightarrow> int \<times> 's)
     \<Rightarrow> string \<Rightarrow> 's \<Rightarrow> int \<times> 's" where
  "ustat opn fstat cls n s =
     (case opn n 0 s of (fd, t) \<Rightarrow>
        if fd < 0 then (-1, t)
        else (case fstat fd t of (r, u) \<Rightarrow> (r, snd (cls fd u))))"

section \<open>What the routines do\<close>

lemma ustrlen_cstr: "ustrlen s = length (cstr s)"
  by (induction s) (auto simp: cstr_def)

lemma strcpy_cstr: "strcpy s t = cstr t @ NUL # drop (Suc (length (cstr t))) s"
proof (induction s t rule: strcpy.induct)
  case (1 s t)
  show ?case
  proof (cases "cs_hd t = NUL")
    case True
    then have "cstr t = []" by (simp add: cs_hd_NUL_iff)
    then show ?thesis using True by (simp add: strcpy.simps [of s t] drop_Suc)
  next
    case False
    then show ?thesis using 1 by (simp add: strcpy.simps [of s t] cstr_step drop_Suc)
  qed
qed

lemma strcmp_0_iff: "strcmp p q = 0 \<longleftrightarrow> cstr p = cstr q"
proof (induction p q rule: strcmp.induct)
  case (1 p q)
  show ?case
  proof (cases "cs_hd p \<noteq> NUL \<and> cs_hd p = cs_hd q")
    case True
    then have "cstr p = cs_hd q # cstr (tl p)" "cstr q = cs_hd q # cstr (tl q)"
      using cstr_step [of p] cstr_step [of q] by auto
    then show ?thesis using 1 True by (auto simp: strcmp.simps [of p q])
  next
    case False
    have "strcmp p q = 0 \<longleftrightarrow> cs_hd p = cs_hd q" using False by (auto simp: strcmp.simps [of p q])
    moreover have "cstr p = cstr q \<Longrightarrow> cs_hd p = cs_hd q"
      by (metis cs_hd_NUL_iff cstr_step list.sel(1))
    moreover have "cs_hd p = cs_hd q \<Longrightarrow> cstr p = cstr q" using False by (metis cs_hd_NUL_iff)
    ultimately show ?thesis by blast
  qed
qed

lemma strchr_None_iff: "strchr s c = None \<longleftrightarrow> c \<notin> set (cstr s)"
  by (induction s) (auto simp: cstr_def)

lemma strchr_SomeD: "strchr s c = Some r \<Longrightarrow> \<exists>p. s = p @ r \<and> c \<notin> set p \<and> NUL \<notin> set p \<and> cs_hd r = c \<and> r \<noteq> []"
proof (induction s)
  case (Cons x s)
  then show ?case by (cases "x = c") (auto split: if_splits intro: exI [of _ "x # p" for p] exI [of _ "[]"])
qed simp

lemma atoi_digit: "is_digit c \<Longrightarrow> (of_char c :: u32) - 48 = of_nat (digit_val c)"
  by (simp add: is_digit_def digit_val_def of_nat_diff of_nat_of_char)

lemma atoi_loop_digits:
  "list_all is_digit ds \<Longrightarrow> rest = [] \<or> \<not> is_digit (hd rest) \<Longrightarrow>
   atoi_loop (of_nat n) (ds @ rest) = of_nat (foldl (\<lambda>n c. 10 * n + digit_val c) n ds)"
proof (induction ds arbitrary: n)
  case Nil
  then show ?case by (cases rest) (auto simp: is_digit_def)
next
  case (Cons c ds)
  have c: "is_digit c" using Cons.prems by simp
  have "of_nat n * 10 + of_char c - 48 = (of_nat (10 * n + digit_val c) :: u32)"
    using atoi_digit [OF c] by (simp add: algebra_simps)
  moreover have "atoi_loop (of_nat n) ((c # ds) @ rest) = atoi_loop (of_nat n * 10 + of_char c - 48) (ds @ rest)"
    using c by (simp add: is_digit_def)
  ultimately have "atoi_loop (of_nat n) ((c # ds) @ rest) = atoi_loop (of_nat (10 * n + digit_val c)) (ds @ rest)"
    by (simp only:)
  then show ?case using Cons.IH [of "10 * n + digit_val c"] Cons.prems by simp
qed

lemma umemset_loop_eq: "i + n \<le> 2 ^ 64 \<Longrightarrow> umemset_loop m dst c i n = memset m (dst + of_nat i) c n"
  by (induction n arbitrary: m i) (simp_all add: algebra_simps)



text \<open>
  C35. \<^verbatim>\<open>atoi\<close> reads back what \<^verbatim>\<open>printf\<close> prints: applied to the decimal numeral of a non-negative
  \<^verbatim>\<open>int\<close>, followed by anything that is not a digit, it returns the number.
\<close>

theorem atoi_printint:
  assumes "0 \<le> i" and "i < 2 ^ 31" and "rest = [] \<or> \<not> is_digit (hd rest)"
  shows "atoi (printint (word_of_int i) 10 True @ rest) = i"
proof -
  let ?x = "word_of_int i :: u64"
  have u: "uint ?x = i" using assms(1,2) by (simp add: uint_word_of_int)
  have "sint ?x = i" unfolding sint_uint u using assms(1,2) by (simp add: signed_take_bit_int_eq_self)
  then have p: "printint ?x 10 True = rev (printint_digits 10 (nat i))"
    using assms(1) u by (simp add: printint_def printint_buf_def unat_eq_nat_uint)
  let ?ds = "rev (printint_digits 10 (nat i))"
  have ds: "list_all is_digit ?ds" "decval ?ds = nat i"
    using printint_digits_decval [of "nat i"] by (simp_all add: list.pred_set)
  have "atoi_loop 0 (?ds @ rest) = word_of_int i"
    using atoi_loop_digits [OF ds(1) assms(3), of 0] ds(2) assms(1) by (simp add: decval_def)
  moreover have "uint (word_of_int i :: u32) = i" using assms(1,2) by (simp add: uint_word_of_int)
  then have "sint (word_of_int i :: u32) = i"
    unfolding sint_uint using assms(1,2) by (simp add: signed_take_bit_int_eq_self)
  ultimately show ?thesis using p by (simp add: atoi_def)
qed

theorem atoi_printint_witness: "atoi (printint (word_of_int 1073) 10 True @ '' x'') = 1073"
  using atoi_printint [of 1073 "'' x''"] by (simp add: is_digit_def)

lemma gets_loop_bound:
  "length (fst (gets_loop rd n s)) \<le> n \<and>
   (\<forall>c \<in> set (butlast (fst (gets_loop rd n s))). c \<noteq> CHR 0x0A \<and> c \<noteq> CHR 0x0D)"
proof (induction n arbitrary: s)
  case (Suc n)
  obtain x t where r: "rd s = (x, t)" by (cases "rd s")
  show ?case
  proof (cases x)
    case None
    then show ?thesis using r by simp
  next
    case (Some c)
    obtain cs u where g: "gets_loop rd n t = (cs, u)" by (cases "gets_loop rd n t")
    show ?thesis using r Some g Suc [of t] by auto
  qed
qed simp


definition read_list :: "string \<Rightarrow> char option \<times> string" where
  "read_list inp = (case inp of [] \<Rightarrow> (None, []) | c # r \<Rightarrow> (Some c, r))"

lemma read_list_run: "ugets read_list 4 ''abcdef'' = (''abc'' @ [NUL], ''def'')"
proof -
  have "gets_loop read_list (Suc (Suc (Suc 0))) ''abcdef'' = (''abc'', ''def'')"
    by (simp add: read_list_def)
  moreover have "4 - 1 = Suc (Suc (Suc 0))" by simp
  ultimately show ?thesis by (simp only: ugets_def prod.case)
qed


end
