(* ===== verification/Sandbox.thy ===== *)
theory Sandbox
  imports Inherit Ulib
begin

text \<open>
  The sandbox library (\<^verbatim>\<open>user/filter.c\<close>) on top of the system call stubs (\<^verbatim>\<open>user/usys.pl\<close>). What the
  library relies on is the interface of \<^verbatim>\<open>setfilter\<close>, a locale; the kernel's dispatch provides it.
\<close>

section \<open>System call stubs\<close>

text \<open>A stub loads the number of the call into a7 and traps; the result is in a0 afterwards.\<close>

definition stub :: "int \<Rightarrow> u64 \<Rightarrow> ('a kernel_scheme, int) routine" where
  "stub num a0 =
     andthen (modify (upd_my_tf (\<lambda>t. t\<lparr>tf_a7 := u64_of_int num, tf_a0 := a0\<rparr>)))
    (andthen syscall (gets (\<lambda>s. c_int (tf_a0 (my_tf s)))))"

definition setfilter :: "u64 \<Rightarrow> ('a kernel_scheme, int) routine" where
  "setfilter m = stub SYS_setfilter m"

definition setaudit :: "int \<Rightarrow> ('a kernel_scheme, int) routine" where
  "setaudit enable = stub SYS_setaudit (u64_of_int enable)"

section \<open>The library\<close>

definition SANDBOX_BLOCK :: "int \<Rightarrow> u64" where
  "SANDBOX_BLOCK num = push_bit (nat num) 1"

definition pure_compute_mask :: u64 where
  "pure_compute_mask = 0 OR push_bit (nat SYS_open) 1 OR push_bit (nat SYS_write) 1 OR push_bit (nat SYS_read) 1
     OR push_bit (nat SYS_mknod) 1 OR push_bit (nat SYS_unlink) 1 OR push_bit (nat SYS_link) 1
     OR push_bit (nat SYS_mkdir) 1 OR push_bit (nat SYS_chdir) 1"

definition sandbox_apply_profile :: "string \<Rightarrow> ('a kernel_scheme, int) routine" where
  "sandbox_apply_profile profile =
     (if strcmp profile ''PURE_COMPUTE'' = 0 then setfilter pure_compute_mask else ret (-1))"

definition sandbox_block_syscall :: "int \<Rightarrow> ('a kernel_scheme, int) routine" where
  "sandbox_block_syscall syscall_num = setfilter (push_bit (nat syscall_num) 1)"

definition sandbox_set_audit :: "int \<Rightarrow> ('a kernel_scheme, int) routine" where
  "sandbox_set_audit enable = setaudit enable"

lemma pure_compute_blocks:
  "num \<in> {1..27} \<Longrightarrow> mask_blocks pure_compute_mask num \<longleftrightarrow>
     num \<in> {SYS_open, SYS_write, SYS_read, SYS_mknod, SYS_unlink, SYS_link, SYS_mkdir, SYS_chdir}"
proof -
  have "pure_compute_mask = 0x1F8220" by (simp add: pure_compute_mask_def sys_nums)
  moreover have "\<forall>n \<in> set [1..27]. mask_blocks 0x1F8220 n \<longleftrightarrow> n \<in> set [15, 16, 5, 17, 18, 19, 20, 9]"
    by code_simp
  moreover assume "num \<in> {1..27}"
  ultimately show ?thesis by (simp add: sys_nums)
qed

section \<open>The interface of the filter\<close>

locale filter_call =
  fixes set_mask :: "u64 \<Rightarrow> 's \<Rightarrow> 's stop + int \<times> 's" and cur_mask :: "'s \<Rightarrow> u64" and usable :: "'s \<Rightarrow> bool"
  assumes tighten: "usable s \<Longrightarrow> m AND cur_mask s = cur_mask s \<Longrightarrow> \<exists>t. set_mask m s = Inr (0, t) \<and> cur_mask t = m"
    and refuse: "usable s \<Longrightarrow> m AND cur_mask s \<noteq> cur_mask s \<Longrightarrow> \<exists>t. set_mask m s = Inr (-1, t) \<and> cur_mask t = cur_mask s"
begin

lemma set_mask_result:
  assumes "usable s"
  shows "\<exists>r t. set_mask m s = Inr (r, t) \<and> (r = 0 \<longleftrightarrow> (\<forall>k. bit (cur_mask s) k \<longrightarrow> bit m k)) \<and> (r = 0 \<or> r = -1) \<and>
     cur_mask t = (if r = 0 then m else cur_mask s)"
proof (cases "m AND cur_mask s = cur_mask s")
  case True
  then show ?thesis using tighten [OF assms True] by (auto simp: word_superset_iff)
next
  case False
  then obtain t where "set_mask m s = Inr (-1, t)" "cur_mask t = cur_mask s" using refuse [OF assms] by blast
  then show ?thesis using False by (intro exI [of _ "-1"] exI [of _ t]) (auto simp: word_superset_iff)
qed

lemma set_single_bit:
  assumes "usable s" and "n < 64"
  shows "\<exists>r t. set_mask (push_bit n 1) s = Inr (r, t) \<and> (r = 0 \<longleftrightarrow> (\<forall>k. bit (cur_mask s) k \<longrightarrow> k = n)) \<and> (r = 0 \<or> r = -1) \<and>
     cur_mask t = (if r = 0 then push_bit n 1 else cur_mask s)"
proof -
  have "bit (push_bit n 1 :: u64) k \<longleftrightarrow> k = n" for k using assms(2) by (auto simp: bit_simps)
  then show ?thesis using set_mask_result [OF assms(1), of "push_bit n 1"] by simp
qed

end

section \<open>The kernel provides it\<close>

definition own_mask :: "'a kproc_scheme \<Rightarrow> u64" where
  "own_mask s = p_syscall_mask (myproc s)"

text \<open>The running process has an entry in the table and may call \<^verbatim>\<open>setfilter\<close>.\<close>

definition can_filter :: "'a kernel_scheme \<Rightarrow> bool" where
  "can_filter s \<longleftrightarrow> me s < length (procs s) \<and> \<not> mask_blocks (own_mask s) SYS_setfilter"

lemma tf_simps [simp]:
  "me (upd_my_tf f s) = me s" "myproc (upd_my_tf f s) = myproc s" "my_tf (upd_my_tf f s) = f (my_tf s)"
  "procs (upd_my_tf f s) = procs s" "me (s\<lparr>procs := ps\<rparr>) = me s"
  by (simp_all add: me_def upd_my_tf_def myproc_def my_tf_def)

lemma setfilter_eq:
  assumes "can_filter s"
  shows "\<exists>t. setfilter m s = Inr (if m AND own_mask s = own_mask s then 0 else -1, t) \<and>
     own_mask t = (if m AND own_mask s = own_mask s then m else own_mask s)"
proof -
  have num: "c_int (u64_of_int SYS_setfilter) = SYS_setfilter" "c_int 0 = 0"
    by (simp_all add: c_int_def u64_of_int_def sys_nums)
  have fail: "c_int minus_one = -1" by code_simp
  have h: "syscalls SYS_setfilter = Some sys_setfilter" by (simp add: syscalls_def syscall_table_def sys_nums)
  show ?thesis using assms
    by (auto simp: setfilter_def stub_def can_filter_def own_mask_def syscall_def run_defs num fail h run_handler_def
        sys_setfilter_def argaddr_def argraw_def set_a0_def myproc_def upd_proc_def)
qed

interpretation kernel_filter: filter_call setfilter own_mask can_filter
proof
  fix s :: "'a kernel_scheme" and m
  assume s: "can_filter s"
  show "\<exists>t. setfilter m s = Inr (0, t) \<and> own_mask t = m" if "m AND own_mask s = own_mask s"
    using setfilter_eq [OF s, of m] that by simp
  show "\<exists>t. setfilter m s = Inr (-1, t) \<and> own_mask t = own_mask s" if "m AND own_mask s \<noteq> own_mask s"
    using setfilter_eq [OF s, of m] that by simp
qed

section \<open>Properties\<close>



text \<open>
  C28. \<^verbatim>\<open>sandbox_apply_profile\<close> accepts one profile. Unless the name is \<^verbatim>\<open>PURE_COMPUTE\<close> it returns -1 and does
  nothing. With that name it succeeds exactly if every call blocked already is in the profile,
  and then exactly the eight file calls of the profile are blocked; otherwise it returns -1 and
  the filter is unchanged.
\<close>

theorem apply_profile:
  assumes "can_filter s" and "NUL \<notin> set profile"
  shows "(profile \<noteq> ''PURE_COMPUTE'' \<longrightarrow> sandbox_apply_profile profile s = Inr (-1, s)) \<and>
    (profile = ''PURE_COMPUTE'' \<longrightarrow> (\<exists>r t. sandbox_apply_profile profile s = Inr (r, t) \<and> (r = 0 \<or> r = -1) \<and>
       (r = 0 \<longleftrightarrow> (\<forall>k. bit (own_mask s) k \<longrightarrow> bit pure_compute_mask k)) \<and>
       (r = 0 \<longrightarrow> (\<forall>num \<in> {1..27}. mask_blocks (own_mask t) num \<longleftrightarrow>
          num \<in> {SYS_open, SYS_write, SYS_read, SYS_mknod, SYS_unlink, SYS_link, SYS_mkdir, SYS_chdir})) \<and>
       (r \<noteq> 0 \<longrightarrow> own_mask t = own_mask s)))"
proof -
  have "strcmp profile ''PURE_COMPUTE'' = 0 \<longleftrightarrow> profile = ''PURE_COMPUTE''"
    using cstr_id [OF assms(2)] cstr_id [of "''PURE_COMPUTE''"] by (simp add: strcmp_0_iff NUL_def)
  then show ?thesis
    using kernel_filter.set_mask_result [OF assms(1), of pure_compute_mask] pure_compute_blocks
    by (auto simp: sandbox_apply_profile_def ret_def)
qed

theorem apply_profile_witness:
  "sandbox_apply_profile ''NONE'' (write_kernel 0) = Inr (-1, write_kernel 0) \<and>
   (\<exists>t. sandbox_apply_profile ''PURE_COMPUTE'' (write_kernel 0) = Inr (0, t) \<and> mask_blocks (own_mask t) SYS_unlink)"
proof -
  have m: "own_mask (write_kernel 0) = 0x10000" "me (write_kernel 0) < length (procs (write_kernel 0))"
    by (simp_all add: own_mask_def write_kernel_def sample_defs myproc_def me_def)
  then have s: "can_filter (write_kernel 0)" by (simp add: can_filter_def mask_blocks_def sys_nums)
  have sub: "\<forall>k. bit (own_mask (write_kernel 0)) k \<longrightarrow> bit pure_compute_mask k"
    unfolding word_superset_iff [symmetric] m by (simp add: pure_compute_mask_def sys_nums)
  show ?thesis
    using apply_profile [OF s, of "''NONE''"] apply_profile [OF s, of "''PURE_COMPUTE''"] sub
    by (auto simp: sys_nums NUL_def)
qed

end
