(* ===== verification/Grep.thy ===== *)
theory Grep
  imports Ulib
begin

text \<open>
  \<^verbatim>\<open>user/grep.c\<close>: the regular-expression matcher and the loop that feeds it with the lines of a
  file. A text is a C string seen from a pointer; the read system call is a parameter.
\<close>

section \<open>The matcher\<close>

lemma cs_hd_shorter: "cs_hd s \<noteq> NUL \<Longrightarrow> length (tl s) < length s"
  by (cases s) auto

function matchhere :: "string \<Rightarrow> string \<Rightarrow> bool" and matchstar :: "char \<Rightarrow> string \<Rightarrow> string \<Rightarrow> bool" where
  "matchhere re tx =
     (if cs_hd re = NUL then True
      else if cs_hd (tl re) = CHR ''*'' then matchstar (cs_hd re) (tl (tl re)) tx
      else if cs_hd re = CHR ''$'' \<and> cs_hd (tl re) = NUL then cs_hd tx = NUL
      else if cs_hd tx \<noteq> NUL \<and> (cs_hd re = CHR ''.'' \<or> cs_hd re = cs_hd tx)
      then matchhere (tl re) (tl tx)
      else False)"
| "matchstar c re tx =
     (if matchhere re tx then True
      else if cs_hd tx \<noteq> NUL \<and> (cs_hd tx = c \<or> c = CHR ''.'') then matchstar c re (tl tx)
      else False)"
  by pat_completeness auto
termination
proof (relation "measures [\<lambda>x. case x of Inl (re, tx) \<Rightarrow> length re | Inr (c, re, tx) \<Rightarrow> length re,
    \<lambda>x. case x of Inl (re, tx) \<Rightarrow> length tx | Inr (c, re, tx) \<Rightarrow> length tx,
    \<lambda>x. case x of Inl _ \<Rightarrow> 0 | Inr _ \<Rightarrow> 1]", goal_cases)
  case (2 re tx)
  then have "length (tl (tl re)) < length re" by (cases re) auto
  then show ?case by simp
next
  case (3 re tx)
  then show ?case using cs_hd_shorter [of re] by simp
next
  case (5 c re tx)
  then show ?case using cs_hd_shorter [of tx] by simp
qed auto

declare matchhere.simps [simp del] matchstar.simps [simp del]

fun match_loop :: "string \<Rightarrow> string \<Rightarrow> bool" where
  "match_loop re [] = matchhere re []"
| "match_loop re (c # tx) =
     (if matchhere re (c # tx) then True else if c \<noteq> NUL then match_loop re tx else False)"

definition match :: "string \<Rightarrow> string \<Rightarrow> bool" where
  "match re tx = (if cs_hd re = CHR ''^'' then matchhere (tl re) tx else match_loop re tx)"

section \<open>The meaning of a pattern\<close>

text \<open>
  A pattern is a sequence of atoms: a character or a dot, a starred character or dot, and a
  dollar sign at the end. A text begins with a match of the atoms if it can be cut accordingly.
\<close>

datatype atom = One char | Many char | Eol

fun atoms :: "string \<Rightarrow> atom list" where
  "atoms [] = []"
| "atoms [c] = (if c = CHR ''$'' then [Eol] else [One c])"
| "atoms (c # d # re) = (if d = CHR ''*'' then Many c # atoms re else One c # atoms (d # re))"

definition fits :: "char \<Rightarrow> char \<Rightarrow> bool" where
  "fits c x \<longleftrightarrow> c = CHR ''.'' \<or> c = x"

fun begins :: "atom list \<Rightarrow> string \<Rightarrow> bool" where
  "begins [] t \<longleftrightarrow> True"
| "begins (One c # as) t \<longleftrightarrow> (\<exists>x u. t = x # u \<and> fits c x \<and> begins as u)"
| "begins (Many c # as) t \<longleftrightarrow> (\<exists>xs u. t = xs @ u \<and> (\<forall>x \<in> set xs. fits c x) \<and> begins as u)"
| "begins (Eol # as) t \<longleftrightarrow> t = []"

definition matches :: "string \<Rightarrow> string \<Rightarrow> bool" where
  "matches re t \<longleftrightarrow>
     (if re \<noteq> [] \<and> hd re = CHR ''^'' then begins (atoms (tl re)) t
      else \<exists>xs u. t = xs @ u \<and> begins (atoms re) u)"

lemma begins_Many:
  "begins (Many c # as) t \<longleftrightarrow> begins as t \<or> (\<exists>x u. t = x # u \<and> fits c x \<and> begins (Many c # as) u)"
proof
  assume "begins (Many c # as) t"
  then obtain xs u where t: "t = xs @ u" "\<forall>x \<in> set xs. fits c x" "begins as u" by auto
  then show "begins as t \<or> (\<exists>x u. t = x # u \<and> fits c x \<and> begins (Many c # as) u)"
    by (cases xs) auto
next
  assume "begins as t \<or> (\<exists>x u. t = x # u \<and> fits c x \<and> begins (Many c # as) u)"
  then show "begins (Many c # as) t"
  proof
    assume "begins as t"
    then show ?thesis by (auto intro: exI [of _ "[]"])
  next
    assume "\<exists>x u. t = x # u \<and> fits c x \<and> begins (Many c # as) u"
    then obtain x xs u where "t = (x # xs) @ u" "\<forall>y \<in> set (x # xs). fits c y" "begins as u" by auto
    then show ?thesis by (simp only: begins.simps) blast
  qed
qed

declare begins.simps(3) [simp del]

lemma matchhere_begins:
  "NUL \<notin> set re \<Longrightarrow> NUL \<notin> set tx \<Longrightarrow> matchhere re tx = begins (atoms re) tx"
  and matchstar_begins:
  "NUL \<notin> set re \<Longrightarrow> NUL \<notin> set tx \<Longrightarrow> matchstar c re tx = begins (Many c # atoms re) tx"
proof (induction re tx and c re tx rule: matchhere_matchstar.induct)
  case (1 re tx)
  show ?case
  proof (cases re rule: atoms.cases)
    case 1
    then show ?thesis by (simp add: matchhere.simps [of "[]"])
  next
    case (2 c)
    have "matchhere [] u" for u by (simp add: matchhere.simps [of "[]"])
    then show ?thesis
      unfolding matchhere.simps [of re tx] using 2 "1.prems" by (cases tx) (auto simp: NUL_def fits_def)
  next
    case (3 c d r)
    have nul: "c \<noteq> NUL" "d \<noteq> NUL" "NUL \<notin> set r" using 3 "1.prems" by auto
    show ?thesis
    proof (cases "d = CHR ''*''")
      case True
      then show ?thesis
        using "1.IH"(1) "1.prems" 3 nul by (simp add: matchhere.simps [of "c # CHR ''*'' # r"])
    next
      case False
      show ?thesis
      proof (cases tx)
        case Nil
        then show ?thesis using False 3 nul by (simp add: matchhere.simps [of "c # d # r"])
      next
        case (Cons x u)
        have "matchhere (d # r) u = begins (atoms (d # r)) u" if "c = CHR ''.'' \<or> c = x"
          using "1.IH"(2) "1.prems" 3 nul False Cons that by auto
        then show ?thesis
          using False 3 nul "1.prems" Cons by (auto simp: matchhere.simps [of "c # d # r"] fits_def)
      qed
    qed
  qed
next
  case (2 c re tx)
  show ?case
    unfolding matchstar.simps [of c re tx] begins_Many [of c "atoms re" tx]
    using 2 by (cases tx) (auto simp: fits_def)
qed

lemma match_loop_begins:
  "NUL \<notin> set re \<Longrightarrow> NUL \<notin> set tx \<Longrightarrow> match_loop re tx \<longleftrightarrow> (\<exists>xs u. tx = xs @ u \<and> begins (atoms re) u)"
proof (induction tx)
  case Nil
  then show ?case by (simp add: matchhere_begins)
next
  case (Cons c tx)
  then have "match_loop re (c # tx) \<longleftrightarrow> begins (atoms re) (c # tx) \<or> (\<exists>xs u. tx = xs @ u \<and> begins (atoms re) u)"
    by (auto simp: matchhere_begins)
  also have "\<dots> \<longleftrightarrow> (\<exists>xs u. c # tx = xs @ u \<and> begins (atoms re) u)"
    by (metis append_Cons append_Nil list.exhaust list.inject)
  finally show ?case .
qed

lemma match_matches:
  assumes "NUL \<notin> set re" and "NUL \<notin> set tx"
  shows "match re tx = matches re tx"
proof (cases re)
  case Nil
  then show ?thesis using match_loop_begins [OF assms] by (simp add: match_def matches_def NUL_def)
next
  case (Cons c r)
  then show ?thesis
    using match_loop_begins [OF assms] assms by (auto simp: match_def matches_def matchhere_begins)
qed

text \<open>
  C30. The matcher decides the pattern language: \<^verbatim>\<open>match(re, text)\<close> is 1 exactly if the text, or
  some rest of it when the pattern does not begin with a caret, begins with a match of the
  pattern's atoms, where a starred character stands for any number of characters it fits.
  In particular its backtracking always ends.
\<close>

theorem match_correct:
  assumes "NUL \<notin> set re" and "NUL \<notin> set tx"
  shows "match re tx = matches re tx"
  using match_matches [OF assms] .

theorem match_correct_witness:
  "match ''a*b$'' ''xaab'' \<and> matches ''a*b$'' ''xaab''"
proof -
  have "match ''a*b$'' ''xaab''" by code_simp
  then show ?thesis using match_correct [of "''a*b$''" "''xaab''"] by (simp add: NUL_def)
qed

section \<open>The loop over the lines\<close>

definition NL :: char where "NL = CHR 0x0A"

text \<open>The inner loop: the complete lines of \<open>p\<close>; the output, and what is left from \<open>p\<close> on.\<close>

function grep_lines :: "string \<Rightarrow> string \<Rightarrow> string \<times> string" where
  "grep_lines pattern p =
     (case strchr p NL of
        None \<Rightarrow> ([], p)
      | Some q \<Rightarrow>
          (let l = take (length p - length q) p; r = grep_lines pattern (tl q) in
           ((if match pattern l then l @ [NL] else []) @ fst r, snd r)))"
  by pat_completeness auto
termination
proof (relation "measure (\<lambda>(pattern, p). length p)", goal_cases)
  case (2 pattern p q l)
  then show ?case by (auto dest!: strchr_SomeD simp: neq_Nil_conv)
qed simp

declare grep_lines.simps [simp del]

text \<open>
  The outer loop. \<open>rd n\<close> is \<^verbatim>\<open>read(fd, buf+m, n)\<close>: the bytes it delivers, none at the end of
  the file or on an error. \<open>buf\<close> is the part of the buffer in use, so \<^verbatim>\<open>m\<close> is its length. The
  number of iterations is bounded by the fuel; a result is the text written.
\<close>

fun grep :: "(nat \<Rightarrow> 's \<Rightarrow> string \<times> 's) \<Rightarrow> nat \<Rightarrow> string \<Rightarrow> string \<Rightarrow> 's \<Rightarrow> (string \<times> 's) option" where
  "grep rd 0 pattern buf s = None"
| "grep rd (Suc k) pattern buf s =
     (case rd (1024 - length buf - 1) s of (d, t) \<Rightarrow>
        if d = [] then Some ([], t)
        else (case grep_lines pattern (buf @ d) of (out, r) \<Rightarrow>
                map_option (\<lambda>(out', u). (out @ out', u)) (grep rd k pattern r t)))"

text \<open>The lines of a text that end with a newline, and those the pattern selects.\<close>

fun complete_lines :: "string \<Rightarrow> string \<Rightarrow> string list" where
  "complete_lines acc [] = []"
| "complete_lines acc (c # t) = (if c = NL then acc # complete_lines [] t else complete_lines (acc @ [c]) t)"

definition selected :: "string \<Rightarrow> string \<Rightarrow> string" where
  "selected re t = concat (map (\<lambda>l. l @ [NL]) (filter (matches re) (complete_lines [] t)))"

lemma complete_lines_NL: "NL \<notin> set l \<Longrightarrow> complete_lines acc (l @ NL # t) = (acc @ l) # complete_lines [] t"
  by (induction l arbitrary: acc) auto

lemma complete_lines_none: "NL \<notin> set l \<Longrightarrow> complete_lines acc l = []"
  by (induction l arbitrary: acc) auto

lemma selected_NL:
  "NL \<notin> set l \<Longrightarrow> selected re (l @ NL # t) = (if matches re l then l @ [NL] else []) @ selected re t"
  by (simp add: selected_def complete_lines_NL)

lemma grep_lines_selected:
  "NUL \<notin> set re \<Longrightarrow> NUL \<notin> set p \<Longrightarrow> grep_lines re p = (out, r) \<Longrightarrow>
   NL \<notin> set r \<and> (\<exists>p1. p = p1 @ r) \<and> selected re (p @ rest) = out @ selected re (r @ rest)"
proof (induction re p arbitrary: out r rule: grep_lines.induct)
  case (1 re p)
  show ?case
  proof (cases "strchr p NL")
    case None
    then have "NL \<notin> set p" using "1.prems"(2) strchr_None_iff [of p NL] None by (simp add: cstr_id)
    then show ?thesis using None "1.prems" by (simp add: grep_lines.simps [of re p])
  next
    case (Some q)
    then obtain l q' where l: "p = l @ NL # q'" "q = NL # q'" "NL \<notin> set l"
      by (auto dest!: strchr_SomeD simp: neq_Nil_conv)
    obtain out' r' where g: "grep_lines re q' = (out', r')" by (cases "grep_lines re q'")
    then have "grep_lines re p = ((if match re l then l @ [NL] else []) @ out', r')"
      using Some l(2) l(1) [symmetric] by (auto simp: grep_lines.simps [of re p] Let_def)
    then have out: "out = (if match re l then l @ [NL] else []) @ out'" and r: "r' = r" using "1.prems"(3) by auto
    have IH: "NL \<notin> set r \<and> (\<exists>p1. q' = p1 @ r) \<and> selected re (q' @ rest) = out' @ selected re (r @ rest)"
      using "1.IH" [OF Some refl] g r "1.prems" l by simp
    have "match re l = matches re l" using match_matches "1.prems" l by simp
    then show ?thesis using IH out l selected_NL [OF l(3), of re "q' @ rest"] by auto
  qed
qed

definition short_lines :: "string \<Rightarrow> bool" where
  "short_lines t \<longleftrightarrow> (\<forall>p l q. t = p @ l @ q \<and> NL \<notin> set l \<longrightarrow> length l < 1023)"

definition file_read :: "nat \<Rightarrow> string \<Rightarrow> string \<times> string" where
  "file_read n s = (take n s, drop n s)"

lemma grep_file:
  assumes "NUL \<notin> set re" and "NUL \<notin> set (buf @ s)" and "short_lines (buf @ s)" and "NL \<notin> set buf"
    and "length s < k"
  shows "grep file_read k re buf s = Some (selected re (buf @ s), [])"
  using assms
proof (induction k arbitrary: buf s)
  case (Suc k)
  have m: "length buf < 1023"
    using Suc.prems(3,4) unfolding short_lines_def by (metis append_Nil)
  show ?case
  proof (cases "s = []")
    case True
    then show ?thesis using Suc.prems(4) by (simp add: file_read_def selected_def complete_lines_none)
  next
    case False
    let ?n = "1024 - length buf - 1"
    have "0 < length s" using False by simp
    then have "length (drop ?n s) < k" using m Suc.prems(5) unfolding length_drop by linarith
    then have d: "take ?n s \<noteq> []" "length (drop ?n s) < k" using False m by auto
    obtain out r where g: "grep_lines re (buf @ take ?n s) = (out, r)" by (cases "grep_lines re (buf @ take ?n s)")
    have "NUL \<notin> set (buf @ take ?n s)" using Suc.prems(2) by (auto dest: in_set_takeD)
    then obtain p1 where r: "NL \<notin> set r" "buf @ take ?n s = p1 @ r"
      and sel: "selected re ((buf @ take ?n s) @ drop ?n s) = out @ selected re (r @ drop ?n s)"
      using grep_lines_selected [OF Suc.prems(1) _ g, of "drop ?n s"] by blast
    have split: "buf @ s = p1 @ r @ drop ?n s" using r(2) by (metis append.assoc append_take_drop_id)
    then have "short_lines (r @ drop ?n s)" using Suc.prems(3) unfolding short_lines_def by (metis append.assoc)
    then have "grep file_read k re r (drop ?n s) = Some (selected re (r @ drop ?n s), [])"
      using Suc.IH [of r "drop ?n s"] Suc.prems(1,2) r(1) d(2) split by auto
    moreover have "file_read ?n s = (take ?n s, drop ?n s)" by (simp add: file_read_def)
    ultimately show ?thesis using d(1) g sel by simp
  qed
qed simp

text \<open>
  C29. \<^verbatim>\<open>grep\<close> prints exactly the matching lines. On a file without NUL bytes whose lines fit its
  buffer (at most 1022 characters), it ends, has read the whole file, and has written the
  lines that the pattern matches, in order, although the file arrives in pieces that cut lines
  anywhere. A last line that does not end with a newline is not considered.
\<close>

theorem grep_correct:
  assumes "NUL \<notin> set re" and "NUL \<notin> set contents" and "short_lines contents" and "length contents < fuel"
  shows "grep file_read fuel re [] contents = Some (selected re contents, [])"
  using grep_file [of re "[]" contents fuel] assms by simp

lemma short_linesI: "length t < 1023 \<Longrightarrow> short_lines t"
  by (auto simp: short_lines_def)

theorem grep_correct_witness:
  "grep file_read 20 ''b'' [] (''abc'' @ [NL] @ ''xyz'' @ [NL] @ ''b'') = Some (''abc'' @ [NL], [])"
proof -
  have "match ''b'' ''abc''" "\<not> match ''b'' ''xyz''" by code_simp+
  then have m: "matches ''b'' ''abc''" "\<not> matches ''b'' ''xyz''" by (simp_all add: match_matches NUL_def)
  show ?thesis
    using grep_correct [of "''b''" "''abc'' @ [NL] @ ''xyz'' @ [NL] @ ''b''" 20] m
    by (simp add: NUL_def NL_def short_linesI selected_def)
qed

end
