(* ===== verification/Uprintf.thy ===== *)
theory Uprintf
  imports Ulib
begin

text \<open>
  \<^verbatim>\<open>user/printf.c\<close>: formatted output of user programs, as the text it writes to the file
  descriptor, one character per \<^verbatim>\<open>write\<close>. The arguments are those of the kernel's \<^verbatim>\<open>printf\<close>.
\<close>

definition udigits :: string where
  "udigits = ''0123456789ABCDEF''"

function uprintint_digits :: "nat \<Rightarrow> nat \<Rightarrow> string" where
  "uprintint_digits base x =
     (if base \<le> 1 then []
      else udigits ! (x mod base) # (if x div base \<noteq> 0 then uprintint_digits base (x div base) else []))"
  by pat_completeness auto
termination
  by (relation "measure snd") (auto intro!: div_less_dividend gr0I)

declare uprintint_digits.simps [simp del]

text \<open>The contents of \<^verbatim>\<open>buf\<close> before it is written backwards.\<close>

definition uprintint_buf :: "u64 \<Rightarrow> nat \<Rightarrow> bool \<Rightarrow> string" where
  "uprintint_buf xx base sign =
     (if sign \<and> sint xx < 0 then uprintint_digits base (unat (- xx)) @ ''-''
      else uprintint_digits base (unat xx))"

definition uprintint :: "u64 \<Rightarrow> nat \<Rightarrow> bool \<Rightarrow> string" where
  "uprintint xx base sign = rev (uprintint_buf xx base sign)"

fun uprintptr_loop :: "nat \<Rightarrow> u64 \<Rightarrow> string" where
  "uprintptr_loop 0 x = []"
| "uprintptr_loop (Suc n) x = udigits ! unat (drop_bit 60 x) # uprintptr_loop n (push_bit 4 x)"

definition uprintptr :: "u64 \<Rightarrow> string" where
  "uprintptr x = ''0x'' @ uprintptr_loop 16 x"

text \<open>
  \<open>vprintf fmt args\<close>: the format from the current position on, with \<^verbatim>\<open>state\<close> 0. After a percent
  sign the conversion is the next character, and the loop ends if there is none.
\<close>

function vprintf :: "string \<Rightarrow> parg list \<Rightarrow> string option" where
  "vprintf fmt args =
     (case fmt of
        [] \<Rightarrow> Some []
      | c0 # r \<Rightarrow>
          if c0 = NUL then Some []
          else if c0 \<noteq> CHR ''%'' then prefix_opt [c0] (vprintf r args)
          else if cs_hd r = NUL then Some []
          else if is_pref ''d'' r then
            (case args of AInt i # as \<Rightarrow> prefix_opt (uprintint (word_of_int i) 10 True) (vprintf (drop 1 r) as) | _ \<Rightarrow> None)
          else if is_pref ''ld'' r then
            (case args of AU64 v # as \<Rightarrow> prefix_opt (uprintint v 10 True) (vprintf (drop 2 r) as) | _ \<Rightarrow> None)
          else if is_pref ''lld'' r then
            (case args of AU64 v # as \<Rightarrow> prefix_opt (uprintint v 10 True) (vprintf (drop 3 r) as) | _ \<Rightarrow> None)
          else if is_pref ''u'' r then
            (case args of AU32 v # as \<Rightarrow> prefix_opt (uprintint (ucast v) 10 False) (vprintf (drop 1 r) as) | _ \<Rightarrow> None)
          else if is_pref ''lu'' r then
            (case args of AU64 v # as \<Rightarrow> prefix_opt (uprintint v 10 False) (vprintf (drop 2 r) as) | _ \<Rightarrow> None)
          else if is_pref ''llu'' r then
            (case args of AU64 v # as \<Rightarrow> prefix_opt (uprintint v 10 False) (vprintf (drop 3 r) as) | _ \<Rightarrow> None)
          else if is_pref ''x'' r then
            (case args of AU32 v # as \<Rightarrow> prefix_opt (uprintint (ucast v) 16 False) (vprintf (drop 1 r) as) | _ \<Rightarrow> None)
          else if is_pref ''lx'' r then
            (case args of AU64 v # as \<Rightarrow> prefix_opt (uprintint v 16 False) (vprintf (drop 2 r) as) | _ \<Rightarrow> None)
          else if is_pref ''llx'' r then
            (case args of AU64 v # as \<Rightarrow> prefix_opt (uprintint v 16 False) (vprintf (drop 3 r) as) | _ \<Rightarrow> None)
          else if is_pref ''p'' r then
            (case args of AU64 v # as \<Rightarrow> prefix_opt (uprintptr v) (vprintf (drop 1 r) as) | _ \<Rightarrow> None)
          else if is_pref ''c'' r then
            (case args of AU32 v # as \<Rightarrow> prefix_opt [char_of (unat v)] (vprintf (drop 1 r) as) | _ \<Rightarrow> None)
          else if is_pref ''s'' r then
            (case args of
               AStr None # as \<Rightarrow> prefix_opt ''(null)'' (vprintf (drop 1 r) as)
             | AStr (Some t) # as \<Rightarrow> prefix_opt (cstr t) (vprintf (drop 1 r) as)
             | _ \<Rightarrow> None)
          else if is_pref ''%'' r then prefix_opt ''%'' (vprintf (drop 1 r) args)
          else prefix_opt [CHR ''%'', cs_hd r] (vprintf (drop 1 r) args))"
  by pat_completeness auto
termination
  by (relation "measure (\<lambda>(fmt, args). length fmt)") auto

declare vprintf.simps [simp del]

section \<open>The same text as the kernel's printf\<close>

lemma udigits_dec: "d < 10 \<Longrightarrow> udigits ! d = digits ! d"
proof -
  assume "d < 10"
  then have "d \<in> {0, 1, 2, 3, 4, 5, 6, 7, 8, 9}" by auto
  then show ?thesis by (auto simp: udigits_def digits_def)
qed

lemma uprintint_digits_dec: "uprintint_digits 10 x = printint_digits 10 x"
proof (induction x rule: less_induct)
  case (less x)
  then show ?case
    by (cases "x div 10 = 0")
      (simp_all add: uprintint_digits.simps [of 10 x] printint_digits.simps [of 10 x] udigits_dec)
qed

lemma uprintint_dec: "uprintint xx 10 sign = printint xx 10 sign"
  by (simp add: uprintint_def printint_def uprintint_buf_def printint_buf_def uprintint_digits_dec)

definition no_hex :: "string \<Rightarrow> bool" where
  "no_hex fmt \<longleftrightarrow> CHR ''x'' \<notin> set fmt \<and> CHR ''p'' \<notin> set fmt"

lemma is_pref_set: "is_pref p r \<Longrightarrow> set p \<subseteq> set r"
  unfolding is_pref_def by (metis set_take_subset)

lemma no_hex_prefs: "no_hex r \<Longrightarrow> \<not> is_pref ''x'' r \<and> \<not> is_pref ''lx'' r \<and> \<not> is_pref ''llx'' r \<and> \<not> is_pref ''p'' r"
  using is_pref_set [of "''x''" r] is_pref_set [of "''lx''" r] is_pref_set [of "''llx''" r] is_pref_set [of "''p''" r]
  by (auto simp: no_hex_def)

lemma no_hex_drop: "no_hex (c # r) \<Longrightarrow> no_hex r \<and> no_hex (drop k r)"
  by (auto simp: no_hex_def dest: in_set_dropD)

lemma pref_NUL: "cs_hd r = NUL \<Longrightarrow> c \<noteq> NUL \<Longrightarrow> \<not> is_pref (c # p) r"
  by (cases r) (auto simp: is_pref_def)



end
