(* ===== verification/Sh.thy ===== *)
theory Sh
  imports Ulib
begin

text \<open>
  \<^verbatim>\<open>user/sh.c\<close>: the command parser of the shell. The command line is a string \<open>buf\<close>; a pointer
  into it is a position, and the position \<open>length buf\<close> is \<^verbatim>\<open>es\<close>, where the terminating NUL is.
  A \<^verbatim>\<open>panic\<close> of the parser is an error value; \<open>Leftovers\<close> is the one with which \<^verbatim>\<open>parsecmd\<close> itself gives up,
  with the rest of the line.
\<close>

datatype parse_error = Syntax string | Leftovers string | Fuel

text \<open>
  A command. A word is the pair of its \<^verbatim>\<open>q\<close> and \<^verbatim>\<open>eq\<close> pointers; the arguments of \<^verbatim>\<open>EXEC\<close> are
  the entries of \<^verbatim>\<open>argv\<close> and \<^verbatim>\<open>eargv\<close> before the null pointer.
\<close>

type_synonym word_pos = "nat \<times> nat"

datatype cmd =
    EXEC "word_pos list"
  | REDIR cmd word_pos int int
  | PIPE cmd cmd
  | LIST cmd cmd
  | BACK cmd

definition MAXARGS :: nat where "MAXARGS = 10"

section \<open>Tokens\<close>

definition at :: "string \<Rightarrow> nat \<Rightarrow> char" where
  "at buf i = (if i < length buf then buf ! i else NUL)"

definition whitespace :: string where
  "whitespace = [CHR '' '', CHR 0x09, CHR 0x0D, CHR 0x0A, CHR 0x0B]"

definition symbols :: string where
  "symbols = ''<|>&;()''"

function skip_ws :: "string \<Rightarrow> nat \<Rightarrow> nat" where
  "skip_ws buf s = (if s < length buf \<and> strchr whitespace (at buf s) \<noteq> None then skip_ws buf (s + 1) else s)"
  by pat_completeness auto
termination by (relation "measure (\<lambda>(buf, s). length buf - s)") auto

function skip_word :: "string \<Rightarrow> nat \<Rightarrow> nat" where
  "skip_word buf s =
     (if s < length buf \<and> strchr whitespace (at buf s) = None \<and> strchr symbols (at buf s) = None
      then skip_word buf (s + 1) else s)"
  by pat_completeness auto
termination by (relation "measure (\<lambda>(buf, s). length buf - s)") auto

declare skip_ws.simps [simp del] skip_word.simps [simp del]

text \<open>\<^verbatim>\<open>gettoken\<close>: the result, the word's bounds, and the new position.\<close>

definition gettoken :: "string \<Rightarrow> nat \<Rightarrow> char \<times> word_pos \<times> nat" where
  "gettoken buf s =
     (let q = skip_ws buf s; c = at buf q;
          (r, eq) =
            (if c = NUL then (NUL, q)
             else if c \<in> set ''|();&<'' then (c, q + 1)
             else if c = CHR ''>'' then
               (if at buf (q + 1) = CHR ''>'' then (CHR ''+'', q + 2) else (c, q + 1))
             else (CHR ''a'', skip_word buf q))
      in (r, (q, eq), skip_ws buf eq))"

definition peek :: "string \<Rightarrow> nat \<Rightarrow> string \<Rightarrow> bool \<times> nat" where
  "peek buf s toks =
     (let q = skip_ws buf s in (at buf q \<noteq> NUL \<and> strchr toks (at buf q) \<noteq> None, q))"

section \<open>The parser\<close>

text \<open>
  The redirections a command is followed by, in the order read: word, mode and descriptor.
  \<^verbatim>\<open>parseexec\<close> goes on filling in the arguments of a command after redirections have been
  wrapped around it; here arguments and redirections are collected side by side and the
  command is put together at the end, the first redirection innermost.
\<close>

type_synonym redir = "word_pos \<times> int \<times> int"

definition redir_of :: "char \<Rightarrow> word_pos \<Rightarrow> redir" where
  "redir_of tok w =
     (if tok = CHR ''<'' then (w, 0, 0)
      else if tok = CHR ''>'' then (w, 0x601, 1)
      else (w, 0x201, 1))"

definition wrap :: "cmd \<Rightarrow> redir list \<Rightarrow> cmd" where
  "wrap c rs = foldl (\<lambda>c (w, mode, fd). REDIR c w mode fd) c rs"

fun parseredirs :: "nat \<Rightarrow> string \<Rightarrow> nat \<Rightarrow> redir list \<Rightarrow> parse_error + redir list \<times> nat" where
  "parseredirs 0 buf s rs = Inl Fuel"
| "parseredirs (Suc n) buf s rs =
     (case peek buf s ''<>'' of (b, s1) \<Rightarrow>
        if \<not> b then Inr (rs, s1)
        else (case gettoken buf s1 of (tok, _, s2) \<Rightarrow>
              (case gettoken buf s2 of (tok2, w, s3) \<Rightarrow>
                 if tok2 \<noteq> CHR ''a'' then Inl (Syntax ''missing file for redirection'')
                 else parseredirs n buf s3 (rs @ [redir_of tok w]))))"

fun parseargs ::
  "nat \<Rightarrow> string \<Rightarrow> nat \<Rightarrow> word_pos list \<Rightarrow> redir list \<Rightarrow> parse_error + (word_pos list \<times> redir list) \<times> nat" where
  "parseargs 0 buf s args rs = Inl Fuel"
| "parseargs (Suc n) buf s args rs =
     (case peek buf s ''|)&;'' of (b, s1) \<Rightarrow>
        if b then Inr ((args, rs), s1)
        else (case gettoken buf s1 of (tok, w, s2) \<Rightarrow>
                if tok = NUL then Inr ((args, rs), s2)
                else if tok \<noteq> CHR ''a'' then Inl (Syntax ''syntax'')
                else if Suc (length args) \<ge> MAXARGS then Inl (Syntax ''too many args'')
                else (case parseredirs n buf s2 rs of
                        Inl e \<Rightarrow> Inl e
                      | Inr (rs', s3) \<Rightarrow> parseargs n buf s3 (args @ [w]) rs')))"

fun parseback :: "nat \<Rightarrow> string \<Rightarrow> nat \<Rightarrow> cmd \<Rightarrow> parse_error + cmd \<times> nat" where
  "parseback 0 buf s c = Inl Fuel"
| "parseback (Suc n) buf s c =
     (case peek buf s ''&'' of (b, s1) \<Rightarrow>
        if \<not> b then Inr (c, s1)
        else (case gettoken buf s1 of (_, _, s2) \<Rightarrow> parseback n buf s2 (BACK c)))"

fun parseline :: "nat \<Rightarrow> string \<Rightarrow> nat \<Rightarrow> parse_error + cmd \<times> nat"
  and parsepipe :: "nat \<Rightarrow> string \<Rightarrow> nat \<Rightarrow> parse_error + cmd \<times> nat"
  and parseexec :: "nat \<Rightarrow> string \<Rightarrow> nat \<Rightarrow> parse_error + cmd \<times> nat"
  and parseblock :: "nat \<Rightarrow> string \<Rightarrow> nat \<Rightarrow> parse_error + cmd \<times> nat" where
  "parseline 0 buf s = Inl Fuel"
| "parseline (Suc n) buf s =
     (case parsepipe n buf s of
        Inl e \<Rightarrow> Inl e
      | Inr (c, s1) \<Rightarrow>
          (case parseback n buf s1 c of
             Inl e \<Rightarrow> Inl e
           | Inr (c1, s2) \<Rightarrow>
               (case peek buf s2 '';'' of (b, s3) \<Rightarrow>
                  if \<not> b then Inr (c1, s3)
                  else (case gettoken buf s3 of (_, _, s4) \<Rightarrow>
                          (case parseline n buf s4 of
                             Inl e \<Rightarrow> Inl e
                           | Inr (c2, s5) \<Rightarrow> Inr (LIST c1 c2, s5))))))"
| "parsepipe 0 buf s = Inl Fuel"
| "parsepipe (Suc n) buf s =
     (case parseexec n buf s of
        Inl e \<Rightarrow> Inl e
      | Inr (c, s1) \<Rightarrow>
          (case peek buf s1 ''|'' of (b, s2) \<Rightarrow>
             if \<not> b then Inr (c, s2)
             else (case gettoken buf s2 of (_, _, s3) \<Rightarrow>
                     (case parsepipe n buf s3 of
                        Inl e \<Rightarrow> Inl e
                      | Inr (c2, s4) \<Rightarrow> Inr (PIPE c c2, s4)))))"
| "parseexec 0 buf s = Inl Fuel"
| "parseexec (Suc n) buf s =
     (case peek buf s ''('' of (b, s1) \<Rightarrow>
        if b then parseblock n buf s1
        else (case parseredirs n buf s1 [] of
                Inl e \<Rightarrow> Inl e
              | Inr (rs, s2) \<Rightarrow>
                  (case parseargs n buf s2 [] rs of
                     Inl e \<Rightarrow> Inl e
                   | Inr ((args, rs'), s3) \<Rightarrow> Inr (wrap (EXEC args) rs', s3))))"
| "parseblock 0 buf s = Inl Fuel"
| "parseblock (Suc n) buf s =
     (case peek buf s ''('' of (b, s1) \<Rightarrow>
        if \<not> b then Inl (Syntax ''parseblock'')
        else (case gettoken buf s1 of (_, _, s2) \<Rightarrow>
                (case parseline n buf s2 of
                   Inl e \<Rightarrow> Inl e
                 | Inr (c, s3) \<Rightarrow>
                     (case peek buf s3 '')'' of (b', s4) \<Rightarrow>
                        if \<not> b' then Inl (Syntax ''syntax - missing )'')
                        else (case gettoken buf s4 of (_, _, s5) \<Rightarrow>
                                (case parseredirs n buf s5 [] of
                                   Inl e \<Rightarrow> Inl e
                                 | Inr (rs, s6) \<Rightarrow> Inr (wrap c rs, s6)))))))"

text \<open>\<^verbatim>\<open>nulterminate\<close> on the array, its terminating NUL included.\<close>

fun nulterminate :: "cmd \<Rightarrow> string \<Rightarrow> string" where
  "nulterminate (EXEC args) a = foldl (\<lambda>a (q, eq). a[eq := NUL]) a args"
| "nulterminate (REDIR c (q, eq) mode fd) a = (nulterminate c a)[eq := NUL]"
| "nulterminate (PIPE l r) a = nulterminate r (nulterminate l a)"
| "nulterminate (LIST l r) a = nulterminate r (nulterminate l a)"
| "nulterminate (BACK c) a = nulterminate c a"

definition parse_fuel :: "string \<Rightarrow> nat" where
  "parse_fuel buf = 4 * length buf + 6"

definition parsecmd :: "string \<Rightarrow> parse_error + cmd \<times> string" where
  "parsecmd buf =
     (case parseline (parse_fuel buf) buf 0 of
        Inl e \<Rightarrow> Inl e
      | Inr (c, s) \<Rightarrow>
          (case peek buf s '''' of (_, s') \<Rightarrow>
             if s' \<noteq> length buf then Inl (Leftovers (drop s' buf))
             else Inr (c, nulterminate c (buf @ [NUL]))))"

section \<open>Positions and words\<close>

definition plain :: "char \<Rightarrow> bool" where
  "plain c \<longleftrightarrow> strchr whitespace c = None \<and> strchr symbols c = None"

text \<open>A word: not empty, within the line, made of plain characters, and as long as possible.\<close>

definition good_word :: "string \<Rightarrow> word_pos \<Rightarrow> bool" where
  "good_word buf w \<longleftrightarrow> fst w < snd w \<and> snd w \<le> length buf \<and>
     (\<forall>i. fst w \<le> i \<and> i < snd w \<longrightarrow> plain (buf ! i)) \<and> (snd w < length buf \<longrightarrow> \<not> plain (buf ! snd w))"

fun words :: "cmd \<Rightarrow> word_pos set" where
  "words (EXEC args) = set args"
| "words (REDIR c w mode fd) = insert w (words c)"
| "words (PIPE l r) = words l \<union> words r"
| "words (LIST l r) = words l \<union> words r"
| "words (BACK c) = words c"

lemma skip_ws_bounds: "s \<le> length buf \<Longrightarrow> s \<le> skip_ws buf s \<and> skip_ws buf s \<le> length buf \<and>
    (skip_ws buf s < length buf \<longrightarrow> strchr whitespace (at buf (skip_ws buf s)) = None)"
proof (induction buf s rule: skip_ws.induct)
  case (1 buf s)
  show ?case
  proof (cases "s < length buf \<and> strchr whitespace (at buf s) \<noteq> None")
    case True
    then have "skip_ws buf s = skip_ws buf (s + 1)" by (simp add: skip_ws.simps [of buf s])
    then show ?thesis using 1 True by simp
  next
    case False
    then have "skip_ws buf s = s" by (subst skip_ws.simps) auto
    then show ?thesis using False 1(2) by auto
  qed
qed

lemma skip_ws_idem: "s \<le> length buf \<Longrightarrow> skip_ws buf (skip_ws buf s) = skip_ws buf s"
  using skip_ws_bounds [of s buf] by (subst skip_ws.simps) auto

lemma skip_word_bounds: "s \<le> length buf \<Longrightarrow> s \<le> skip_word buf s \<and> skip_word buf s \<le> length buf \<and>
    (\<forall>i. s \<le> i \<and> i < skip_word buf s \<longrightarrow> plain (buf ! i)) \<and>
    (skip_word buf s < length buf \<longrightarrow> \<not> plain (buf ! skip_word buf s))"
proof (induction buf s rule: skip_word.induct)
  case (1 buf s)
  show ?case
  proof (cases "s < length buf \<and> plain (buf ! s)")
    case True
    then have c: "s < length buf \<and> strchr whitespace (at buf s) = None \<and> strchr symbols (at buf s) = None"
      by (simp add: plain_def at_def)
    then have eq: "skip_word buf s = skip_word buf (s + 1)" by (simp add: skip_word.simps [of buf s])
    have "s + 1 \<le> length buf" using True by simp
    note IH = 1(1) [OF c this]
    have "plain (buf ! i)" if "s \<le> i" "i < skip_word buf s" for i
      using that IH eq True by (cases "i = s") auto
    then show ?thesis using IH eq by auto
  next
    case False
    then have "skip_word buf s = s" by (subst skip_word.simps) (auto simp: plain_def at_def)
    then show ?thesis using False 1(2) by auto
  qed
qed

lemma at_NUL: "at buf q \<noteq> NUL \<Longrightarrow> q < length buf"
  by (auto simp: at_def split: if_splits)

lemma symbols_plain:
  "c \<noteq> NUL \<Longrightarrow> strchr whitespace c = None \<Longrightarrow> c \<notin> set ''|();&<'' \<Longrightarrow> c \<noteq> CHR ''>'' \<Longrightarrow> plain c"
  by (auto simp: plain_def symbols_def)

lemma gettoken_facts:
  assumes "gettoken buf s = (r, w, s')" and "s \<le> length buf"
  shows "s \<le> s' \<and> s' \<le> length buf \<and> (r \<noteq> NUL \<longrightarrow> s < s') \<and> (r = CHR ''a'' \<longrightarrow> good_word buf w)"
proof -
  define q where "q = skip_ws buf s"
  have q: "s \<le> q" "q \<le> length buf" "q < length buf \<Longrightarrow> strchr whitespace (at buf q) = None"
    using skip_ws_bounds [OF assms(2)] by (auto simp: q_def)
  define eq where "eq = snd w"
  have w: "w = (q, eq)" "s' = skip_ws buf eq"
    using assms(1) by (auto simp: gettoken_def Let_def q_def eq_def split: prod.splits if_splits)
  have "q \<le> eq \<and> eq \<le> length buf \<and> (r \<noteq> NUL \<longrightarrow> q < eq) \<and> (r = CHR ''a'' \<longrightarrow> good_word buf (q, eq))"
  proof (cases "at buf q \<noteq> NUL \<and> at buf q \<notin> set ''|();&<'' \<and> at buf q \<noteq> CHR ''>''")
    case True
    have lt: "q < length buf" using True at_NUL by blast
    then have p: "plain (buf ! q)" using True q(3) symbols_plain [of "at buf q"] by (simp add: at_def)
    have "eq = skip_word buf q"
      using assms(1) True by (auto simp: gettoken_def Let_def eq_def q_def [symmetric] split: prod.splits)
    moreover have "q \<noteq> skip_word buf q" using skip_word_bounds [OF q(2)] lt p by metis
    ultimately show ?thesis using skip_word_bounds [OF q(2)] by (auto simp: good_word_def)
  next
    case False
    have "r \<noteq> CHR ''a'' \<and> q \<le> eq \<and> eq \<le> length buf \<and> (r \<noteq> NUL \<longrightarrow> q < eq)"
      using assms(1) False q(2) at_NUL [of buf q] at_NUL [of buf "q + 1"]
      by (auto simp: gettoken_def Let_def eq_def NUL_def q_def [symmetric] split: prod.splits if_splits)
    then show ?thesis by blast
  qed
  moreover have "eq \<le> s' \<and> s' \<le> length buf" if "eq \<le> length buf" using skip_ws_bounds [OF that] w by simp
  ultimately show ?thesis using q(1) w(1) by auto
qed

lemma peek_facts:
  assumes "peek buf s toks = (b, s')" and "s \<le> length buf"
  shows "s \<le> s' \<and> s' \<le> length buf"
  using assms skip_ws_bounds [OF assms(2)] by (auto simp: peek_def Let_def)

lemma peek_gettoken:
  assumes "peek buf s toks = (True, s1)" and "gettoken buf s1 = (r, w, s2)" and "s \<le> length buf"
  shows "s1 < s2 \<and> s2 \<le> length buf"
proof -
  have s1: "s1 = skip_ws buf s" "at buf s1 \<noteq> NUL" using assms(1) by (auto simp: peek_def Let_def)
  then have i: "skip_ws buf s1 = s1" using skip_ws_idem [OF assms(3)] by simp
  then have "r \<noteq> NUL" using assms(2) s1(2) by (auto simp: gettoken_def Let_def NUL_def split: if_splits)
  then show ?thesis using gettoken_facts [OF assms(2)] peek_facts [OF assms(1,3)] by simp
qed

section \<open>The parser terminates and yields good words\<close>

text \<open>
  \<open>parses buf s need n res words\<close>: a parsing function called at position \<open>s\<close> with fuel \<open>n\<close> does
  not run out of fuel when \<open>n\<close> is at least \<open>need\<close>, and its result is at a later position and
  has only good words.
\<close>

definition parses :: "string \<Rightarrow> nat \<Rightarrow> nat \<Rightarrow> nat \<Rightarrow> parse_error + 'a \<times> nat \<Rightarrow> ('a \<Rightarrow> word_pos set) \<Rightarrow> bool" where
  "parses buf s need n res ws \<longleftrightarrow> (need \<le> n \<longrightarrow> res \<noteq> Inl Fuel) \<and>
     (\<forall>x s'. res = Inr (x, s') \<longrightarrow> s \<le> s' \<and> s' \<le> length buf \<and> (\<forall>w \<in> ws x. good_word buf w))"

lemma parsesI:
  assumes "need \<le> n \<Longrightarrow> res \<noteq> Inl Fuel"
    and "\<And>x s'. res = Inr (x, s') \<Longrightarrow> s \<le> s' \<and> s' \<le> length buf \<and> (\<forall>w \<in> ws x. good_word buf w)"
  shows "parses buf s need n res ws"
  using assms by (auto simp: parses_def)

lemma fst_redir_of [simp]: "fst (redir_of tok w) = w"
  by (simp add: redir_of_def)

lemma words_wrap: "words (wrap c rs) = words c \<union> fst ` set rs"
proof (induction rs arbitrary: c)
  case (Cons r rs)
  then show ?case by (cases r) (auto simp: wrap_def)
qed (simp add: wrap_def)

lemma words_wrap_good:
  "w \<in> words (wrap c rs) \<Longrightarrow> \<forall>w \<in> words c. good_word buf w \<Longrightarrow> \<forall>r \<in> set rs. good_word buf (fst r) \<Longrightarrow>
   good_word buf w"
  by (auto simp: words_wrap)

lemma parseredirs_parses:
  assumes "s \<le> length buf" and "\<forall>w \<in> fst ` set rs. good_word buf w"
  shows "parses buf s (length buf - s + 1) n (parseredirs n buf s rs) (\<lambda>rs. fst ` set rs)"
  using assms
proof (induction n arbitrary: s rs)
  case 0
  then show ?case by (simp add: parses_def)
next
  case (Suc n)
  obtain b s1 where p: "peek buf s ''<>'' = (b, s1)" by (cases "peek buf s ''<>''")
  note s1 = peek_facts [OF p Suc.prems(1)]
  obtain tok w1 s2 where g1: "gettoken buf s1 = (tok, w1, s2)" by (cases "gettoken buf s1")
  obtain tok2 w s3 where g2: "gettoken buf s2 = (tok2, w, s3)" by (cases "gettoken buf s2")
  show ?case
  proof (cases "b \<and> tok2 = CHR ''a''")
    case True
    have s2: "s1 < s2" "s2 \<le> length buf" using peek_gettoken [OF _ g1 Suc.prems(1)] p True by auto
    have s3: "s2 < s3" "s3 \<le> length buf" "good_word buf w"
      using gettoken_facts [OF g2 s2(2)] True by (auto simp: NUL_def)
    have "parses buf s3 (length buf - s3 + 1) n (parseredirs n buf s3 (rs @ [redir_of tok w])) (\<lambda>rs. fst ` set rs)"
      using Suc.IH [of s3 "rs @ [redir_of tok w]"] s3 Suc.prems(2) by auto
    moreover have "parseredirs (Suc n) buf s rs = parseredirs n buf s3 (rs @ [redir_of tok w])"
      using p g1 g2 True by simp
    ultimately show ?thesis using s1 s2 s3 by (auto simp: parses_def)
  next
    case False
    then show ?thesis using p g1 g2 s1 Suc.prems(2) by (auto simp: parses_def)
  qed
qed

lemma parseargs_parses:
  assumes "s \<le> length buf" and "\<forall>w \<in> set args \<union> fst ` set rs. good_word buf w"
  shows "parses buf s (length buf - s + 2) n (parseargs n buf s args rs) (\<lambda>(args, rs). set args \<union> fst ` set rs)"
  using assms
proof (induction n arbitrary: s args rs)
  case 0
  then show ?case by (simp add: parses_def)
next
  case (Suc n)
  obtain b s1 where p: "peek buf s ''|)&;'' = (b, s1)" by (cases "peek buf s ''|)&;''")
  note s1 = peek_facts [OF p Suc.prems(1)]
  obtain tok w s2 where g: "gettoken buf s1 = (tok, w, s2)" by (cases "gettoken buf s1")
  have s2: "s1 \<le> s2 \<and> s2 \<le> length buf \<and> (tok \<noteq> NUL \<longrightarrow> s1 < s2) \<and> (tok = CHR ''a'' \<longrightarrow> good_word buf w)"
    using gettoken_facts [OF g] s1 by simp
  show ?case
  proof (cases "\<not> b \<and> tok = CHR ''a'' \<and> Suc (length args) < MAXARGS")
    case True
    then have word: "good_word buf w" "s1 < s2" using s2 by (auto simp: NUL_def)
    have r: "parses buf s2 (length buf - s2 + 1) n (parseredirs n buf s2 rs) (\<lambda>rs. fst ` set rs)"
      using parseredirs_parses [of s2 buf rs n] s2 Suc.prems(2) by auto
    have eq: "parseargs (Suc n) buf s args rs =
        (case parseredirs n buf s2 rs of Inl e \<Rightarrow> Inl e | Inr (rs', s3) \<Rightarrow> parseargs n buf s3 (args @ [w]) rs')"
      using p g True by (simp add: NUL_def)
    show ?thesis
    proof (cases "parseredirs n buf s2 rs")
      case (Inl e)
      then show ?thesis using eq r word s1 s2 by (auto simp: parses_def)
    next
      case (Inr x)
      obtain rs' s3 where x: "x = (rs', s3)" by (cases x)
      then have s3: "s2 \<le> s3" "s3 \<le> length buf" "\<forall>w \<in> fst ` set rs'. good_word buf w"
        using r Inr by (auto simp: parses_def)
      have "parses buf s3 (length buf - s3 + 2) n (parseargs n buf s3 (args @ [w]) rs') (\<lambda>(args, rs). set args \<union> fst ` set rs)"
        using Suc.IH [of s3 "args @ [w]" rs'] s3 word Suc.prems(2) by auto
      then show ?thesis using eq Inr x s1 word s3 by (auto simp: parses_def)
    qed
  next
    case False
    then show ?thesis using p g s1 s2 Suc.prems(2) by (auto simp: parses_def)
  qed
qed

lemma parseback_parses:
  assumes "s \<le> length buf" and "\<forall>w \<in> words c. good_word buf w"
  shows "parses buf s (length buf - s + 1) n (parseback n buf s c) words"
  using assms
proof (induction n arbitrary: s c)
  case 0
  then show ?case by (simp add: parses_def)
next
  case (Suc n)
  obtain b s1 where p: "peek buf s ''&'' = (b, s1)" by (cases "peek buf s ''&''")
  note s1 = peek_facts [OF p Suc.prems(1)]
  obtain tok w s2 where g: "gettoken buf s1 = (tok, w, s2)" by (cases "gettoken buf s1")
  show ?case
  proof (cases b)
    case True
    then have s2: "s1 < s2" "s2 \<le> length buf" using peek_gettoken [OF _ g Suc.prems(1)] p by auto
    have "parses buf s2 (length buf - s2 + 1) n (parseback n buf s2 (BACK c)) words"
      using Suc.IH [of s2 "BACK c"] s2 Suc.prems(2) by simp
    then show ?thesis using p g True s1 s2 by (auto simp: parses_def)
  next
    case False
    then show ?thesis using p s1 Suc.prems(2) by (auto simp: parses_def)
  qed
qed

lemma parses_bind:
  assumes "parses buf s0 need1 n1 r ws1" and "need \<le> n \<Longrightarrow> need1 \<le> n1"
    and "\<And>x s1. s0 \<le> s1 \<Longrightarrow> s1 \<le> length buf \<Longrightarrow> \<forall>w \<in> ws1 x. good_word buf w \<Longrightarrow> parses buf s need n (f x s1) ws"
  shows "parses buf s need n (case r of Inl e \<Rightarrow> Inl e | Inr (x, s1) \<Rightarrow> f x s1) ws"
proof (cases r)
  case (Inl e)
  then show ?thesis using assms(1,2) by (auto simp: parses_def)
next
  case (Inr y)
  then show ?thesis using assms(1,3) by (cases y) (auto simp: parses_def)
qed

lemma parses_later:
  "parses buf s' need' n' res ws \<Longrightarrow> s \<le> s' \<Longrightarrow> (need \<le> n \<Longrightarrow> need' \<le> n') \<Longrightarrow> parses buf s need n res ws"
  by (auto simp: parses_def)

lemma parses_ret:
  "s \<le> s' \<Longrightarrow> s' \<le> length buf \<Longrightarrow> \<forall>w \<in> ws x. good_word buf w \<Longrightarrow> parses buf s need n (Inr (x, s')) ws"
  by (simp add: parses_def)

lemma parses_err: "parses buf s need n (Inl (Syntax m)) ws"
  by (simp add: parses_def)

text \<open>Looking at the next character and consuming it, as all four functions do.\<close>

lemma parses_peek:
  assumes "s0 \<le> length buf"
    and "\<And>s1. s0 \<le> s1 \<Longrightarrow> s1 \<le> length buf \<Longrightarrow> parses buf s need n (no s1) ws"
    and "\<And>s1 s2. s0 \<le> s1 \<Longrightarrow> s1 < s2 \<Longrightarrow> s2 \<le> length buf \<Longrightarrow> parses buf s need n (yes s2) ws"
  shows "parses buf s need n
     (case peek buf s0 toks of (b, s1) \<Rightarrow>
        if \<not> b then no s1 else (case gettoken buf s1 of (_, _, s2) \<Rightarrow> yes s2)) ws"
proof -
  obtain b s1 where p: "peek buf s0 toks = (b, s1)" by (cases "peek buf s0 toks")
  obtain tok w s2 where g: "gettoken buf s1 = (tok, w, s2)" by (cases "gettoken buf s1")
  note s1 = peek_facts [OF p assms(1)]
  show ?thesis
  proof (cases b)
    case True
    then have "s1 < s2 \<and> s2 \<le> length buf" using peek_gettoken [OF _ g assms(1)] p by simp
    then show ?thesis using assms(3) [of s1 s2] s1 p g True by simp
  next
    case False
    then show ?thesis using assms(2) [of s1] s1 p by simp
  qed
qed

lemma parser_parses:
  "s \<le> length buf \<Longrightarrow> parses buf s (4 * (length buf - s) + 6) n (parseline n buf s) words"
  "s \<le> length buf \<Longrightarrow> parses buf s (4 * (length buf - s) + 5) n (parsepipe n buf s) words"
  "s \<le> length buf \<Longrightarrow> parses buf s (4 * (length buf - s) + 4) n (parseexec n buf s) words"
  "s \<le> length buf \<Longrightarrow> parses buf s (4 * (length buf - s) + 3) n (parseblock n buf s) words"
proof (induction n arbitrary: s)
  case 0
  { case 1 then show ?case by (simp add: parses_def)
  next case 2 then show ?case by (simp add: parses_def)
  next case 3 then show ?case by (simp add: parses_def)
  next case 4 then show ?case by (simp add: parses_def) }
next
  case (Suc n)
  { case 1
    show ?case
      unfolding parseline.simps
      by (rule parses_bind [OF Suc.IH(2) [OF 1]], simp, rule parses_bind [OF parseback_parses],
          assumption, assumption, simp, rule parses_peek, assumption)
        (auto intro!: parses_ret parses_bind [OF Suc.IH(1)])
  next
    case 2
    show ?case
      unfolding parsepipe.simps
      by (rule parses_bind [OF Suc.IH(3) [OF 2]], simp, rule parses_peek, assumption)
        (auto intro!: parses_ret parses_bind [OF Suc.IH(2)])
  next
    case 3
    obtain b s1 where p: "peek buf s ''('' = (b, s1)" by (cases "peek buf s ''(''")
    have s1: "s \<le> s1" "s1 \<le> length buf" using peek_facts [OF p 3] by auto
    have "parses buf s (4 * (length buf - s) + 4) (Suc n)
        (case parseredirs n buf s1 [] of Inl e \<Rightarrow> Inl e
         | Inr (rs, s2) \<Rightarrow> (case parseargs n buf s2 [] rs of Inl e \<Rightarrow> Inl e
             | Inr (x, s3) \<Rightarrow> (case x of (args, rs') \<Rightarrow> Inr (wrap (EXEC args) rs', s3)))) words"
    proof (rule parses_bind [OF parseredirs_parses [OF s1(2)]])
      fix rs :: "redir list" and s2 assume "s1 \<le> s2" "s2 \<le> length buf" "\<forall>w \<in> fst ` set rs. good_word buf w"
      with s1 show "parses buf s (4 * (length buf - s) + 4) (Suc n)
         (case parseargs n buf s2 [] rs of Inl e \<Rightarrow> Inl e
             | Inr (x, s3) \<Rightarrow> (case x of (args, rs') \<Rightarrow> Inr (wrap (EXEC args) rs', s3))) words"
        by (intro parses_bind [OF parseargs_parses]) (auto intro!: parses_ret simp: words_wrap)
    qed (use s1 in auto)
    moreover have "parses buf s (4 * (length buf - s) + 4) (Suc n) (parseblock n buf s1) words"
      using s1 by (intro parses_later [OF Suc.IH(4)]) auto
    ultimately show ?case using p by (cases b) (simp_all add: case_prod_beta)
  next
    case 4
    show ?case
      unfolding parseblock.simps
      by (rule parses_peek [OF 4], rule parses_err, rule parses_bind [OF Suc.IH(1)], assumption, simp,
          rule parses_peek, assumption, rule parses_err, rule parses_bind [OF parseredirs_parses])
        (auto intro!: parses_ret intro: words_wrap_good) }
qed

text \<open>
  C38. The parser always comes to an end: for every command line the recursion of \<^verbatim>\<open>parsecmd\<close>
  stays within a depth of four calls per character, so it either reports a syntax error or
  returns a command, never neither.
\<close>

theorem parsecmd_terminates: "parsecmd buf \<noteq> Inl Fuel"
proof -
  have "parseline (parse_fuel buf) buf 0 \<noteq> Inl Fuel"
    using parser_parses(1) [of 0 buf "parse_fuel buf"] by (simp add: parses_def parse_fuel_def)
  then show ?thesis by (auto simp: parsecmd_def split: sum.splits prod.splits if_splits)
qed

section \<open>NUL-terminating the words\<close>

lemma length_nulterminate [simp]: "length (nulterminate c a) = length a"
proof (induction c a rule: nulterminate.induct)
  case (1 args a)
  show ?case by (induction args arbitrary: a) (auto split: prod.splits)
qed auto

text \<open>The terminators are the only change, and each word gets its own.\<close>

lemma nth_nulterminate:
  "i < length a \<Longrightarrow> nulterminate c a ! i = (if i \<in> snd ` words c then NUL else a ! i)"
proof (induction c a rule: nulterminate.induct)
  case (1 args a)
  then show ?case
  proof (induction args arbitrary: a)
    case (Cons w args)
    then show ?case by (cases w) (auto simp: nth_list_update)
  qed simp
next
  case (2 c q eq mode fd a)
  then show ?case by (cases "i = eq") simp_all
next
  case (3 l r a)
  then show ?case by (auto simp: image_Un)
next
  case (4 l r a)
  then show ?case by (auto simp: image_Un)
qed simp

lemma cstr_stops: "NUL \<notin> set s \<Longrightarrow> cstr (s @ NUL # r) = s"
  by (induction s) (auto simp: cstr_def)

text \<open>
  C39. The words of a parsed command are what was typed. Every word of the command is a
  non-empty piece of the line made of characters that are neither blanks nor symbols, and after
  \<^verbatim>\<open>nulterminate\<close> the C string that starts at the word is exactly that piece: terminating one
  word never cuts into another.
\<close>

theorem parsecmd_words:
  assumes "parsecmd buf = Inr (c, a)" and "(q, eq) \<in> words c" and "NUL \<notin> set buf"
  shows "q < eq \<and> eq \<le> length buf \<and> (\<forall>i. q \<le> i \<and> i < eq \<longrightarrow> plain (buf ! i)) \<and>
     cstr (drop q a) = take (eq - q) (drop q buf)"
proof -
  obtain s where s: "parseline (parse_fuel buf) buf 0 = Inr (c, s)" and a: "a = nulterminate c (buf @ [NUL])"
    using assms(1) by (auto simp: parsecmd_def split: sum.splits prod.splits if_splits)
  have good: "\<forall>w \<in> words c. good_word buf w"
    using parser_parses(1) [of 0 buf "parse_fuel buf"] s by (simp add: parses_def)
  then have w: "q < eq" "eq \<le> length buf" "\<And>i. q \<le> i \<Longrightarrow> i < eq \<Longrightarrow> plain (buf ! i)"
    using assms(2) by (auto simp: good_word_def)
  have end_not_plain: "\<not> plain (buf ! e)" if "(p, e) \<in> words c" "e < length buf" for p e
    using good that by (auto simp: good_word_def)
  have inside: "a ! i = buf ! i" if "q \<le> i" "i < eq" for i
  proof -
    have "i \<notin> snd ` words c" using end_not_plain w that by fastforce
    then show ?thesis using that w by (simp add: a nth_nulterminate nth_append)
  qed
  have stop: "a ! eq = NUL"
    using assms(2) w(2) by (auto simp: a nth_nulterminate image_iff intro: bexI [of _ "(q, eq)"])
  have len: "length a = Suc (length buf)" by (simp add: a)
  have "drop q a = take (eq - q) (drop q a) @ NUL # drop (Suc eq) a"
    using stop len w by (metis Cons_nth_drop_Suc append_take_drop_id drop_drop le_add_diff_inverse2 less_Suc_eq_le less_imp_le_nat)
  moreover have "take (eq - q) (drop q a) = take (eq - q) (drop q buf)"
    using inside len w by (intro nth_equalityI) auto
  moreover have "NUL \<notin> set (take (eq - q) (drop q buf))"
    using assms(3) by (auto dest!: in_set_takeD in_set_dropD)
  ultimately have "cstr (drop q a) = take (eq - q) (drop q buf)"
    by (metis cstr_stops)
  then show ?thesis using w by blast
qed

theorem parsecmd_words_witness:
  "\<exists>c a. parsecmd ''cat f|wc'' = Inr (c, a) \<and> (6, 8) \<in> words c \<and> cstr (drop 6 a) = ''wc''"
proof -
  have run: "parsecmd ''cat f|wc'' = Inr (PIPE (EXEC [(0, 3), (4, 5)]) (EXEC [(6, 8)]),
     [CHR ''c'', CHR ''a'', CHR ''t'', NUL, CHR ''f'', NUL, CHR ''w'', CHR ''c'', NUL])"
    by code_simp
  show ?thesis using parsecmd_words [OF run, of 6 8] run by (simp add: NUL_def)
qed

end
