(* ===== verification/Shrun.thy ===== *)
theory Shrun
  imports Sh
begin

text \<open>
  \<^verbatim>\<open>user/sh.c\<close>: running commands. A process of the shell is the tree of the system calls it
  makes; \<open>behave\<close> runs such a tree on a table of open descriptors, and \<open>plumb\<close> says directly
  which programs a command starts and what their descriptors are.
\<close>

section \<open>Processes of the shell\<close>

text \<open>
  The calls, each with what follows; a call whose result the shell looks at is followed by a
  function of the result. \<^verbatim>\<open>Fork\<close> has the child and, as a function of the pid, the parent;
  what follows \<^verbatim>\<open>Exec\<close> runs only when it fails.
\<close>

datatype prog =
    Exit int
  | Close int prog
  | Open string int "int \<Rightarrow> prog"
  | Dup int prog
  | MkPipe "(int \<times> int) option \<Rightarrow> prog"
  | Fork prog "int \<Rightarrow> prog"
  | Wait prog
  | Exec string "string list" prog
  | Chdir string "int \<Rightarrow> prog"
  | Say string prog

definition upanic :: "string \<Rightarrow> prog" where
  "upanic s = Say (s @ [CHR 0x0A]) (Exit 1)"

definition fork1 :: "prog \<Rightarrow> prog \<Rightarrow> prog" where
  "fork1 child parent = Fork child (\<lambda>pid. if pid = -1 then upanic ''fork'' else parent)"

definition word_at :: "string \<Rightarrow> word_pos \<Rightarrow> string" where
  "word_at a w = cstr (drop (fst w) a)"

text \<open>\<^verbatim>\<open>runcmd\<close>, on a command and the NUL-terminated words in the array.\<close>

fun runcmd :: "string \<Rightarrow> cmd \<Rightarrow> prog" where
  "runcmd a (EXEC args) =
     (if args = [] then Exit 1
      else let argv = map (word_at a) args in
        Exec (hd argv) argv (Say (''exec '' @ hd argv @ '' failed'' @ [CHR 0x0A]) (Exit 0)))"
| "runcmd a (REDIR c w mode fd) =
     Close fd (Open (word_at a w) mode (\<lambda>r.
       if r < 0 then Say (''open '' @ word_at a w @ '' failed'' @ [CHR 0x0A]) (Exit 1)
       else runcmd a c))"
| "runcmd a (LIST l r) = fork1 (runcmd a l) (Wait (runcmd a r))"
| "runcmd a (PIPE l r) =
     MkPipe (\<lambda>p. case p of
         None \<Rightarrow> upanic ''pipe''
       | Some (p0, p1) \<Rightarrow>
           fork1 (Close 1 (Dup p1 (Close p0 (Close p1 (runcmd a l)))))
             (fork1 (Close 0 (Dup p0 (Close p0 (Close p1 (runcmd a r)))))
               (Close p0 (Close p1 (Wait (Wait (Exit 0)))))))"
| "runcmd a (BACK c) = fork1 (runcmd a c) (Exit 0)"

text \<open>
  The body of the loop in \<^verbatim>\<open>main\<close> for one line, followed by \<open>k\<close>.
\<close>

definition lead_ws :: "string \<Rightarrow> string" where
  "lead_ws buf = dropWhile (\<lambda>c. c = CHR '' '' \<or> c = CHR 0x09) buf"

definition run_line :: "string \<Rightarrow> prog" where
  "run_line cmd =
     (case parsecmd cmd of
        Inl (Syntax m) \<Rightarrow> upanic m
      | Inl (Leftovers r) \<Rightarrow> Say (''leftovers: '' @ r @ [CHR 0x0A]) (upanic ''syntax'')
      | Inl Fuel \<Rightarrow> Exit 1
      | Inr (c, a) \<Rightarrow> runcmd a c)"

definition sh_line :: "string \<Rightarrow> prog \<Rightarrow> prog" where
  "sh_line buf k =
     (let cmd = lead_ws buf in
      if take 1 cmd = [CHR 0x0A] then k
      else if take 3 cmd = ''cd '' then
        (let dir = drop 3 (butlast cmd) in
         Chdir dir (\<lambda>r. if r < 0 then Say (''cannot cd '' @ dir @ [CHR 0x0A]) k else k))
      else fork1 (run_line cmd) (Wait k))"

text \<open>
  \<^verbatim>\<open>getcmd\<close> into the buffer of 100 bytes, over a way \<open>rd\<close> of reading a character; the prompt is
  left out. \<open>sh_loop\<close> is the loop of \<^verbatim>\<open>main\<close> for the first \<open>n\<close> lines.
\<close>

definition getcmd :: "('s \<Rightarrow> char option \<times> 's) \<Rightarrow> nat \<Rightarrow> 's \<Rightarrow> string option \<times> 's" where
  "getcmd rd nbuf s =
     (case ugets rd nbuf s of (buf, t) \<Rightarrow> (if cs_hd buf = NUL then None else Some (cstr buf), t))"

fun sh_loop :: "('s \<Rightarrow> char option \<times> 's) \<Rightarrow> nat \<Rightarrow> 's \<Rightarrow> prog" where
  "sh_loop rd 0 s = Exit 0"
| "sh_loop rd (Suc n) s =
     (case getcmd rd 100 s of
        (None, t) \<Rightarrow> Exit 0
      | (Some buf, t) \<Rightarrow> sh_line buf (sh_loop rd n t))"

text \<open>
  The loop that opens the console until three descriptors are open. A new descriptor is the
  lowest free one, so at most three of them are below 3 and four rounds are enough.
\<close>

fun open_console :: "nat \<Rightarrow> prog \<Rightarrow> prog" where
  "open_console 0 k = k"
| "open_console (Suc n) k =
     Open ''console'' 2 (\<lambda>fd. if fd < 0 then k else if fd \<ge> 3 then Close fd k else open_console n k)"

definition sh_main :: "('s \<Rightarrow> char option \<times> 's) \<Rightarrow> nat \<Rightarrow> 's \<Rightarrow> prog" where
  "sh_main rd n s = open_console 4 (sh_loop rd n s)"

section \<open>Descriptors\<close>

text \<open>What a descriptor refers to: something inherited, a file, an end of the n-th pipe.\<close>

datatype desc = Inherited nat | File string int | ReadEnd nat | WriteEnd nat

type_synonym fdtab = "int \<Rightarrow> desc option"

text \<open>A new descriptor is the lowest free one of the sixteen, as \<^verbatim>\<open>fdalloc\<close> chooses it.\<close>

definition lowest :: "fdtab \<Rightarrow> int option" where
  "lowest t = find (\<lambda>i. t i = None) (map int [0..<16])"

definition mkpipe :: "fdtab \<Rightarrow> nat \<Rightarrow> (fdtab \<times> int \<times> int) option" where
  "mkpipe t n =
     (case lowest t of
        None \<Rightarrow> None
      | Some p0 \<Rightarrow>
          (let t1 = t(p0 \<mapsto> ReadEnd n) in
           case lowest t1 of None \<Rightarrow> None | Some p1 \<Rightarrow> Some (t1(p1 \<mapsto> WriteEnd n), p0, p1)))"

text \<open>
  What can be seen of a process and its children: the programs started, with their
  descriptors; the waits, with what the waiting process still holds; and the messages.
\<close>

datatype event = Launch "string list" fdtab | Waits fdtab | Says string | ChangesDir string

text \<open>
  The behaviour of a process for a file system in which \<open>opens\<close> and \<open>runs\<close> say which files can be
  opened and executed and \<open>dirs\<close> what the directories are, when no \<^verbatim>\<open>fork\<close> fails. The last
  argument counts the pipes made so far.
\<close>

primrec behave ::
  "(string \<Rightarrow> int \<Rightarrow> bool) \<Rightarrow> (string \<Rightarrow> bool) \<Rightarrow> (string \<Rightarrow> bool) \<Rightarrow> prog \<Rightarrow> fdtab \<Rightarrow> nat \<Rightarrow> event list \<times> nat" where
  "behave opens runs dirs (Exit st) t n = ([], n)"
| "behave opens runs dirs (Close fd k) t n = behave opens runs dirs k (t(fd := None)) n"
| "behave opens runs dirs (Open f mode k) t n =
     (case lowest t of
        None \<Rightarrow> behave opens runs dirs (k (-1)) t n
      | Some fd \<Rightarrow>
          if opens f mode then behave opens runs dirs (k fd) (t(fd \<mapsto> File f mode)) n
          else behave opens runs dirs (k (-1)) t n)"
| "behave opens runs dirs (Dup fd k) t n =
     (case (t fd, lowest t) of
        (Some d, Some fd') \<Rightarrow> behave opens runs dirs k (t(fd' \<mapsto> d)) n
      | _ \<Rightarrow> behave opens runs dirs k t n)"
| "behave opens runs dirs (MkPipe k) t n =
     (case mkpipe t n of
        None \<Rightarrow> behave opens runs dirs (k None) t n
      | Some (t', p) \<Rightarrow> behave opens runs dirs (k (Some p)) t' (Suc n))"
| "behave opens runs dirs (Fork child parent) t n =
     (case behave opens runs dirs child t n of
        (es, m) \<Rightarrow> (case behave opens runs dirs (parent 1) t m of (es', m') \<Rightarrow> (es @ es', m')))"
| "behave opens runs dirs (Wait k) t n =
     (case behave opens runs dirs k t n of (es, m) \<Rightarrow> (Waits t # es, m))"
| "behave opens runs dirs (Exec path argv k) t n =
     (if runs path then ([Launch argv t], n) else behave opens runs dirs k t n)"
| "behave opens runs dirs (Chdir dir k) t n =
     (if dirs dir then (case behave opens runs dirs (k 0) t n of (es, m) \<Rightarrow> (ChangesDir dir # es, m))
      else behave opens runs dirs (k (-1)) t n)"
| "behave opens runs dirs (Say s k) t n =
     (case behave opens runs dirs k t n of (es, m) \<Rightarrow> (Says s # es, m))"

section \<open>The meaning of a command\<close>

text \<open>
  A command runs its programs with the descriptors of the shell, except that a redirection
  replaces one descriptor by the file and a pipe replaces the output of its left side and
  the input of its right side by the two ends.
\<close>

fun plumb :: "(string \<Rightarrow> int \<Rightarrow> bool) \<Rightarrow> (string \<Rightarrow> bool) \<Rightarrow> string \<Rightarrow> cmd \<Rightarrow> fdtab \<Rightarrow> nat \<Rightarrow> event list \<times> nat" where
  "plumb opens runs a (EXEC args) t n =
     (if args = [] then ([], n)
      else if runs (word_at a (hd args)) then ([Launch (map (word_at a) args) t], n)
      else ([Says (''exec '' @ word_at a (hd args) @ '' failed'' @ [CHR 0x0A])], n))"
| "plumb opens runs a (REDIR c w mode fd) t n =
     (if opens (word_at a w) mode then plumb opens runs a c (t(fd \<mapsto> File (word_at a w) mode)) n
      else ([Says (''open '' @ word_at a w @ '' failed'' @ [CHR 0x0A])], n))"
| "plumb opens runs a (LIST l r) t n =
     (case plumb opens runs a l t n of (es, m) \<Rightarrow>
      (case plumb opens runs a r t m of (es', m') \<Rightarrow> (es @ Waits t # es', m')))"
| "plumb opens runs a (PIPE l r) t n =
     (case plumb opens runs a l (t(1 \<mapsto> WriteEnd n)) (Suc n) of (es, m) \<Rightarrow>
      (case plumb opens runs a r (t(0 \<mapsto> ReadEnd n)) m of (es', m') \<Rightarrow> (es @ es' @ [Waits t, Waits t], m')))"
| "plumb opens runs a (BACK c) t n = plumb opens runs a c t n"

text \<open>The redirections of a command go to standard input or output.\<close>

fun redirs_std :: "cmd \<Rightarrow> bool" where
  "redirs_std (EXEC args) \<longleftrightarrow> True"
| "redirs_std (REDIR c w mode fd) \<longleftrightarrow> (fd = 0 \<or> fd = 1) \<and> redirs_std c"
| "redirs_std (LIST l r) \<longleftrightarrow> redirs_std l \<and> redirs_std r"
| "redirs_std (PIPE l r) \<longleftrightarrow> redirs_std l \<and> redirs_std r"
| "redirs_std (BACK c) \<longleftrightarrow> redirs_std c"

section \<open>The shell implements the meaning\<close>

definition standard :: "fdtab \<Rightarrow> bool" where
  "standard t \<longleftrightarrow> dom t = {0, 1, 2}"

lemma standardD:
  assumes "standard t"
  shows "t 0 \<noteq> None" "t 1 \<noteq> None" "t 2 \<noteq> None" "i \<notin> {0, 1, 2} \<Longrightarrow> t i = None"
  using assms by (auto simp: standard_def dom_def)

lemma standard_upd [simp]: "standard t \<Longrightarrow> fd \<in> {0, 1, 2} \<Longrightarrow> standard (t(fd \<mapsto> d))"
  by (auto simp: standard_def)

lemma fds16: "map int [0..<16] = [0, 1, 2, 3, 4, 5, 6, 7, 8, 9, 10, 11, 12, 13, 14, 15]"
  by (simp add: upt_rec)

lemma mkpipe_standard:
  assumes "standard t"
  shows "mkpipe t n = Some (t(3 \<mapsto> ReadEnd n, 4 \<mapsto> WriteEnd n), 3, 4)"
  using standardD [OF assms] by (simp add: mkpipe_def lowest_def fds16 Let_def)

lemma lowest_0: "t 0 = None \<Longrightarrow> lowest t = Some 0"
  by (simp add: lowest_def fds16)

lemma lowest_1: "t 0 \<noteq> None \<Longrightarrow> t 1 = None \<Longrightarrow> lowest t = Some 1"
  by (simp add: lowest_def fds16)

lemma fork1_behave:
  "behave opens runs dirs (fork1 child parent) t n =
     (case behave opens runs dirs child t n of (es, m) \<Rightarrow>
        (case behave opens runs dirs parent t m of (es', m') \<Rightarrow> (es @ es', m')))"
  by (simp add: fork1_def)

text \<open>After the plumbing of a pipe only the replaced descriptor differs.\<close>

lemma pipe_left:
  assumes "standard t"
  shows "behave opens runs dirs (Close 1 (Dup 4 (Close 3 (Close 4 k)))) (t(3 \<mapsto> ReadEnd n, 4 \<mapsto> WriteEnd n)) m =
     behave opens runs dirs k (t(1 \<mapsto> WriteEnd n)) m"
proof -
  have "(t(3 \<mapsto> ReadEnd n, 4 \<mapsto> WriteEnd n))(1 := None, 1 \<mapsto> WriteEnd n, 3 := None, 4 := None) = t(1 \<mapsto> WriteEnd n)"
    using standardD [OF assms] by (auto simp: fun_eq_iff)
  moreover have "lowest ((t(3 \<mapsto> ReadEnd n, 4 \<mapsto> WriteEnd n))(1 := None)) = Some 1"
    using standardD [OF assms] by (intro lowest_1) auto
  moreover have "((t(3 \<mapsto> ReadEnd n, 4 \<mapsto> WriteEnd n))(1 := None)) 4 = Some (WriteEnd n)" by simp
  ultimately show ?thesis by (simp only: behave.simps option.case prod.case)
qed

lemma pipe_right:
  assumes "standard t"
  shows "behave opens runs dirs (Close 0 (Dup 3 (Close 3 (Close 4 k)))) (t(3 \<mapsto> ReadEnd n, 4 \<mapsto> WriteEnd n)) m =
     behave opens runs dirs k (t(0 \<mapsto> ReadEnd n)) m"
proof -
  have "(t(3 \<mapsto> ReadEnd n, 4 \<mapsto> WriteEnd n))(0 := None, 0 \<mapsto> ReadEnd n, 3 := None, 4 := None) = t(0 \<mapsto> ReadEnd n)"
    using standardD [OF assms] by (auto simp: fun_eq_iff)
  moreover have "lowest ((t(3 \<mapsto> ReadEnd n, 4 \<mapsto> WriteEnd n))(0 := None)) = Some 0"
    by (intro lowest_0) auto
  moreover have "((t(3 \<mapsto> ReadEnd n, 4 \<mapsto> WriteEnd n))(0 := None)) 3 = Some (ReadEnd n)" by simp
  ultimately show ?thesis by (simp only: behave.simps option.case prod.case)
qed

lemma redir_opens:
  assumes "standard t" and "fd = 0 \<or> fd = 1"
  shows "lowest (t(fd := None)) = Some fd"
  using assms(2) standardD [OF assms(1)] by (auto intro: lowest_0 lowest_1)

lemma runcmd_plumb:
  "redirs_std c \<Longrightarrow> standard t \<Longrightarrow> behave opens runs dirs (runcmd a c) t n = plumb opens runs a c t n"
proof (induction c arbitrary: t n)
  case (EXEC args)
  then show ?case by (cases args) simp_all
next
  case (REDIR c w mode fd)
  then have fd: "fd = 0 \<or> fd = 1" and "standard (t(fd \<mapsto> File (word_at a w) mode))" by auto
  moreover have "0 \<le> fd" using fd by auto
  ultimately show ?case using REDIR by (simp add: redir_opens)
next
  case (PIPE l r)
  then have "standard (t(1 \<mapsto> WriteEnd n))" "standard (t(0 \<mapsto> ReadEnd n))" by simp_all
  moreover have "(t(3 \<mapsto> ReadEnd n, 4 \<mapsto> WriteEnd n))(3 := None, 4 := None) = t"
    using standardD [OF PIPE.prems(2)] by (auto simp: fun_eq_iff)
  then have "behave opens runs dirs (Close 3 (Close 4 (Wait (Wait (Exit 0)))))
     (t(3 \<mapsto> ReadEnd n, 4 \<mapsto> WriteEnd n)) m = ([Waits t, Waits t], m)" for m by simp
  ultimately show ?case using PIPE
    by (simp del: behave.simps add: behave.simps(5) mkpipe_standard fork1_behave pipe_left pipe_right split: prod.split)
next
  case (LIST l r)
  then show ?case by (simp add: fork1_behave split: prod.split)
next
  case (BACK c)
  then show ?case by (simp add: fork1_behave split: prod.split)
qed

section \<open>What the parser produces\<close>

definition std_redirs :: "redir list \<Rightarrow> bool" where
  "std_redirs rs \<longleftrightarrow> (\<forall>r \<in> set rs. snd (snd r) = 0 \<or> snd (snd r) = 1)"

lemma redirs_std_wrap:
  "redirs_std (wrap c rs) \<longleftrightarrow> redirs_std c \<and> std_redirs rs"
proof (induction rs arbitrary: c)
  case (Cons r rs)
  then show ?case by (cases r) (auto simp: wrap_def std_redirs_def)
qed (simp add: wrap_def std_redirs_def)

lemma std_redirs_snoc: "std_redirs rs \<Longrightarrow> std_redirs (rs @ [redir_of tok w])"
  by (auto simp: redir_of_def std_redirs_def)

lemma parseredirs_std:
  "parseredirs n buf s rs = Inr (rs', s') \<Longrightarrow> std_redirs rs \<Longrightarrow>
   std_redirs rs'"
proof (induction n arbitrary: s rs)
  case (Suc n)
  then show ?case
    by (auto split: prod.splits if_splits dest: std_redirs_snoc)
qed simp

lemma parseargs_std:
  "parseargs n buf s args rs = Inr ((args', rs'), s') \<Longrightarrow> std_redirs rs \<Longrightarrow>
   std_redirs rs'"
proof (induction n arbitrary: s args rs)
  case (Suc n)
  then show ?case
    by (auto split: prod.splits if_splits sum.splits dest: parseredirs_std)
qed simp

lemma parseback_std:
  "parseback n buf s c = Inr (c', s') \<Longrightarrow> redirs_std c' \<longleftrightarrow> redirs_std c"
  by (induction n arbitrary: s c) (auto split: prod.splits if_splits)

lemma parser_std:
  "parseline n buf s = Inr (c, s') \<Longrightarrow> redirs_std c"
  "parsepipe n buf s = Inr (c, s') \<Longrightarrow> redirs_std c"
  "parseexec n buf s = Inr (c, s') \<Longrightarrow> redirs_std c"
  "parseblock n buf s = Inr (c, s') \<Longrightarrow> redirs_std c"
proof (induction n arbitrary: s c s' and s c s' and s c s' and s c s')
  case (Suc n)
  have nil: "std_redirs []" by (simp add: std_redirs_def)
  { case 1
    then show ?case
      using Suc.IH(1,2) parseback_std
      by (auto split: prod.splits if_splits sum.splits)
  next
    case 2
    then show ?case
      using Suc.IH(2,3) by (auto split: prod.splits if_splits sum.splits)
  next
    case 3
    then show ?case
      using Suc.IH(4) parseredirs_std [OF _ nil] parseargs_std
      by (simp split: prod.splits if_splits sum.splits) (metis redirs_std_wrap redirs_std.simps(1))
  next
    case 4
    then show ?case
      using Suc.IH(1) parseredirs_std [OF _ nil]
      by (simp split: prod.splits if_splits sum.splits) (metis redirs_std_wrap) }
qed simp_all

lemma parsecmd_std:
  assumes "parsecmd buf = Inr (c, a)"
  shows "redirs_std c"
  using assms by (auto simp: parsecmd_def split: sum.splits prod.splits if_splits dest: parser_std(1))

text \<open>Every program starts, and every wait happens, with the three standard descriptors only.\<close>

definition tidy :: "event list \<Rightarrow> bool" where
  "tidy es \<longleftrightarrow> (\<forall>argv t. Launch argv t \<in> set es \<or> Waits t \<in> set es \<longrightarrow> standard t)"

lemma tidy_simps [simp]:
  "tidy []" "tidy [Says s]" "tidy (Launch argv t # es) \<longleftrightarrow> standard t \<and> tidy es"
  "tidy (Waits t # es) \<longleftrightarrow> standard t \<and> tidy es" "tidy (es @ es') \<longleftrightarrow> tidy es \<and> tidy es'"
  by (auto simp: tidy_def)

lemma plumb_tidy: "redirs_std c \<Longrightarrow> standard t \<Longrightarrow> tidy (fst (plumb opens runs a c t n))"
proof (induction c arbitrary: t n)
  case (REDIR c w mode fd)
  then have "standard (t(fd \<mapsto> File (word_at a w) mode))" by auto
  with REDIR show ?case by simp
next
  case (PIPE l r)
  then have "standard (t(1 \<mapsto> WriteEnd n))" "standard (t(0 \<mapsto> ReadEnd n))" by simp_all
  with PIPE show ?case by (simp add: case_prod_beta)
qed (simp_all add: case_prod_beta)

text \<open>
  C37. The shell connects the programs of a command line as the line says. Whatever line the
  parser accepts, the process that runs it, started with descriptors 0, 1 and 2 open and no
  others, starts each program with exactly the descriptors the meaning of the command gives
  it: a redirected one is the file, the output of the left and the input of the right side of
  a pipe are the two ends of that pipe, all others are those of the shell. No other end of a
  pipe stays open in any program or in the process while it waits.
\<close>

theorem runcmd_plumbing:
  assumes "parsecmd buf = Inr (c, a)" and "dom t = {0, 1, 2}"
  shows "behave opens runs dirs (runcmd a c) t n = plumb opens runs a c t n \<and>
     (\<forall>argv t'. Launch argv t' \<in> set (fst (plumb opens runs a c t n)) \<or>
        Waits t' \<in> set (fst (plumb opens runs a c t n)) \<longrightarrow> dom t' = {0, 1, 2})"
  using runcmd_plumb [OF parsecmd_std [OF assms(1)]] plumb_tidy [OF parsecmd_std [OF assms(1)]] assms(2)
  unfolding standard_def tidy_def by blast

theorem runcmd_plumbing_witness:
  "behave (\<lambda>f mode. True) (\<lambda>p. True) (\<lambda>d. False)
     (runcmd [CHR ''c'', CHR ''a'', CHR ''t'', NUL, CHR ''f'', NUL, CHR ''w'', CHR ''c'', NUL]
       (PIPE (EXEC [(0, 3), (4, 5)]) (EXEC [(6, 8)])))
     [0 \<mapsto> Inherited 0, 1 \<mapsto> Inherited 1, 2 \<mapsto> Inherited 2] 0 =
   (let t = [0 \<mapsto> Inherited 0, 1 \<mapsto> Inherited 1, 2 \<mapsto> Inherited 2] in
    ([Launch [''cat'', ''f''] (t(1 \<mapsto> WriteEnd 0)), Launch [''wc''] (t(0 \<mapsto> ReadEnd 0)), Waits t, Waits t], 1))"
proof -
  have run: "parsecmd ''cat f|wc'' = Inr (PIPE (EXEC [(0, 3), (4, 5)]) (EXEC [(6, 8)]),
     [CHR ''c'', CHR ''a'', CHR ''t'', NUL, CHR ''f'', NUL, CHR ''w'', CHR ''c'', NUL])"
    by code_simp
  show ?thesis
    using runcmd_plumbing [OF run, of "[0 \<mapsto> Inherited 0, 1 \<mapsto> Inherited 1, 2 \<mapsto> Inherited 2]"
        "\<lambda>f mode. True" "\<lambda>p. True" "\<lambda>d. False" 0]
    by (simp add: word_at_def cstr_def NUL_def Let_def insert_commute)
qed

end
