(* ===== verification/Spec2Isabelle.thy ===== *)
theory Spec2Isabelle
  imports Inherit Filedata Pipequeue Sched Sandbox Grep Uprintf Shrun
begin

text \<open>
  A verification development for the xv6 kernel with a syscall filter.
\<close>

end
